(* ===== verification/Prelude.thy ===== *)
theory Prelude
  imports Main "HOL-Library.Word" "HOL-Library.Monad_Syntax" "HOL-Library.AList" "HOL-Library.Multiset"
begin

text \<open>
  What every component shares: the machine integers as words, the arithmetic and parsing of
  Rust's standard library that the code calls, strings as lists of Unicode scalar values,
  \<open>HashMap\<close> as an association list, and the lemma collections of the development.

  Overflow. The program is built in release mode (\<^verbatim>\<open>cargo build --release\<close> in the Dockerfile, no
  \<open>overflow-checks\<close> in a profile), so \<open>+\<close>, \<open>-\<close> and \<open>*\<close> on machine integers wrap: they are the
  operations of the word type. A panic (\<open>unwrap\<close> of \<open>None\<close>, a slice out of range, a call of
  \<open>process::exit\<close>) is the value \<open>None\<close> of an option.
\<close>

section \<open>Lemma collections\<close>

text \<open>
  \<open>codec\<close> collects the round trips of printers and parsers, encoders and decoders;
  \<open>hashmap\<close> the equations of the hash map operations.
\<close>

named_theorems codec
named_theorems hashmap

section \<open>Machine integers\<close>

type_synonym u8 = "8 word"
type_synonym u16 = "16 word"
type_synonym u32 = "32 word"
type_synonym u64 = "64 word"
type_synonym u128 = "128 word"

definition checked_add :: "'a::len word \<Rightarrow> 'a word \<Rightarrow> 'a word option" where
  "checked_add a b = (if unat a + unat b < 2 ^ LENGTH('a) then Some (a + b) else None)"

definition checked_sub :: "'a::len word \<Rightarrow> 'a word \<Rightarrow> 'a word option" where
  "checked_sub a b = (if b \<le> a then Some (a - b) else None)"

definition checked_mul :: "'a::len word \<Rightarrow> 'a word \<Rightarrow> 'a word option" where
  "checked_mul a b = (if unat a * unat b < 2 ^ LENGTH('a) then Some (a * b) else None)"

definition saturating_add :: "'a::len word \<Rightarrow> 'a word \<Rightarrow> 'a word" where
  "saturating_add a b = (if unat a + unat b < 2 ^ LENGTH('a) then a + b else - 1)"

definition saturating_sub :: "'a::len word \<Rightarrow> 'a word \<Rightarrow> 'a word" where
  "saturating_sub a b = (if b \<le> a then a - b else 0)"

text \<open>\<open>try_from\<close> between unsigned integers: \<open>Err\<close> (here \<open>None\<close>) when the value does not fit.\<close>

definition try_from :: "'a::len word \<Rightarrow> 'b::len word option" where
  "try_from a = (if unat a < 2 ^ LENGTH('b) then Some (ucast a) else None)"

lemma unat_add_fits:
  "unat a + unat b < 2 ^ LENGTH('a) \<Longrightarrow> unat (a + b :: 'a::len word) = unat a + unat b"
  by (simp add: unat_word_ariths)

lemma unat_mult_fits:
  "unat a * unat b < 2 ^ LENGTH('a) \<Longrightarrow> unat (a * b :: 'a::len word) = unat a * unat b"
  by (simp add: unat_word_ariths)

lemma unat_diff_le: "b \<le> a \<Longrightarrow> unat (a - b :: 'a::len word) = unat a - unat b"
  by (simp add: unat_sub)

lemma unat_of_nat_small: "n < 2 ^ LENGTH('a) \<Longrightarrow> unat (of_nat n :: 'a::len word) = n"
  by (simp add: unat_of_nat take_bit_nat_eq_self)

lemma word_of_unat: "unat x = n \<Longrightarrow> x = of_nat n" for x :: "'a::len word"
  by (metis of_nat_unat ucast_id)

lemma unat_max: "unat (- 1 :: 'a::len word) = 2 ^ LENGTH('a) - 1"
  by (simp add: unsigned_minus_1_eq_mask mask_eq_exp_minus_1)

lemma checked_add_nat:
  "checked_add a b =
     (if unat a + unat b < 2 ^ LENGTH('a) then Some (of_nat (unat a + unat b) :: 'a::len word)
      else None)"
  by (simp add: checked_add_def)

lemma checked_mul_nat:
  "checked_mul a b =
     (if unat a * unat b < 2 ^ LENGTH('a) then Some (of_nat (unat a * unat b) :: 'a::len word)
      else None)"
  by (simp add: checked_mul_def)

lemma checked_add_Some:
  "checked_add a b = Some c \<Longrightarrow> unat c = unat a + unat b"
  by (auto simp: checked_add_def unat_add_fits split: if_splits)

lemma checked_add_None:
  "checked_add (a :: 'a::len word) b = None \<longleftrightarrow> 2 ^ LENGTH('a) \<le> unat a + unat b"
  by (auto simp: checked_add_def)

lemma checked_sub_Some:
  "checked_sub a b = Some c \<longleftrightarrow> b \<le> a \<and> c = a - b"
  by (auto simp: checked_sub_def)

lemma checked_mul_Some:
  "checked_mul a b = Some c \<Longrightarrow> unat c = unat a * unat b"
  by (auto simp: checked_mul_def unat_mult_fits split: if_splits)

lemma checked_add_diff: "b \<le> a \<Longrightarrow> checked_add b (a - b) = Some (a :: 'a::len word)"
proof -
  assume "b \<le> a"
  then have "unat b + unat (a - b) = unat a"
    by (simp add: unat_diff_le word_le_nat_alt)
  moreover have "unat a < 2 ^ LENGTH('a)" by (rule unsigned_less)
  ultimately show ?thesis by (simp add: checked_add_def)
qed

lemma unat_ucast_small:
  "unat (y :: 'a::len word) < 2 ^ LENGTH('b::len) \<Longrightarrow> unat (ucast y :: 'b word) = unat y"
  by (simp add: unsigned_ucast_eq unsigned_take_bit_eq take_bit_nat_eq_self)

lemma unat_ucast_up:
  assumes "LENGTH('b::len) \<le> LENGTH('a::len)"
  shows "unat (ucast (x :: 'b word) :: 'a word) = unat x"
proof -
  have "unat x < 2 ^ LENGTH('b)" by (rule unsigned_less)
  also have "(2::nat) ^ LENGTH('b) \<le> 2 ^ LENGTH('a)"
    using assms by (simp add: power_increasing)
  finally show ?thesis by (rule unat_ucast_small)
qed

lemma ucast_ucast_up:
  assumes "LENGTH('b::len) \<le> LENGTH('a::len)"
  shows "(ucast (ucast (x :: 'b word) :: 'a word) :: 'b word) = x"
proof -
  have "unat (ucast x :: 'a word) < 2 ^ LENGTH('b)"
    unfolding unat_ucast_up [OF assms] by (rule unsigned_less)
  then show ?thesis
    by (metis unat_ucast_small unat_ucast_up [OF assms] word_unat_eq_iff)
qed

lemma ucast_up_inj:
  assumes "LENGTH('b::len) \<le> LENGTH('a::len)"
  shows "(ucast (x :: 'b word) :: 'a word) = ucast y \<longleftrightarrow> x = y"
  by (metis assms ucast_ucast_up)

lemma ucast_up_0:
  assumes "LENGTH('b::len) \<le> LENGTH('a::len)"
  shows "(ucast (x :: 'b word) :: 'a word) = 0 \<longleftrightarrow> x = 0"
  using ucast_up_inj [OF assms, of x 0] by simp

lemma try_from_ucast [simp]:
  "LENGTH('b::len) \<le> LENGTH('a::len) \<Longrightarrow>
   (try_from (ucast (x :: 'b word) :: 'a word) :: 'b word option) = Some x"
  by (simp add: try_from_def ucast_ucast_up unat_ucast_up)

lemma try_from_Some:
  "(try_from (x :: 'a::len word) :: 'b::len word option) = Some y \<Longrightarrow> unat y = unat x"
  by (auto simp: try_from_def unat_ucast_small split: if_splits)

lemma word_le_unat: "(a :: 'a::len word) \<le> b \<longleftrightarrow> unat a \<le> unat b"
  by (rule word_le_nat_alt)

lemma all_less_two: "(\<forall>k < Suc (Suc 0). P k) \<longleftrightarrow> P 0 \<and> P (Suc 0)"
  by (auto simp: less_Suc_eq)

section \<open>Strings\<close>

text \<open>
  A \<open>char\<close> is a Unicode scalar value and a \<open>String\<close> the list of its characters. \<open>lit\<close> turns an
  ASCII literal into such a list.
\<close>

type_synonym uchar = nat
type_synonym ustr = "uchar list"

definition lit :: "string \<Rightarrow> ustr" where
  "lit s = map of_char s"

text \<open>\<open>&s[k..]\<close> on an ASCII string: a panic when the string is shorter than \<open>k\<close>.\<close>

definition slice_from :: "nat \<Rightarrow> ustr \<Rightarrow> ustr option" where
  "slice_from k s = (if k \<le> length s then Some (drop k s) else None)"

lemma slice_from_Some: "k \<le> length s \<Longrightarrow> slice_from k s = Some (drop k s)"
  by (simp add: slice_from_def)

text \<open>\<open>xs[i]\<close> and \<open>xs.get(i)\<close>: \<open>None\<close> out of range.\<close>

definition vec_get :: "'a list \<Rightarrow> nat \<Rightarrow> 'a option" where
  "vec_get xs i = (if i < length xs then Some (xs ! i) else None)"

lemma vec_get_Some: "i < length xs \<Longrightarrow> vec_get xs i = Some (xs ! i)"
  by (simp add: vec_get_def)

text \<open>\<open>s.split_once(c)\<close>: the parts before and after the first occurrence of \<open>c\<close>.\<close>

fun split_once :: "uchar \<Rightarrow> ustr \<Rightarrow> (ustr \<times> ustr) option" where
  "split_once c [] = None"
| "split_once c (x # xs) =
     (if x = c then Some ([], xs)
      else map_option (\<lambda>(a, b). (x # a, b)) (split_once c xs))"

lemma split_once_append: "c \<notin> set a \<Longrightarrow> split_once c (a @ c # b) = Some (a, b)"
  by (induction a) auto

lemma split_once_None: "split_once c s = None \<longleftrightarrow> c \<notin> set s"
  by (induction s) auto

lemma split_once_Some: "split_once c s = Some (a, b) \<Longrightarrow> s = a @ c # b \<and> c \<notin> set a"
  by (induction s arbitrary: a) (auto split: if_splits)

text \<open>\<open>xs.chunks(n)\<close>: pieces of \<open>n\<close> elements, the last one possibly shorter.\<close>

function chunks :: "nat \<Rightarrow> 'a list \<Rightarrow> 'a list list" where
  "chunks n xs = (if xs = [] \<or> n = 0 then [] else take n xs # chunks n (drop n xs))"
  by pat_completeness auto
termination by (relation "measure (\<lambda>(n, xs). length xs)") auto

declare chunks.simps [simp del]

lemma chunks_Nil [simp]: "chunks n [] = []"
  by (simp add: chunks.simps [of n "[]"])

lemma concat_chunks: "0 < n \<Longrightarrow> concat (chunks n xs) = xs"
  by (induction n xs rule: chunks.induct) (subst chunks.simps, simp)

lemma length_chunk: "p \<in> set (chunks n xs) \<Longrightarrow> length p \<le> n"
proof (induction n xs rule: chunks.induct)
  case (1 n xs)
  then show ?case by (subst (asm) (2) chunks.simps) (auto split: if_splits)
qed

section \<open>Printing and parsing unsigned integers\<close>

text \<open>\<open>Display\<close> of an unsigned integer: its decimal digits, without leading zeros.\<close>

fun dec :: "nat \<Rightarrow> ustr" where
  "dec n = (if n < 10 then [48 + n] else dec (n div 10) @ [48 + n mod 10])"

declare dec.simps [simp del]

datatype parse_int_error = Empty | InvalidDigit | PosOverflow

text \<open>
  \<open>from_str_radix(s, 10)\<close> at an unsigned type with values below \<open>bound\<close>: a leading \<open>+\<close> is
  accepted, a digit is checked before the overflow it would cause.
\<close>

fun parse_digits :: "nat \<Rightarrow> nat \<Rightarrow> ustr \<Rightarrow> parse_int_error + nat" where
  "parse_digits bound acc [] = Inr acc"
| "parse_digits bound acc (c # cs) =
     (if c < 48 \<or> 57 < c then Inl InvalidDigit
      else if bound \<le> acc * 10 + (c - 48) then Inl PosOverflow
      else parse_digits bound (acc * 10 + (c - 48)) cs)"

definition parse_uint :: "nat \<Rightarrow> ustr \<Rightarrow> parse_int_error + nat" where
  "parse_uint bound s =
     (case s of
        [] \<Rightarrow> Inl Empty
      | c # cs \<Rightarrow>
          if (c = 43 \<or> c = 45) \<and> cs = [] then Inl InvalidDigit
          else if c = 43 then parse_digits bound 0 cs
          else parse_digits bound 0 s)"

lemma dec_nonempty [simp]: "dec n \<noteq> []"
  by (subst dec.simps) simp

lemma dec_digit: "c \<in> set (dec n) \<Longrightarrow> 48 \<le> c \<and> c \<le> 57"
proof (induction n rule: dec.induct)
  case (1 n)
  show ?case
  proof (cases "n < 10")
    case True
    with "1.prems" show ?thesis by (simp add: dec.simps [of n])
  next
    case False
    have "n mod 10 < 10" by simp
    with "1.prems" "1.IH" False show ?thesis by (auto simp: dec.simps [of n])
  qed
qed

lemma parse_digits_append:
  "parse_digits b acc (xs @ ys) =
     (case parse_digits b acc xs of Inl e \<Rightarrow> Inl e | Inr a \<Rightarrow> parse_digits b a ys)"
  by (induction xs arbitrary: acc) auto

lemma parse_digits_dec: "n < b \<Longrightarrow> parse_digits b 0 (dec n) = Inr n"
proof (induction n rule: dec.induct)
  case (1 n)
  show ?case
  proof (cases "n < 10")
    case True
    with "1.prems" show ?thesis by (simp add: dec.simps [of n])
  next
    case False
    have "n div 10 * 10 + n mod 10 = n" by simp
    moreover from False "1.IH" "1.prems" have "parse_digits b 0 (dec (n div 10)) = Inr (n div 10)"
      by simp
    ultimately show ?thesis using False "1.prems"
      by (simp add: dec.simps [of n] parse_digits_append)
  qed
qed

lemma parse_uint_dec [codec]: "n < b \<Longrightarrow> parse_uint b (dec n) = Inr n"
proof -
  assume b: "n < b"
  obtain c cs where d: "dec n = c # cs"
    by (cases "dec n") auto
  then have "48 \<le> c" using dec_digit [of c n] by simp
  with d show ?thesis using parse_digits_dec [OF b] by (simp add: parse_uint_def)
qed

lemma parse_digits_bound: "parse_digits b acc s = Inr n \<Longrightarrow> acc < b \<Longrightarrow> n < b"
  by (induction s arbitrary: acc) (auto split: if_splits)

lemma parse_uint_bound: "parse_uint b s = Inr n \<Longrightarrow> 0 < b \<Longrightarrow> n < b"
  by (auto simp: parse_uint_def split: list.splits if_splits dest: parse_digits_bound)

text \<open>The number a digit string denotes, used to compare a parse with its text.\<close>

lemma dec_inj: "dec m = dec n \<Longrightarrow> m = n"
proof -
  assume "dec m = dec n"
  then have "parse_uint (Suc (max m n)) (dec m) = parse_uint (Suc (max m n)) (dec n)" by simp
  then show ?thesis by (simp add: parse_uint_dec)
qed

section \<open>Hash maps\<close>

text \<open>
  A \<open>HashMap\<close> is an association list with distinct keys. The position of an entry has no
  meaning: \<open>map_of\<close> reads it, and wherever the code iterates over a map the order is a
  parameter of the model, a function that returns some permutation of the entries.
\<close>

type_synonym ('k, 'v) hashmap = "('k \<times> 'v) list"

text \<open>\<open>m.entry(k).and_modify(f).or_insert(d)\<close>\<close>

definition hm_upsert :: "'k \<Rightarrow> ('v \<Rightarrow> 'v) \<Rightarrow> 'v \<Rightarrow> ('k, 'v) hashmap \<Rightarrow> ('k, 'v) hashmap" where
  "hm_upsert k f d m =
     (case map_of m k of None \<Rightarrow> AList.update k d m | Some v \<Rightarrow> AList.update k (f v) m)"

definition hm_distinct :: "('k, 'v) hashmap \<Rightarrow> bool" where
  "hm_distinct m = distinct (map fst m)"

definition is_iteration :: "(('k, 'v) hashmap \<Rightarrow> ('k, 'v) hashmap) \<Rightarrow> bool" where
  "is_iteration it = (\<forall>m. mset (it m) = mset m)"

lemma map_of_upsert [hashmap]:
  "map_of (hm_upsert k f d m) =
     (map_of m)(k \<mapsto> (case map_of m k of None \<Rightarrow> d | Some v \<Rightarrow> f v))"
  by (simp add: hm_upsert_def update_conv' split: option.splits)

lemma map_of_update [hashmap]: "map_of (AList.update k v m) = (map_of m)(k \<mapsto> v)"
  by (rule update_conv')

lemma hm_distinct_Nil [simp]: "hm_distinct []"
  by (simp add: hm_distinct_def)

lemma hm_distinct_update [simp]: "hm_distinct m \<Longrightarrow> hm_distinct (AList.update k v m)"
  by (simp add: hm_distinct_def distinct_update)

lemma hm_distinct_upsert [simp]: "hm_distinct m \<Longrightarrow> hm_distinct (hm_upsert k f d m)"
  by (simp add: hm_upsert_def split: option.splits)

lemma hm_distinct_iteration:
  "is_iteration it \<Longrightarrow> hm_distinct m \<Longrightarrow> hm_distinct (it m)"
  by (metis hm_distinct_def is_iteration_def mset_eq_imp_distinct_iff mset_map)

lemma set_iteration: "is_iteration it \<Longrightarrow> set (it m) = set m"
  by (metis is_iteration_def set_mset_mset)

lemma map_of_iteration:
  assumes "is_iteration it" and "hm_distinct m"
  shows "map_of (it m) = map_of m"
  using assms hm_distinct_iteration [OF assms] set_iteration [OF assms(1), of m]
  by (metis hm_distinct_def map_of_inject_set)

lemma is_iteration_id: "is_iteration (\<lambda>m. m)"
  by (simp add: is_iteration_def)

lemma is_iteration_rev: "is_iteration rev"
  by (simp add: is_iteration_def)

end
