(* ===== verification/Rune_Id.thy ===== *)
theory Rune_Id
  imports Prelude
begin

text \<open>
  The identifier of a rune, \<open>RuneId\<close> of \<^verbatim>\<open>crates/ordinals/src/rune_id.rs\<close>: the block and the
  transaction of its etching. It is ordered by block, then transaction; \<open>delta\<close> and \<open>next\<close> write
  a sorted list of identifiers as differences and read it back; \<open>to_string\<close> and \<open>from_str\<close>
  print it as \<open>block:tx\<close> and parse it. The main facts: \<open>next\<close> inverts \<open>delta\<close>, \<open>delta\<close> fails
  exactly on a descending pair, printing and parsing are inverse.
\<close>

section \<open>Identifiers\<close>

datatype rune_id = RuneId (rid_block: u64) (rid_tx: u32)

text \<open>The derived \<open>Ord\<close>: lexicographic in the order of the fields.\<close>

definition rune_id_le :: "rune_id \<Rightarrow> rune_id \<Rightarrow> bool" where
  "rune_id_le a b \<longleftrightarrow>
     rid_block a < rid_block b \<or> rid_block a = rid_block b \<and> rid_tx a \<le> rid_tx b"

definition rune_id_lt :: "rune_id \<Rightarrow> rune_id \<Rightarrow> bool" where
  "rune_id_lt a b \<longleftrightarrow>
     rid_block a < rid_block b \<or> rid_block a = rid_block b \<and> rid_tx a < rid_tx b"

instantiation rune_id :: linorder
begin

definition "(a :: rune_id) \<le> b \<longleftrightarrow> rune_id_le a b"

definition "(a :: rune_id) < b \<longleftrightarrow> rune_id_lt a b"

instance
  by standard
    (auto simp: less_eq_rune_id_def less_rune_id_def rune_id_le_def rune_id_lt_def rune_id.expand)

end

lemmas rune_id_order =
  less_eq_rune_id_def less_rune_id_def rune_id_le_def rune_id_lt_def

definition rune_id_default :: rune_id where
  "rune_id_default = RuneId 0 0"

definition rune_id_new :: "u64 \<Rightarrow> u32 \<Rightarrow> rune_id option" where
  "rune_id_new b t =
     (let i = RuneId b t in
      if rid_block i = 0 \<and> rid_tx i > 0 then None else Some i)"

definition rune_id_delta :: "rune_id \<Rightarrow> rune_id \<Rightarrow> (u128 \<times> u128) option" where
  "rune_id_delta self nxt =
     do {
       b \<leftarrow> checked_sub (rid_block nxt) (rid_block self);
       t \<leftarrow> (if b = 0 then checked_sub (rid_tx nxt) (rid_tx self) else Some (rid_tx nxt));
       Some (ucast b, ucast t)
     }"

definition rune_id_next :: "rune_id \<Rightarrow> u128 \<Rightarrow> u128 \<Rightarrow> rune_id option" where
  "rune_id_next self b t =
     do {
       b64 \<leftarrow> try_from b;
       b' \<leftarrow> checked_add (rid_block self) b64;
       t' \<leftarrow> (if b = 0
             then do { t32 \<leftarrow> try_from t; checked_add (rid_tx self) t32 }
             else try_from t);
       rune_id_new b' t'
     }"

text \<open>The identifiers \<open>RuneId::new\<close> accepts.\<close>

definition rune_id_valid :: "rune_id \<Rightarrow> bool" where
  "rune_id_valid i = (rid_block i = 0 \<longrightarrow> rid_tx i = 0)"

section \<open>Text form\<close>

datatype rune_id_error =
    Separator
  | BlockError parse_int_error
  | TransactionError parse_int_error

definition rune_id_to_string :: "rune_id \<Rightarrow> ustr" where
  "rune_id_to_string i = dec (unat (rid_block i)) @ 58 # dec (unat (rid_tx i))"

definition rune_id_from_str :: "ustr \<Rightarrow> rune_id_error + rune_id" where
  "rune_id_from_str s =
     (case split_once 58 s of
        None \<Rightarrow> Inl Separator
      | Some (height, index) \<Rightarrow>
          (case parse_uint (2 ^ 64) height of
             Inl e \<Rightarrow> Inl (BlockError e)
           | Inr b \<Rightarrow>
               (case parse_uint (2 ^ 32) index of
                  Inl e \<Rightarrow> Inl (TransactionError e)
                | Inr t \<Rightarrow> Inr (RuneId (of_nat b) (of_nat t)))))"

definition parse_int_error_fmt :: "parse_int_error \<Rightarrow> ustr" where
  "parse_int_error_fmt e =
     (case e of
        Empty \<Rightarrow> lit ''cannot parse integer from empty string''
      | InvalidDigit \<Rightarrow> lit ''invalid digit found in string''
      | PosOverflow \<Rightarrow> lit ''number too large to fit in target type'')"

definition rune_id_error_fmt :: "rune_id_error \<Rightarrow> ustr" where
  "rune_id_error_fmt e =
     (case e of
        Separator \<Rightarrow> lit ''missing separator''
      | BlockError err \<Rightarrow> lit ''invalid height: '' @ parse_int_error_fmt err
      | TransactionError err \<Rightarrow> lit ''invalid index: '' @ parse_int_error_fmt err)"

section \<open>Differences\<close>

lemma rune_id_new_Some: "rune_id_new b t = Some i \<longleftrightarrow> i = RuneId b t \<and> rune_id_valid i"
  by (auto simp: rune_id_new_def rune_id_valid_def word_gt_0)

lemma rune_id_default_least: "rune_id_default \<le> i"
  by (cases i) (auto simp: rune_id_default_def rune_id_order word_gt_0)

lemma rune_id_delta_None: "rune_id_delta a b = None \<longleftrightarrow> b < a"
  by (auto simp: rune_id_delta_def checked_sub_def rune_id_order bind_eq_None_conv
      not_le word_gt_0 simp flip: word_neq_0_conv)

lemma rune_id_next_delta:
  assumes "rune_id_delta a b = Some (d, t)" and "rune_id_valid b"
  shows "rune_id_next a d t = Some b"
proof -
  obtain ab at where a: "a = RuneId ab at" by (cases a)
  obtain bb bt where b: "b = RuneId bb bt" by (cases b)
  from assms(1) have le: "ab \<le> bb" and d: "d = ucast (bb - ab)"
    and t: "if bb = ab then at \<le> bt \<and> t = ucast (bt - at) else t = ucast bt"
    by (auto simp: a b rune_id_delta_def checked_sub_def bind_eq_Some_conv split: if_splits)
  have z: "d = 0 \<longleftrightarrow> bb = ab"
    unfolding d by (simp add: ucast_up_0)
  show ?thesis
    using t assms(2) z
    by (auto simp: a b d rune_id_next_def checked_add_diff [OF le] checked_add_diff
        rune_id_new_Some split: if_splits)
qed

lemma rune_id_delta_next:
  assumes "rune_id_next a d t = Some b"
  shows "rune_id_delta a b = Some (d, t)"
proof -
  obtain ab at where a: "a = RuneId ab at" by (cases a)
  from assms obtain d64 bb bt where d64: "try_from d = Some d64"
    and bb: "checked_add ab d64 = Some bb"
    and bt': "(if d = 0 then do { t32 \<leftarrow> try_from t; checked_add at t32 } else try_from t) = Some bt"
    and b: "b = RuneId bb bt"
    unfolding rune_id_next_def a
    by (auto simp: bind_eq_Some_conv rune_id_new_Some split: if_splits)
  have ud: "unat d64 = unat d" by (rule try_from_Some [OF d64])
  have ubb: "unat bb = unat ab + unat d64" by (rule checked_add_Some [OF bb])
  then have le: "ab \<le> bb" by (simp add: word_le_unat)
  then have sub: "unat (bb - ab) = unat d64" using ubb by (simp add: unat_diff_le)
  then have bsub: "bb - ab = d64" by (simp add: word_unat_eq_iff)
  have cd: "ucast d64 = d" using ud by (simp add: word_unat_eq_iff unat_ucast_up)
  have z: "d64 = 0 \<longleftrightarrow> d = 0" using ud by (metis unat_eq_zero)
  show ?thesis
  proof (cases "d = 0")
    case True
    with bt' obtain t32 where t32: "try_from t = Some t32" and bt: "checked_add at t32 = Some bt"
      by (auto simp: bind_eq_Some_conv)
    have ubt: "unat bt = unat at + unat t32" by (rule checked_add_Some [OF bt])
    then have le': "at \<le> bt" by (simp add: word_le_unat)
    then have "bt - at = t32" using ubt by (simp add: unat_diff_le word_unat_eq_iff)
    moreover have "ucast t32 = t"
      using try_from_Some [OF t32] by (simp add: word_unat_eq_iff unat_ucast_up)
    ultimately show ?thesis
      using True z cd le le' bsub by (simp add: a b rune_id_delta_def checked_sub_def)
  next
    case False
    with bt' have bt: "try_from t = Some bt" by simp
    have "ucast bt = t"
      using try_from_Some [OF bt] by (simp add: word_unat_eq_iff unat_ucast_up)
    then show ?thesis
      using False z cd le bsub by (simp add: a b rune_id_delta_def checked_sub_def)
  qed
qed

lemma rune_id_next_valid: "rune_id_next a d t = Some b \<Longrightarrow> rune_id_valid b"
  by (auto simp: rune_id_next_def bind_eq_Some_conv rune_id_new_Some)

section \<open>Printing and parsing\<close>

lemma colon_not_in_dec [simp]: "58 \<notin> set (dec n)"
  using dec_digit [of 58 n] by auto

lemma rune_id_from_to_string [codec]: "rune_id_from_str (rune_id_to_string i) = Inr i"
proof -
  have "unat (rid_block i) < 2 ^ 64" and "unat (rid_tx i) < 2 ^ 32"
    using unsigned_less [of "rid_block i"] unsigned_less [of "rid_tx i"] by simp_all
  then show ?thesis
    by (simp add: rune_id_from_str_def rune_id_to_string_def split_once_append parse_uint_dec
        del: power_numeral)
qed

lemma rune_id_to_string_inj: "rune_id_to_string i = rune_id_to_string j \<Longrightarrow> i = j"
  by (metis rune_id_from_to_string sum.inject(2))

lemma rune_id_to_string_eq [simp]: "rune_id_to_string i = rune_id_to_string j \<longleftrightarrow> i = j"
  using rune_id_to_string_inj by auto

section \<open>Properties\<close>

text \<open>
  C32. \<open>next\<close> undoes \<open>delta\<close> and conversely: from identifier \<open>a\<close>, the pair \<open>(d, t)\<close> leads to
  the valid identifier \<open>b\<close> exactly when it is the difference of the two, and a difference
  exists exactly when \<open>b\<close> is not before \<open>a\<close>.
\<close>

theorem rune_id_next_iff_delta:
  "(rune_id_next a d t = Some b \<longleftrightarrow> rune_id_delta a b = Some (d, t) \<and> rune_id_valid b) \<and>
   (rune_id_delta a b = None \<longleftrightarrow> b < a)"
  using rune_id_next_delta rune_id_delta_next rune_id_next_valid rune_id_delta_None by blast

text \<open>Parsing the printed form of a rune id gives the id back.\<close>

lemma rune_id_print_parse: "rune_id_from_str (rune_id_to_string i) = Inr i"
  by (rule rune_id_from_to_string)

end
