(* ===== verification/Rune_Name.thy ===== *)
theory Rune_Name
  imports Prelude
begin

unbundle bit_operations_syntax

text \<open>
  The name of a rune, \<open>Rune\<close> of \<^verbatim>\<open>crates/ordinals/src/rune.rs\<close>: a number below \<open>2 ^ 128\<close> shown as
  a string of capital letters in bijective base 26. The theory models printing and parsing, the
  minimum name a block height allows, the reserved names and the commitment bytes. The main
  facts: printing and parsing are inverse in both directions, the minimum name never increases
  with the height and never panics, a reserved name exists for every block and transaction.

  The constants \<open>SUBSIDY_HALVING_INTERVAL\<close> and \<open>DIFFCHANGE_INTERVAL\<close> are the Bitcoin consensus
  constants of the \<open>bitcoin\<close> crate; \<open>Network\<close> is its enum, of which the code names these
  constructors and treats any other with a wildcard (\<open>OtherNetwork\<close>).
\<close>

section \<open>Networks and constants\<close>

datatype testnet_version = V3 | V4 | OtherVersion

datatype network = Bitcoin | Testnet testnet_version | Signet | Regtest | OtherNetwork

definition SUBSIDY_HALVING_INTERVAL :: u32 where
  "SUBSIDY_HALVING_INTERVAL = 210000"

definition DIFFCHANGE_INTERVAL :: u32 where
  "DIFFCHANGE_INTERVAL = 2016"

section \<open>Names\<close>

datatype rune = Rune (rune_n: u128)

definition RESERVED :: u128 where
  "RESERVED = 6402364363415443603228541259936211926"

definition STEPS :: "u128 list" where
  "STEPS =
     [0,
      26,
      702,
      18278,
      475254,
      12356630,
      321272406,
      8353082582,
      217180147158,
      5646683826134,
      146813779479510,
      3817158266467286,
      99246114928149462,
      2580398988131886038,
      67090373691429037014,
      1744349715977154962390,
      45353092615406029022166,
      1179180408000556754576342,
      30658690608014475618984918,
      797125955808376366093607894,
      20725274851017785518433805270,
      538857146126462423479278937046,
      14010285799288023010461252363222,
      364267430781488598271992561443798,
      9470953200318703555071806597538774,
      246244783208286292431866971536008150,
      6402364363415443603228541259936211926,
      166461473448801533683942072758341510102]"

definition first_rune_height :: "network \<Rightarrow> u32" where
  "first_rune_height n =
     SUBSIDY_HALVING_INTERVAL *
       (case n of
          Bitcoin \<Rightarrow> 4
        | Regtest \<Rightarrow> 0
        | Signet \<Rightarrow> 0
        | Testnet _ \<Rightarrow> 12
        | _ \<Rightarrow> 0)"

text \<open>\<open>None\<close> is the panic of an index out of range.\<close>

definition minimum_at_height :: "network \<Rightarrow> u32 \<Rightarrow> rune option" where
  "minimum_at_height chain height =
     (let offset = saturating_add height 1;
          INTERVAL = SUBSIDY_HALVING_INTERVAL div 12;
          start = first_rune_height chain;
          end = start + SUBSIDY_HALVING_INTERVAL
      in if offset < start then map_option Rune (vec_get STEPS 12)
         else if offset \<ge> end then Some (Rune 0)
         else
           let progress = saturating_sub offset start;
               len = saturating_sub 12 (progress div INTERVAL)
           in do {
                lo \<leftarrow> vec_get STEPS (unat (len - 1));
                hi \<leftarrow> vec_get STEPS (unat len);
                let remainder = (ucast (progress mod INTERVAL) :: u128);
                Some (Rune (hi - (hi - lo) * remainder div ucast INTERVAL))
              })"

definition is_reserved :: "rune \<Rightarrow> bool" where
  "is_reserved r = (rune_n r \<ge> RESERVED)"

definition reserved :: "u64 \<Rightarrow> u32 \<Rightarrow> rune option" where
  "reserved b t = map_option Rune (checked_add RESERVED (push_bit 32 (ucast b) OR ucast t))"

definition to_le_bytes :: "u128 \<Rightarrow> u8 list" where
  "to_le_bytes n = map (\<lambda>i. ucast (drop_bit (8 * i) n)) [0..<16]"

fun commitment_end :: "u8 list \<Rightarrow> nat \<Rightarrow> nat" where
  "commitment_end bytes 0 = 0"
| "commitment_end bytes (Suc e) =
     (if bytes ! e = 0 then commitment_end bytes e else Suc e)"

definition commitment :: "rune \<Rightarrow> u8 list" where
  "commitment r =
     (let bytes = to_le_bytes (rune_n r)
      in take (commitment_end bytes (length bytes)) bytes)"

section \<open>Printing and parsing\<close>

function rune_symbols :: "u128 \<Rightarrow> ustr \<Rightarrow> ustr" where
  "rune_symbols n symbol =
     (if n > 0
      then rune_symbols ((n - 1) div 26)
             (symbol @ [lit ''ABCDEFGHIJKLMNOPQRSTUVWXYZ'' ! unat ((n - 1) mod 26)])
      else symbol)"
  by pat_completeness auto
termination
proof (relation "measure (\<lambda>(n, s). unat n)", goal_cases)
  case 1
  show ?case by simp
next
  case (2 n s)
  then have "unat (n - 1) = unat n - 1" and "0 < unat n"
    by (simp_all add: unat_minus_one unat_gt_0 word_gt_0)
  then show ?case by (simp add: unat_div)
qed

declare rune_symbols.simps [simp del]

definition rune_to_string :: "rune \<Rightarrow> ustr" where
  "rune_to_string r =
     (let n = rune_n r in
      if n = - 1 then lit ''BCGDENLQRQWDSLRUGSNLBTMFIJAV''
      else rev (rune_symbols (n + 1) []))"

datatype rune_error = RuneCharacter uchar | RuneRange

definition ok_or :: "'a option \<Rightarrow> 'e \<Rightarrow> 'e + 'a" where
  "ok_or x e = (case x of None \<Rightarrow> Inl e | Some a \<Rightarrow> Inr a)"

fun rune_parse :: "nat \<Rightarrow> u128 \<Rightarrow> ustr \<Rightarrow> rune_error + u128" where
  "rune_parse i x [] = Inr x"
| "rune_parse i x (c # cs) =
     (case ok_or (if i > 0 then checked_add x 1 else Some x) RuneRange of
        Inl e \<Rightarrow> Inl e
      | Inr x1 \<Rightarrow>
          (case ok_or (checked_mul x1 26) RuneRange of
             Inl e \<Rightarrow> Inl e
           | Inr x2 \<Rightarrow>
               if 65 \<le> c \<and> c \<le> 90
               then (case ok_or (checked_add x2 (of_nat (c - 65))) RuneRange of
                       Inl e \<Rightarrow> Inl e
                     | Inr x3 \<Rightarrow> rune_parse (i + 1) x3 cs)
               else Inl (RuneCharacter c)))"

definition rune_from_str :: "ustr \<Rightarrow> rune_error + rune" where
  "rune_from_str s = map_sum id Rune (rune_parse 0 0 s)"

definition rune_error_fmt :: "rune_error \<Rightarrow> ustr" where
  "rune_error_fmt e =
     (case e of
        RuneCharacter c \<Rightarrow> lit ''invalid character `'' @ [c] @ lit ''`''
      | RuneRange \<Rightarrow> lit ''name out of range'')"

section \<open>Bijective base 26\<close>

text \<open>
  The reference form of a name: \<open>letters m\<close> writes \<open>m > 0\<close> in bijective base 26, \<open>letters_val\<close>
  reads it; the name of the rune \<open>n\<close> is \<open>letters (n + 1)\<close>.
\<close>

fun letters :: "nat \<Rightarrow> ustr" where
  "letters m = (if m = 0 then [] else letters ((m - 1) div 26) @ [65 + (m - 1) mod 26])"

declare letters.simps [simp del]

definition letters_val :: "ustr \<Rightarrow> nat" where
  "letters_val s = foldl (\<lambda>y c. y * 26 + (c - 64)) 0 s"

definition is_name :: "ustr \<Rightarrow> bool" where
  "is_name s = list_all (\<lambda>c. 65 \<le> c \<and> c \<le> 90) s"

lemma letters_0 [simp]: "letters 0 = []"
  by (simp add: letters.simps)

lemma letters_nonempty [simp]: "letters m = [] \<longleftrightarrow> m = 0"
  by (simp add: letters.simps [of m])

lemma letters_val_Nil [simp]: "letters_val [] = 0"
  by (simp add: letters_val_def)

lemma letters_val_snoc [simp]: "letters_val (s @ [c]) = letters_val s * 26 + (c - 64)"
  by (simp add: letters_val_def)

lemma is_name_letters: "is_name (letters m)"
proof (induction m rule: letters.induct)
  case (1 m)
  then show ?case
    by (simp add: letters.simps [of m] is_name_def less_Suc_eq_le [symmetric])
qed

lemma letters_val_letters [codec]: "letters_val (letters m) = m"
proof (induction m rule: letters.induct)
  case (1 m)
  have "(m - 1) div 26 * 26 + (m - 1) mod 26 = m - 1" by simp
  with 1 show ?case by (simp add: letters.simps [of m])
qed

lemma letters_letters_val [codec]: "is_name s \<Longrightarrow> letters (letters_val s) = s"
proof (induction s rule: rev_induct)
  case (snoc c s)
  then have "65 \<le> c" "c \<le> 90" and s: "letters (letters_val s) = s"
    by (simp_all add: is_name_def)
  then have "c = 65 + (c - 65)" and "c - 65 < 26" by simp_all
  then obtain d where d: "c = 65 + d" "d < 26" by blast
  then have "letters (letters_val (s @ [c])) = letters (Suc (letters_val s * 26 + d))" by simp
  also have "\<dots> = s @ [c]" using d s by (subst letters.simps) simp
  finally show ?case .
qed simp

text \<open>The printer computes \<open>letters\<close>.\<close>

lemma alphabet_nth: "d < 26 \<Longrightarrow> lit ''ABCDEFGHIJKLMNOPQRSTUVWXYZ'' ! d = 65 + d"
  by (simp add: lit_def less_Suc_eq numeral_eq_Suc) (elim disjE; simp)

lemma rune_symbols_letters: "rune_symbols n s = s @ rev (letters (unat n))"
proof (induction n s rule: rune_symbols.induct)
  case (1 n s)
  show ?case
  proof (cases "n > 0")
    case True
    then have u: "unat (n - 1) = unat n - 1" and p: "0 < unat n"
      by (simp_all add: unat_minus_one unat_gt_0 word_gt_0)
    have "unat ((n - 1) mod 26) < 26" using u by (simp add: unat_mod)
    then show ?thesis using 1 True p
      by (simp add: rune_symbols.simps [of n s] letters.simps [of "unat n"] alphabet_nth
          unat_div unat_mod u)
  qed (simp add: rune_symbols.simps [of 0 s] word_gt_0)
qed

lemma max_name_val:
  "letters_val (lit ''BCGDENLQRQWDSLRUGSNLBTMFIJAV'') = 2 ^ 128"
  by (simp add: lit_def letters_val_def)

lemma rune_to_string_letters: "rune_to_string r = letters (unat (rune_n r) + 1)"
proof (cases "rune_n r = - 1")
  case True
  have "is_name (lit ''BCGDENLQRQWDSLRUGSNLBTMFIJAV'')" by (simp add: is_name_def lit_def)
  from letters_letters_val [OF this] max_name_val True show ?thesis
    by (simp add: rune_to_string_def unat_max)
next
  case False
  then have "1 + rune_n r \<noteq> 0"
    by (metis add.commute eq_neg_iff_add_eq_0)
  from unatSuc [OF this] have "unat (rune_n r + 1) = unat (rune_n r) + 1"
    by (simp add: add.commute)
  with False show ?thesis by (simp add: rune_to_string_def rune_symbols_letters)
qed

text \<open>The parser computes \<open>letters_val\<close>, or fails where a value leaves the range.\<close>

lemma rune_parse_step:
  assumes "65 \<le> c" "c \<le> 90"
  shows "rune_parse i x (c # cs) =
     (let y = (if i > 0 then unat x + 1 else unat x) * 26 + (c - 65) in
      if y < 2 ^ 128 then rune_parse (i + 1) (of_nat y) cs else Inl RuneRange)"
proof -
  have d: "unat (of_nat (c - 65) :: u128) = c - 65"
    using assms by (intro unat_of_nat_small) simp
  show ?thesis
    using assms
    by (auto simp: checked_add_nat checked_mul_nat ok_or_def d Let_def unat_of_nat_small
        simp del: of_nat_add of_nat_mult of_nat_diff of_nat_Suc)
qed

lemma rune_parse_is_name: "rune_parse i x s = Inr y \<Longrightarrow> is_name s"
  by (induction i x s rule: rune_parse.induct)
    (auto simp: is_name_def split: sum.splits if_splits)

lemma foldl_letters_ge: "y \<le> foldl (\<lambda>y c. y * 26 + (c - 64)) y s" for y :: nat
proof (induction s arbitrary: y)
  case (Cons c s)
  have "y \<le> y * 26 + (c - 64)" by simp
  also have "\<dots> \<le> foldl (\<lambda>y c. y * 26 + (c - 64)) (y * 26 + (c - 64)) s" by (rule Cons.IH)
  finally show ?case by simp
qed simp

lemma rune_parse_foldl:
  assumes "is_name s" "0 < i" "0 < y" "y \<le> 2 ^ 128"
  shows "rune_parse i (of_nat (y - 1)) s =
    (let z = foldl (\<lambda>y c. y * 26 + (c - 64)) y s in
     if z \<le> 2 ^ 128 then Inr (of_nat (z - 1)) else Inl RuneRange)"
  using assms
proof (induction s arbitrary: i y)
  case (Cons c s)
  let ?z = "y * 26 + (c - 64)"
  from Cons.prems have c: "65 \<le> c" "c \<le> 90" and s: "is_name s" by (simp_all add: is_name_def)
  from Cons.prems have "unat (of_nat (y - 1) :: u128) = y - 1" by (intro unat_of_nat_small) simp
  with Cons.prems c
  have step: "rune_parse i (of_nat (y - 1)) (c # s) =
      (if ?z \<le> 2 ^ 128 then rune_parse (i + 1) (of_nat (?z - 1)) s else Inl RuneRange)"
    by (auto simp: rune_parse_step Let_def simp del: of_nat_diff rune_parse.simps)
  have "?z \<le> foldl (\<lambda>y c. y * 26 + (c - 64)) ?z s" by (rule foldl_letters_ge)
  with step Cons.IH [of "i + 1" ?z] s Cons.prems c show ?case
    by (auto simp: Let_def simp del: of_nat_diff rune_parse.simps)
qed (simp add: Let_def)

lemma rune_from_str_letters_val:
  assumes "is_name s" "s \<noteq> []"
  shows "rune_from_str s =
    (if letters_val s \<le> 2 ^ 128 then Inr (Rune (of_nat (letters_val s - 1))) else Inl RuneRange)"
proof -
  from assms(2) obtain c cs where s: "s = c # cs" by (cases s) auto
  with assms(1) have c: "65 \<le> c" "c \<le> 90" and cs: "is_name cs" by (simp_all add: is_name_def)
  then have "c - 65 = (c - 64) - 1" "0 < c - 64" by simp_all
  with c have "rune_parse 0 0 (c # cs) = rune_parse 1 (of_nat ((c - 64) - 1)) cs"
    by (auto simp: rune_parse_step Let_def simp del: of_nat_diff rune_parse.simps)
  then show ?thesis
    using rune_parse_foldl [OF cs, of 1 "c - 64"] c
    by (simp add: rune_from_str_def s letters_val_def Let_def del: of_nat_diff rune_parse.simps)
qed

lemma rune_from_to_string [codec]: "rune_from_str (rune_to_string r) = Inr r"
proof -
  have "unat (rune_n r) < 2 ^ 128" using unsigned_less [of "rune_n r"] by simp
  then show ?thesis
    by (simp add: rune_to_string_letters rune_from_str_letters_val is_name_letters
        letters_val_letters del: power_numeral)
qed

lemma rune_to_from_string:
  assumes "rune_from_str s = Inr r" and "s \<noteq> []"
  shows "rune_to_string r = s"
proof -
  from assms(1) have name: "is_name s"
    by (auto simp: rune_from_str_def map_sum_def split: sum.splits dest: rune_parse_is_name)
  with assms have le: "letters_val s \<le> 2 ^ 128" and r: "r = Rune (of_nat (letters_val s - 1))"
    by (auto simp: rune_from_str_letters_val split: if_splits)
  have "letters_val s \<noteq> 0"
    using letters_letters_val [OF name] assms(2) by (metis letters_0)
  with le have "unat (of_nat (letters_val s - 1) :: u128) + 1 = letters_val s"
    by (subst unat_of_nat_small) simp_all
  then show ?thesis
    using letters_letters_val [OF name] by (simp add: rune_to_string_letters r del: of_nat_diff)
qed

lemma rune_to_string_is_name: "is_name (rune_to_string r)"
  by (simp add: rune_to_string_letters is_name_letters)

lemma rune_to_string_nonempty [simp]: "rune_to_string r \<noteq> []"
  by (simp add: rune_to_string_letters)

lemma rune_to_string_inj: "rune_to_string r = rune_to_string q \<Longrightarrow> r = q"
  by (metis rune_from_to_string sum.inject(2))

section \<open>Reserved names\<close>

lemma reserved_bits:
  "unat (push_bit 32 (ucast (b :: u64)) OR ucast (t :: u32) :: u128) = unat b * 2 ^ 32 + unat t"
proof -
  have "push_bit 32 (ucast b) AND ucast t = (0 :: u128)"
    by (rule bit_eqI) (auto simp: bit_simps dest: bit_imp_le_length)
  then have "push_bit 32 (ucast b) OR ucast t = push_bit 32 (ucast b) + (ucast t :: u128)"
    by (simp add: disjunctive_add_eq_or)
  moreover have b: "unat b < 2 ^ 64" and t: "unat t < 2 ^ 32"
    using unsigned_less [of b] unsigned_less [of t] by simp_all
  moreover have "unat (push_bit 32 (ucast b) :: u128) = unat b * 2 ^ 32"
  proof -
    have "unat b * 2 ^ 32 < 2 ^ 128" using b by simp
    then show ?thesis
      by (simp add: push_bit_eq_mult unat_word_ariths unat_ucast_up)
  qed
  ultimately show ?thesis by (simp add: unat_word_ariths unat_ucast_up)
qed

lemma reserved_value:
  "reserved b t = Some (Rune (RESERVED + (push_bit 32 (ucast b) OR ucast t)))"
proof -
  have "unat b < 2 ^ 64" and "unat t < 2 ^ 32"
    using unsigned_less [of b] unsigned_less [of t] by simp_all
  then show ?thesis
    by (simp add: reserved_def checked_add_def reserved_bits RESERVED_def)
qed

lemma reserved_n:
  "reserved b t = Some r \<Longrightarrow> unat (rune_n r) = unat RESERVED + unat b * 2 ^ 32 + unat t"
  by (auto simp: reserved_def reserved_bits dest: checked_add_Some)

lemma reserved_inj:
  assumes "reserved b t = reserved b' t'"
  shows "b = b' \<and> t = t'"
proof -
  from assms reserved_value obtain r where "reserved b t = Some r" "reserved b' t' = Some r"
    by metis
  then have eq: "unat b * 2 ^ 32 + unat t = unat b' * 2 ^ 32 + unat t'"
    by (auto dest!: reserved_n)
  have "unat t < 2 ^ 32" and "unat t' < 2 ^ 32"
    using unsigned_less [of t] unsigned_less [of t'] by simp_all
  then have "unat b = (unat b * 2 ^ 32 + unat t) div 2 ^ 32"
    and "unat b' = (unat b' * 2 ^ 32 + unat t') div 2 ^ 32" by simp_all
  with eq have "unat b = unat b'" by metis
  with eq have "unat t = unat t'" by simp
  with \<open>unat b = unat b'\<close> show ?thesis by (simp add: word_unat_eq_iff)
qed

section \<open>Commitments\<close>

text \<open>The commitment of a name is its little-endian bytes without the trailing zeros.\<close>

fun le_value :: "u8 list \<Rightarrow> nat" where
  "le_value [] = 0"
| "le_value (x # xs) = unat x + 256 * le_value xs"

lemma le_value_append: "le_value (xs @ ys) = le_value xs + 256 ^ length xs * le_value ys"
  by (induction xs) (simp_all add: algebra_simps)

lemma le_value_bytes:
  "le_value (map (\<lambda>i. ucast (drop_bit (8 * i) n)) [0..<k]) = unat (n :: u128) mod 256 ^ k"
proof (induction k)
  case (Suc k)
  have "unat (drop_bit (8 * k) n) = unat n div 256 ^ k"
    by (simp only: unat_drop_bit_eq drop_bit_eq_div [of _ "unat n"] power_mult) simp
  then have digit: "unat (ucast (drop_bit (8 * k) n) :: u8) = unat n div 256 ^ k mod 256"
    by (simp only: unsigned_ucast_eq unsigned_take_bit_eq take_bit_eq_mod) simp
  have "unat n mod 256 ^ Suc k = unat n mod 256 ^ k + 256 ^ k * (unat n div 256 ^ k mod 256)"
    by (simp add: mod_mult2_eq mult.commute [of 256])
  with Suc digit show ?case by (simp add: le_value_append)
qed simp

lemma le_value_to_le_bytes: "le_value (to_le_bytes n) = unat n"
proof -
  have "unat n < 256 ^ 16" using unsigned_less [of n] by simp
  then show ?thesis unfolding to_le_bytes_def le_value_bytes by simp
qed

lemma commitment_end_le: "commitment_end bytes e \<le> e"
  by (induction e) auto

lemma le_value_commitment_end:
  "e \<le> length bytes \<Longrightarrow> le_value (take (commitment_end bytes e) bytes) = le_value (take e bytes)"
proof (induction e)
  case (Suc e)
  then have "take (Suc e) bytes = take e bytes @ [bytes ! e]"
    by (simp add: take_Suc_conv_app_nth)
  with Suc show ?case by (simp add: le_value_append)
qed simp

lemma le_value_commitment [codec]: "le_value (commitment r) = unat (rune_n r)"
  by (simp add: commitment_def Let_def le_value_commitment_end le_value_to_le_bytes)

lemma commitment_end_last:
  "commitment_end bytes e \<noteq> 0 \<Longrightarrow> bytes ! (commitment_end bytes e - 1) \<noteq> 0"
  by (induction e) (auto split: if_splits)

lemma commitment_last: "commitment r \<noteq> [] \<Longrightarrow> last (commitment r) \<noteq> 0"
proof -
  let ?b = "to_le_bytes (rune_n r)"
  let ?e = "commitment_end ?b (length ?b)"
  assume "commitment r \<noteq> []"
  then have e: "?e \<noteq> 0" by (auto simp: commitment_def Let_def)
  then have "last (take ?e ?b) = ?b ! (?e - 1)"
    using commitment_end_le [of ?b "length ?b"]
    by (subst last_conv_nth) (auto simp: min_absorb2)
  with commitment_end_last [OF e] show ?thesis by (simp add: commitment_def Let_def)
qed

section \<open>The minimum name at a height\<close>

text \<open>
  On natural numbers: the unlock schedule is a decreasing, piecewise linear function of the
  progress through the first halving, one piece per name length.
\<close>

definition step_val :: "nat \<Rightarrow> nat" where
  "step_val i = unat (STEPS ! i)"

definition schedule :: "nat \<Rightarrow> nat" where
  "schedule p =
     (let q = p div 17500; hi = step_val (12 - q); lo = step_val (11 - q)
      in hi - (hi - lo) * (p mod 17500) div 17500)"

lemma less_12_cases: "q < (12::nat) \<Longrightarrow> q = 0 \<or> q = 1 \<or> q = 2 \<or> q = 3 \<or> q = 4 \<or> q = 5 \<or> q = 6 \<or>
    q = 7 \<or> q = 8 \<or> q = 9 \<or> q = 10 \<or> q = 11"
  by arith

lemma step_val_mono: "q < 12 \<Longrightarrow> step_val (11 - q) \<le> step_val (12 - q)"
  by (drule less_12_cases) (elim disjE; simp add: step_val_def STEPS_def)

lemma step_val_bound: "q \<le> 12 \<Longrightarrow> step_val (12 - q) \<le> 99246114928149462"
proof (induction q)
  case (Suc q)
  then show ?case using step_val_mono [of q] by simp
qed (simp add: step_val_def STEPS_def)

lemma linear_div_le:
  fixes a d n :: nat
  assumes "r \<le> d" "0 < d"
  shows "a * r div d \<le> a"
  using assms by (metis div_le_mono mult_le_mono2 nonzero_mult_div_cancel_right not_gr_zero)

lemma le_diff_of_le: "lo \<le> hi \<Longrightarrow> x \<le> hi - lo \<Longrightarrow> lo \<le> hi - x" for x :: nat
  by arith

lemma schedule_lower:
  assumes "p < 210000"
  shows "step_val (11 - p div 17500) \<le> schedule p"
  unfolding schedule_def Let_def
proof (rule le_diff_of_le)
  from assms show "step_val (11 - p div 17500) \<le> step_val (12 - p div 17500)"
    by (intro step_val_mono) simp
  show "(step_val (12 - p div 17500) - step_val (11 - p div 17500)) * (p mod 17500) div 17500
      \<le> step_val (12 - p div 17500) - step_val (11 - p div 17500)"
    by (rule linear_div_le) simp_all
qed

lemma schedule_upper: "schedule p \<le> step_val (12 - p div 17500)"
  by (simp add: schedule_def Let_def)

lemma step_val_antimono:
  assumes "i \<le> j" "j \<le> 12"
  shows "step_val (12 - j) \<le> step_val (12 - i)"
  using assms
proof (induction j)
  case (Suc j)
  show ?case
  proof (cases "i = Suc j")
    case False
    with Suc have "step_val (12 - j) \<le> step_val (12 - i)" by simp
    moreover have "step_val (12 - Suc j) \<le> step_val (12 - j)"
      using step_val_mono [of j] Suc.prems by simp
    ultimately show ?thesis by simp
  qed simp
qed simp

lemma schedule_antimono:
  assumes "p \<le> p'" "p' < 210000"
  shows "schedule p' \<le> schedule p"
proof (cases "p div 17500 = p' div 17500")
  case True
  then have "p mod 17500 \<le> p' mod 17500"
    using assms(1) by (metis add_le_cancel_left div_mult_mod_eq)
  then show ?thesis
    unfolding schedule_def Let_def True
    by (intro diff_le_mono2 div_le_mono mult_le_mono2)
next
  case False
  then have less: "p div 17500 < p' div 17500"
    using div_le_mono [OF assms(1), of 17500] by simp
  have "schedule p' \<le> step_val (12 - p' div 17500)" by (rule schedule_upper)
  also have "\<dots> \<le> step_val (12 - Suc (p div 17500))"
    using less assms(2) by (intro step_val_antimono) simp_all
  also have "\<dots> = step_val (11 - p div 17500)" by simp
  also have "\<dots> \<le> schedule p" using assms by (intro schedule_lower) simp
  finally show ?thesis .
qed

text \<open>The code computes the schedule on machine words, without overflow and within the table.\<close>

definition start_height :: "network \<Rightarrow> nat" where
  "start_height n = unat (first_rune_height n)"

definition unlock :: "nat \<Rightarrow> nat \<Rightarrow> nat" where
  "unlock start offset =
     (if offset < start then step_val 12
      else if start + 210000 \<le> offset then 0
      else schedule (offset - start))"

definition minimum_value :: "network \<Rightarrow> nat \<Rightarrow> nat" where
  "minimum_value chain h = unlock (start_height chain) (min (h + 1) (2 ^ 32 - 1))"

lemma first_rune_height_le: "start_height n \<le> 2520000"
  by (cases n) (simp_all add: start_height_def first_rune_height_def SUBSIDY_HALVING_INTERVAL_def)

lemma unat_saturating_add:
  "unat (saturating_add a b) = min (unat a + unat b) (2 ^ LENGTH('a) - 1)" for a :: "'a::len word"
proof (cases "unat a + unat b < 2 ^ LENGTH('a)")
  case True
  then show ?thesis by (simp add: saturating_add_def unat_add_fits)
next
  case False
  then show ?thesis by (simp add: saturating_add_def unat_max)
qed

lemma unat_saturating_sub: "unat (saturating_sub a b) = unat a - unat b"
  by (simp add: saturating_sub_def unat_diff_le word_le_unat)

lemma schedule_word:
  fixes hi lo r :: u128
  assumes "lo \<le> hi" "unat hi \<le> 99246114928149462" "unat r < 17500"
  shows "unat (hi - (hi - lo) * r div 17500) = unat hi - (unat hi - unat lo) * unat r div 17500"
proof -
  have d: "unat (hi - lo) = unat hi - unat lo" by (rule unat_diff_le [OF assms(1)])
  have "(unat hi - unat lo) * unat r \<le> 99246114928149462 * 17500"
    using assms by (intro mult_le_mono) simp_all
  then have m: "unat ((hi - lo) * r) = (unat hi - unat lo) * unat r"
    by (simp add: unat_word_ariths d)
  have q: "unat ((hi - lo) * r div 17500) = (unat hi - unat lo) * unat r div 17500"
    by (simp add: unat_div m)
  have "(unat hi - unat lo) * unat r div 17500 \<le> unat hi - unat lo"
    using assms(3) by (intro linear_div_le) simp_all
  then have "(hi - lo) * r div 17500 \<le> hi" by (simp add: word_le_unat q)
  then show ?thesis by (simp add: unat_diff_le q)
qed

lemma vec_get_STEPS: "i < 28 \<Longrightarrow> vec_get STEPS i = Some (STEPS ! i)"
proof -
  have "length STEPS = 28" by (simp add: STEPS_def)
  then show "i < 28 \<Longrightarrow> vec_get STEPS i = Some (STEPS ! i)" by (simp add: vec_get_def)
qed

lemma minimum_at_height_value:
  "minimum_at_height chain h = Some (Rune (of_nat (minimum_value chain (unat h))))"
proof -
  let ?s = "first_rune_height chain"
  let ?o = "saturating_add h 1"
  have o: "unat ?o = min (unat h + 1) (2 ^ 32 - 1)" by (simp add: unat_saturating_add)
  have e: "unat (?s + SUBSIDY_HALVING_INTERVAL) = start_height chain + 210000"
    using first_rune_height_le [of chain]
    by (simp add: SUBSIDY_HALVING_INTERVAL_def start_height_def unat_word_ariths)
  have I: "SUBSIDY_HALVING_INTERVAL div 12 = 17500"
    by (simp add: SUBSIDY_HALVING_INTERVAL_def)
  consider "?o < ?s" | "\<not> ?o < ?s" "?o \<ge> ?s + SUBSIDY_HALVING_INTERVAL"
    | "\<not> ?o < ?s" "\<not> ?o \<ge> ?s + SUBSIDY_HALVING_INTERVAL" by blast
  then show ?thesis
  proof cases
    case 1
    then have "unat ?o < start_height chain" by (simp add: start_height_def word_less_nat_alt)
    with 1 o show ?thesis
      by (simp add: minimum_at_height_def minimum_value_def unlock_def vec_get_def STEPS_def step_val_def)
  next
    case 2
    then have "\<not> unat ?o < start_height chain" "start_height chain + 210000 \<le> unat ?o"
      using e by (simp_all add: start_height_def word_le_unat word_less_nat_alt)
    with 2 o show ?thesis by (auto simp: minimum_at_height_def minimum_value_def unlock_def Let_def)
  next
    case 3
    define p where "p = saturating_sub ?o ?s"
    have up: "unat p = unat ?o - start_height chain"
      by (simp add: p_def unat_saturating_sub start_height_def)
    from 3 have lo: "\<not> unat ?o < start_height chain" and hi: "unat ?o < start_height chain + 210000"
      using e by (simp_all add: start_height_def word_le_unat word_less_nat_alt)
    then have "unat p < 210000" using up by simp
    then have q: "unat p div 17500 < 12" by simp
    have ud: "unat (p div 17500) = unat p div 17500" by (simp add: unat_div)
    have len: "unat (saturating_sub 12 (p div 17500)) = 12 - unat p div 17500"
      by (simp add: unat_saturating_sub ud)
    have len1: "unat (saturating_sub 12 (p div 17500) - 1) = 11 - unat p div 17500"
      using q len by (subst unat_diff_le) (simp_all add: word_le_unat)
    have rem: "unat (ucast (p mod 17500) :: u128) = unat p mod 17500"
      by (simp add: unat_ucast_up unat_mod)
    have le: "STEPS ! (11 - unat p div 17500) \<le> STEPS ! (12 - unat p div 17500)"
      using step_val_mono [OF q] by (simp add: step_val_def word_le_unat)
    have bound: "unat (STEPS ! (12 - unat p div 17500)) \<le> 99246114928149462"
      using step_val_bound [of "unat p div 17500"] q by (simp add: step_val_def)
    have "minimum_at_height chain h =
        Some (Rune (STEPS ! (12 - unat p div 17500) -
          (STEPS ! (12 - unat p div 17500) - STEPS ! (11 - unat p div 17500)) *
            ucast (p mod 17500) div 17500))"
      using 3 q
      by (simp add: minimum_at_height_def Let_def I p_def [symmetric] len len1
          vec_get_STEPS)
    also have "\<dots> = Some (Rune (of_nat (schedule (unat p))))"
      using schedule_word [OF le bound, of "ucast (p mod 17500)"] rem
      by (simp add: schedule_def step_val_def Let_def word_of_unat)
    finally show ?thesis using lo hi o up by (auto simp: minimum_value_def unlock_def Let_def)
  qed
qed

lemma schedule_top: "p < 210000 \<Longrightarrow> schedule p \<le> step_val 12"
  using schedule_antimono [of 0 p] schedule_upper [of 0] by simp

lemma unlock_antimono:
  assumes "a \<le> b"
  shows "unlock s b \<le> unlock s a"
proof -
  consider "b < s" | "s + 210000 \<le> b" | "s \<le> b" "b < s + 210000" "a < s"
    | "s \<le> a" "b < s + 210000" by linarith
  then show ?thesis
  proof cases
    case 1
    with assms show ?thesis by (simp add: unlock_def)
  next
    case 2
    then show ?thesis by (simp add: unlock_def)
  next
    case 3
    then show ?thesis using schedule_top [of "b - s"] by (simp add: unlock_def)
  next
    case 4
    then have "schedule (b - s) \<le> schedule (a - s)"
      using assms by (intro schedule_antimono) simp_all
    with 4 assms show ?thesis by (simp add: unlock_def)
  qed
qed

lemma minimum_value_antimono: "h \<le> h' \<Longrightarrow> minimum_value chain h' \<le> minimum_value chain h"
  unfolding minimum_value_def by (rule unlock_antimono) simp

lemma unlock_bound: "unlock s a \<le> step_val 12"
  using schedule_top [of "a - s"] by (simp add: unlock_def)

lemma minimum_value_bound: "minimum_value chain h \<le> 99246114928149462"
  unfolding minimum_value_def by (rule le_trans [OF unlock_bound]) (use step_val_bound [of 0] in simp)

lemma minimum_at_height_n:
  "minimum_at_height chain h = Some r \<Longrightarrow> unat (rune_n r) = minimum_value chain (unat h)"
proof -
  assume "minimum_at_height chain h = Some r"
  then have "r = Rune (of_nat (minimum_value chain (unat h)))"
    by (simp add: minimum_at_height_value)
  moreover have "minimum_value chain (unat h) < 2 ^ 128"
    using minimum_value_bound [of chain "unat h"] by simp
  ultimately show ?thesis by (simp add: unat_of_nat_small)
qed

section \<open>Properties\<close>

text \<open>
  C33. The printed name of a rune parses back to it, the special case of the largest rune
  included, and a text that parses to a rune is the name it prints, unless it is empty.
\<close>

theorem rune_print_parse:
  "rune_from_str (rune_to_string r) = Inr r \<and>
   (rune_from_str s = Inr q \<longrightarrow> s \<noteq> [] \<longrightarrow> rune_to_string q = s)"
  using rune_from_to_string rune_to_from_string by blast

lemma rune_print_parse_witness: "rune_to_string (Rune 27) = lit ''AB''"
  using rune_print_parse [of "Rune 27" "lit ''AB''" "Rune 27"]
  by (simp add: lit_def rune_from_str_def ok_or_def checked_add_def checked_mul_def)

text \<open>
  C35. The minimum name at a height is defined at every height (no step of the table is read
  out of range), and it never grows with the height: the schedule only unlocks names.
\<close>

theorem minimum_at_height_unlocks:
  assumes "h \<le> h'"
  shows "\<exists>r r'. minimum_at_height chain h = Some r \<and> minimum_at_height chain h' = Some r' \<and>
    rune_n r' \<le> rune_n r"
proof -
  obtain r r' where r: "minimum_at_height chain h = Some r" "minimum_at_height chain h' = Some r'"
    by (simp add: minimum_at_height_value)
  then have "rune_n r' \<le> rune_n r"
    using minimum_value_antimono [of "unat h" "unat h'" chain] assms
    by (simp add: word_le_unat minimum_at_height_n)
  with r show ?thesis by blast
qed

lemma minimum_at_height_unlocks_witness:
  "\<exists>r r'. minimum_at_height Bitcoin 839999 = Some r \<and> minimum_at_height Bitcoin 1049999 = Some r' \<and>
    rune_n r' \<le> rune_n r"
  by (rule minimum_at_height_unlocks) simp

text \<open>
  The reserved name of a block and transaction index always exists (the addition never
  overflows), lies in the reserved range, and determines both numbers.
\<close>

lemma reserved_names:
  "(\<exists>r. reserved b t = Some r \<and> is_reserved r) \<and>
   (reserved b t = reserved b' t' \<longleftrightarrow> b = b' \<and> t = t')"
proof -
  obtain r where r: "reserved b t = Some r" using reserved_value by blast
  have "is_reserved r"
    using reserved_n [OF r] by (simp add: is_reserved_def word_le_unat)
  with r show ?thesis using reserved_inj by blast
qed

text \<open>
  The commitment of a rune is the shortest little-endian form of its number: its bytes
  have that value and the last one is not zero.
\<close>

lemma commitment_minimal:
  "le_value (commitment r) = unat (rune_n r) \<and>
   \<not> (commitment r \<noteq> [] \<and> last (commitment r) = 0)"
  using le_value_commitment commitment_last by blast

end
