(* ===== verification/Spaced_Rune.thy ===== *)
theory Spaced_Rune
  imports Rune_Name
begin

unbundle bit_operations_syntax

text \<open>
  A rune name with spacers, \<open>SpacedRune\<close> of \<^verbatim>\<open>crates/ordinals/src/spaced_rune.rs\<close>: bit \<open>i\<close> of
  \<open>spacers\<close> puts a bullet after the letter \<open>i\<close>. The main facts: parsing what was printed gives
  the name back and the spacers that lie inside it, and printing what was parsed gives the
  text back with every dot turned into a bullet.

  A shift by a length of 32 or more takes the amount modulo 32, as the release build does.
\<close>

section \<open>Spaced names\<close>

record spaced_rune =
  sr_rune :: rune
  sr_spacers :: u32

definition spaced_rune_new :: "rune \<Rightarrow> u32 \<Rightarrow> spaced_rune" where
  "spaced_rune_new r s = \<lparr>sr_rune = r, sr_spacers = s\<rparr>"

datatype spaced_rune_error =
    LeadingSpacer
  | TrailingSpacer
  | DoubleSpacer
  | SpacedCharacter uchar
  | SpacedRuneError rune_error

text \<open>\<open>'.'\<close> is 46 and the bullet U+2022 is 8226.\<close>

definition BULLET :: uchar where
  "BULLET = 8226"

fun spaced_loop :: "ustr \<Rightarrow> u32 \<Rightarrow> ustr \<Rightarrow> spaced_rune_error + (ustr \<times> u32)" where
  "spaced_loop rune spacers [] = Inr (rune, spacers)"
| "spaced_loop rune spacers (c # cs) =
     (if 65 \<le> c \<and> c \<le> 90 then spaced_loop (rune @ [c]) spacers cs
      else if c = 46 \<or> c = BULLET then
        (if length rune = 0 then Inl LeadingSpacer
         else let flag = push_bit ((length rune - 1) mod 32) 1 in
           if spacers AND flag \<noteq> 0 then Inl DoubleSpacer
           else spaced_loop rune (spacers OR flag) cs)
      else Inl (SpacedCharacter c))"

fun bit_len :: "nat \<Rightarrow> nat" where
  "bit_len n = (if n = 0 then 0 else Suc (bit_len (n div 2)))"

declare bit_len.simps [simp del]

definition leading_zeros :: "u32 \<Rightarrow> nat" where
  "leading_zeros w = 32 - bit_len (unat w)"

text \<open>
  \<open>None\<close> is the panic of \<open>rune.len().try_into().unwrap()\<close> on a string of \<open>2 ^ 32\<close> letters.
\<close>

definition spaced_rune_from_str :: "ustr \<Rightarrow> (spaced_rune_error + spaced_rune) option" where
  "spaced_rune_from_str s =
     (case spaced_loop [] 0 s of
        Inl e \<Rightarrow> Some (Inl e)
      | Inr (rune, spacers) \<Rightarrow>
          if length rune \<ge> 2 ^ 32 then None
          else if 32 - leading_zeros spacers \<ge> length rune then Some (Inl TrailingSpacer)
          else
            (case rune_from_str rune of
               Inl e \<Rightarrow> Some (Inl (SpacedRuneError e))
             | Inr r \<Rightarrow> Some (Inr \<lparr>sr_rune = r, sr_spacers = spacers\<rparr>)))"

fun spaced_fmt :: "nat \<Rightarrow> nat \<Rightarrow> u32 \<Rightarrow> ustr \<Rightarrow> ustr" where
  "spaced_fmt i n spacers [] = []"
| "spaced_fmt i n spacers (c # cs) =
     c # (if i < n - 1 \<and> spacers AND push_bit (i mod 32) 1 \<noteq> 0 then [BULLET] else [])
       @ spaced_fmt (i + 1) n spacers cs"

definition spaced_rune_to_string :: "spaced_rune \<Rightarrow> ustr" where
  "spaced_rune_to_string sr =
     (let rune = rune_to_string (sr_rune sr)
      in spaced_fmt 0 (length rune) (sr_spacers sr) rune)"

definition spaced_rune_error_fmt :: "spaced_rune_error \<Rightarrow> ustr" where
  "spaced_rune_error_fmt e =
     (case e of
        SpacedCharacter c \<Rightarrow> lit ''invalid character `'' @ [c] @ lit ''`''
      | DoubleSpacer \<Rightarrow> lit ''double spacer''
      | LeadingSpacer \<Rightarrow> lit ''leading spacer''
      | TrailingSpacer \<Rightarrow> lit ''trailing spacer''
      | SpacedRuneError err \<Rightarrow> rune_error_fmt err)"

section \<open>Lengths and bits\<close>

lemma letters_val_ge: "is_name s \<Longrightarrow> s \<noteq> [] \<Longrightarrow> 26 ^ (length s - 1) \<le> letters_val s"
proof (induction s rule: rev_induct)
  case (snoc c s)
  then have c: "65 \<le> c" and s: "is_name s" by (simp_all add: is_name_def)
  show ?case
  proof (cases "s = []")
    case True
    with c show ?thesis by (simp add: letters_val_snoc [of "[]", simplified])
  next
    case False
    with snoc.IH s have "26 ^ (length s - 1) * 26 \<le> letters_val s * 26" by simp
    moreover have "26 ^ (length s - 1) * 26 = (26::nat) ^ length s"
      using False by (metis One_nat_def Suc_pred length_greater_0_conv mult.commute power_Suc)
    ultimately show ?thesis by simp
  qed
qed simp

lemma name_length:
  assumes "is_name s" and "letters_val s \<le> 2 ^ 128"
  shows "length s \<le> 28"
proof (rule ccontr)
  assume "\<not> length s \<le> 28"
  then have "28 \<le> length s - 1" and "s \<noteq> []" by auto
  then have "(26::nat) ^ 28 \<le> 26 ^ (length s - 1)" by (intro power_increasing) simp_all
  also have "\<dots> \<le> 2 ^ 128" using letters_val_ge [OF assms(1) \<open>s \<noteq> []\<close>] assms(2) by simp
  finally show False by simp
qed

lemma rune_to_string_length: "length (rune_to_string r) \<le> 28"
proof -
  have "unat (rune_n r) < 2 ^ 128" using unsigned_less [of "rune_n r"] by simp
  then show ?thesis
    by (intro name_length rune_to_string_is_name)
      (simp add: rune_to_string_letters letters_val_letters)
qed

lemma rune_from_str_length: "rune_from_str s = Inr r \<Longrightarrow> length s \<le> 28"
  using rune_to_from_string [of s r] rune_to_string_length [of r] by (cases "s = []") auto

lemma bit_len_le: "n < 2 ^ k \<Longrightarrow> bit_len n \<le> k"
proof (induction k arbitrary: n)
  case (Suc k)
  then have "n div 2 < 2 ^ k" by simp
  with Suc.IH show ?case by (simp add: bit_len.simps [of n])
qed (simp add: bit_len.simps)

lemma bit_len_less: "bit_len n \<le> k \<Longrightarrow> n < 2 ^ k"
proof (induction k arbitrary: n)
  case 0
  then show ?case by (simp add: bit_len.simps [of n] split: if_splits)
next
  case (Suc k)
  then have "bit_len (n div 2) \<le> k"
    by (cases "n = 0") (simp_all add: bit_len.simps [of 0] bit_len.simps [of n])
  then have "n div 2 < 2 ^ k" by (rule Suc.IH)
  then show ?case by simp
qed

lemma used_bits: "32 - leading_zeros w = bit_len (unat w)"
proof -
  have "unat w < 2 ^ 32" using unsigned_less [of w] by simp
  then show ?thesis using bit_len_le [of "unat w" 32] by (simp add: leading_zeros_def)
qed

lemma flag_test: "i < 32 \<Longrightarrow> (s :: u32) AND 2 ^ i = 0 \<longleftrightarrow> \<not> bit s i"
  by (simp add: bit_iff_and_push_bit_not_eq_0)

section \<open>Round trips\<close>

lemma spaced_loop_fmt:
  assumes "is_name cs" "n = length pre + length cs" "n \<le> 32"
  shows "spaced_loop pre (take_bit (length pre) (take_bit (n - 1) s)) (spaced_fmt (length pre) n s cs)
    = Inr (pre @ cs, take_bit n (take_bit (n - 1) s))"
  using assms
proof (induction cs arbitrary: pre)
  case (Cons c cs)
  let ?i = "length pre" and ?t = "take_bit (n - 1) s"
  from Cons.prems have c: "65 \<le> c" "c \<le> 90" and cs: "is_name cs" and i: "?i < 32"
    and n: "n = length (pre @ [c]) + length cs" by (simp_all add: is_name_def)
  note IH = Cons.IH [OF cs n Cons.prems(3)]
  show ?case
  proof (cases "?i < n - 1 \<and> bit s ?i")
    case True
    have "take_bit ?i ?t AND 2 ^ ?i = 0"
      using i by (simp add: flag_test bit_take_bit_iff)
    moreover have "take_bit ?i ?t OR 2 ^ ?i = take_bit (Suc ?i) ?t"
      using True i by (intro bit_eqI) (auto simp: bit_simps less_Suc_eq)
    ultimately show ?thesis
      using True c i IH by (simp add: flag_test BULLET_def Let_def)
  next
    case False
    then have "take_bit (Suc ?i) ?t = take_bit ?i ?t"
      by (intro bit_eqI) (auto simp: bit_simps less_Suc_eq)
    then show ?thesis
      using False c i IH by (auto simp: flag_test)
  qed
qed simp

lemma spaced_from_to_string [codec]:
  "spaced_rune_from_str (spaced_rune_to_string sr) =
     Some (Inr (sr\<lparr>sr_spacers := take_bit (length (rune_to_string (sr_rune sr)) - 1) (sr_spacers sr)\<rparr>))"
proof -
  let ?s = "rune_to_string (sr_rune sr)"
  let ?t = "take_bit (length ?s - 1) (sr_spacers sr)"
  have len: "length ?s \<le> 28" by (rule rune_to_string_length)
  have pos: "0 < length ?s" by simp
  have "take_bit (length ?s) ?t = ?t" by (simp add: min_absorb1)
  then have loop: "spaced_loop [] 0 (spaced_rune_to_string sr) = Inr (?s, ?t)"
    using spaced_loop_fmt [of ?s "length ?s" "[]" "sr_spacers sr"] len rune_to_string_is_name
    by (simp add: spaced_rune_to_string_def Let_def)
  have "unat ?t < 2 ^ (length ?s - 1)"
    by (simp add: unsigned_take_bit_eq)
  then have "bit_len (unat ?t) \<le> length ?s - 1" by (rule bit_len_le)
  then have "\<not> length ?s \<le> 32 - leading_zeros ?t"
    using pos unfolding used_bits by linarith
  then show ?thesis
    using len by (simp add: spaced_rune_from_str_def loop rune_from_to_string)
qed

text \<open>The text a parse stands for: the letters with a bullet after each marked one.\<close>

fun spaced_text :: "nat \<Rightarrow> u32 \<Rightarrow> ustr \<Rightarrow> ustr" where
  "spaced_text i s [] = []"
| "spaced_text i s (c # cs) = c # (if bit s i then [BULLET] else []) @ spaced_text (Suc i) s cs"

definition normal_text :: "ustr \<Rightarrow> ustr" where
  "normal_text s = map (\<lambda>c. if c = 46 then BULLET else c) s"

lemma spaced_text_append:
  "spaced_text i s (xs @ ys) = spaced_text i s xs @ spaced_text (i + length xs) s ys"
  by (induction xs arbitrary: i) simp_all

lemma spaced_text_cong:
  "(\<And>j. i \<le> j \<Longrightarrow> j < i + length xs \<Longrightarrow> bit s j = bit t j) \<Longrightarrow> spaced_text i s xs = spaced_text i t xs"
  by (induction xs arbitrary: i) auto

lemma spaced_loop_length:
  "spaced_loop pre acc cs = Inr (name, sp) \<Longrightarrow> length pre \<le> length name"
  by (induction pre acc cs rule: spaced_loop.induct) (auto simp: Let_def split: if_splits)

lemma spaced_loop_text:
  assumes "spaced_loop pre acc cs = Inr (name, sp)" "length name \<le> 32"
    and "\<And>j. bit acc j \<Longrightarrow> j < length pre"
  shows "spaced_text 0 sp name = spaced_text 0 acc pre @ normal_text cs"
  using assms
proof (induction pre acc cs rule: spaced_loop.induct)
  case (2 pre acc c cs)
  show ?case
  proof (cases "65 \<le> c \<and> c \<le> 90")
    case True
    have "\<not> bit acc (length pre)" using "2.prems"(3) by blast
    then have "spaced_text 0 acc (pre @ [c]) = spaced_text 0 acc pre @ [c]"
      by (simp add: spaced_text_append)
    moreover have "spaced_text 0 sp name = spaced_text 0 acc (pre @ [c]) @ normal_text cs"
      using True "2.prems" by (intro "2.IH"(1)) (auto simp: less_Suc_eq)
    ultimately show ?thesis using True by (simp add: normal_text_def)
  next
    case False
    let ?k = "length pre - 1"
    from False "2.prems"(1) have c: "c = 46 \<or> c = BULLET" and pre: "pre \<noteq> []"
      by (auto split: if_splits)
    have k: "?k < 32" "?k mod 32 = ?k"
      using spaced_loop_length [OF "2.prems"(1)] "2.prems"(2) pre
      by (auto simp: Suc_le_eq)
    from False c pre k "2.prems"(1) have nb: "\<not> bit acc ?k"
      and loop: "spaced_loop pre (acc OR 2 ^ ?k) cs = Inr (name, sp)"
      by (auto simp: Let_def flag_test split: if_splits)
    obtain p l where pl: "pre = p @ [l]" using pre by (metis rev_exhaust)
    have "spaced_text 0 (acc OR 2 ^ ?k) p = spaced_text 0 acc p"
      using pl by (intro spaced_text_cong) (auto simp: bit_simps)
    then have "spaced_text 0 (acc OR 2 ^ ?k) pre = spaced_text 0 acc pre @ [BULLET]"
      using pl nb k by (simp add: spaced_text_append bit_simps)
    moreover have "spaced_text 0 sp name = spaced_text 0 (acc OR 2 ^ ?k) pre @ normal_text cs"
    proof (rule "2.IH"(2))
      show "\<not> (65 \<le> c \<and> c \<le> 90)" by (rule False)
      show "c = 46 \<or> c = BULLET" by (rule c)
      show "length pre \<noteq> 0" using pre by simp
      show "2 ^ ?k = push_bit (?k mod 32) 1" using k(2) by simp
      show "\<not> acc AND 2 ^ ?k \<noteq> 0" using nb flag_test [OF k(1)] by blast
      show "spaced_loop pre (acc OR 2 ^ ?k) cs = Inr (name, sp)" by (rule loop)
      show "length name \<le> 32" by (rule "2.prems"(2))
      fix j assume "bit (acc OR 2 ^ ?k) j"
      then show "j < length pre" using "2.prems"(3) pre by (auto simp: bit_simps)
    qed
    ultimately show ?thesis using c by (auto simp: normal_text_def)
  qed
qed (simp add: normal_text_def)

lemma spaced_fmt_text:
  assumes "i + length cs = n" "n \<le> 32" "\<not> bit s (n - 1)"
  shows "spaced_fmt i n s cs = spaced_text i s cs"
  using assms
proof (induction cs arbitrary: i)
  case (Cons c cs)
  have "i < n - 1 \<and> bit s i \<longleftrightarrow> bit s i"
    using Cons.prems by (metis One_nat_def add_Suc_right add_diff_cancel_right' diff_Suc_1
        le_add1 le_neq_implies_less length_Cons plus_1_eq_Suc)
  with Cons show ?case by (auto simp: flag_test)
qed simp

lemma spaced_to_from_string:
  assumes "spaced_rune_from_str s = Some (Inr sr)"
  shows "spaced_rune_to_string sr = normal_text s"
proof -
  from assms obtain name sp r where loop: "spaced_loop [] 0 s = Inr (name, sp)"
    and used: "\<not> length name \<le> bit_len (unat sp)" and r: "rune_from_str name = Inr r"
    and sr: "sr = \<lparr>sr_rune = r, sr_spacers = sp\<rparr>"
    unfolding spaced_rune_from_str_def used_bits
    by (auto split: sum.splits prod.splits if_splits)
  have len: "length name \<le> 28" by (rule rune_from_str_length [OF r])
  from used have "name \<noteq> []" by auto
  with r have name: "rune_to_string r = name" by (rule rune_to_from_string)
  have "unat sp < 2 ^ (length name - 1)" using used by (intro bit_len_less) simp
  then have nb: "\<not> bit sp (length name - 1)"
    by (metis bit_take_bit_iff less_irrefl take_bit_nat_eq_self_iff unsigned_take_bit_eq word_unat_eq_iff)
  have "spaced_text 0 sp name = normal_text s"
    using spaced_loop_text [OF loop] len by simp
  then show ?thesis
    using spaced_fmt_text [of 0 name "length name" sp] nb len
    by (simp add: spaced_rune_to_string_def sr name)
qed

section \<open>Properties\<close>

text \<open>
  C34. The printed form of a spaced rune parses to the same rune, without the spacers after
  its last letter: those are not printed.
\<close>

theorem spaced_rune_print_parse:
  "spaced_rune_from_str (spaced_rune_to_string sr) =
     Some (Inr (sr\<lparr>sr_spacers :=
       take_bit (length (rune_to_string (sr_rune sr)) - 1) (sr_spacers sr)\<rparr>))"
  by (rule spaced_from_to_string)

text \<open>A text that parses to a spaced rune is what it prints, with bullets for dots.\<close>

lemma spaced_rune_parse_print:
  assumes "spaced_rune_from_str s = Some (Inr sr)"
  shows "spaced_rune_to_string sr = normal_text s"
  by (rule spaced_to_from_string [OF assms])

lemma spaced_rune_parse_print_witness:
  "spaced_rune_to_string \<lparr>sr_rune = Rune 27, sr_spacers = 1\<rparr> = [65, BULLET, 66]"
proof -
  have "bit_len 1 = 1" by (simp add: bit_len.simps)
  then have "spaced_rune_from_str [65, 46, 66] = Some (Inr \<lparr>sr_rune = Rune 27, sr_spacers = 1\<rparr>)"
    by (simp add: spaced_rune_from_str_def used_bits rune_from_str_def ok_or_def checked_add_def
        checked_mul_def Let_def)
  from spaced_rune_parse_print [OF this] show ?thesis by (simp add: normal_text_def)
qed

end
