(* ===== verification/Artifact.thy ===== *)
theory Artifact
  imports Rune_Id Spaced_Rune
begin

text \<open>
  The data a runestone carries (\<^verbatim>\<open>crates/ordinals/src/\<close>: \<^verbatim>\<open>edict.rs\<close>, \<^verbatim>\<open>terms.rs\<close>,
  \<^verbatim>\<open>etching.rs\<close>, \<^verbatim>\<open>flaw.rs\<close>, \<^verbatim>\<open>cenotaph.rs\<close>, \<^verbatim>\<open>artifact.rs\<close>), and the parts of a Bitcoin
  transaction the program reads. The type of scripts \<open>'s\<close> is left open: the code never looks
  inside a script, it calls the \<^verbatim>\<open>bitcoin\<close> crate.
\<close>

section \<open>Transactions\<close>

text \<open>A transaction id in its printed form; \<open>Txid\<close> prints injectively.\<close>

type_synonym txid = ustr

record out_point =
  op_txid :: txid
  op_vout :: u32

record 's tx_out =
  out_value :: u64
  out_script :: 's

record 's transaction =
  tx_id :: txid
  tx_input :: "out_point list"
  tx_output :: "'s tx_out list"

section \<open>Edicts\<close>

record edict =
  ed_id :: rune_id
  ed_amount :: u128
  ed_output :: u32

text \<open>
  The outer option is the panic of \<open>u32::try_from(tx.output.len()).unwrap()\<close>, which the code
  reaches only when the output number itself fits.
\<close>

definition edict_from_integers ::
    "'s transaction \<Rightarrow> rune_id \<Rightarrow> u128 \<Rightarrow> u128 \<Rightarrow> edict option option" where
  "edict_from_integers tx i amount out =
     (case try_from out of
        None \<Rightarrow> Some None
      | Some (output :: u32) \<Rightarrow>
          if length (tx_output tx) \<ge> 2 ^ 32 then None
          else if output > of_nat (length (tx_output tx)) then Some None
          else Some (Some \<lparr>ed_id = i, ed_amount = amount, ed_output = output\<rparr>))"

section \<open>Etchings\<close>

record terms =
  tm_amount :: "u128 option"
  tm_cap :: "u128 option"
  tm_height :: "u64 option \<times> u64 option"
  tm_offset :: "u64 option \<times> u64 option"

record etching =
  et_divisibility :: "u8 option"
  et_premine :: "u128 option"
  et_rune :: "rune option"
  et_spacers :: "u32 option"
  et_symbol :: "uchar option"
  et_terms :: "terms option"
  et_turbo :: bool

definition MAX_DIVISIBILITY :: u8 where
  "MAX_DIVISIBILITY = 38"

definition MAX_SPACERS :: u32 where
  "MAX_SPACERS = 0x07FFFFFF"

definition unwrap_or :: "'a \<Rightarrow> 'a option \<Rightarrow> 'a" where
  "unwrap_or d x = (case x of None \<Rightarrow> d | Some a \<Rightarrow> a)"

definition etching_supply :: "etching \<Rightarrow> u128 option" where
  "etching_supply e =
     (let premine = unwrap_or 0 (et_premine e);
          cap = unwrap_or 0 (Option.bind (et_terms e) tm_cap);
          amount = unwrap_or 0 (Option.bind (et_terms e) tm_amount)
      in do { minted \<leftarrow> checked_mul cap amount; checked_add premine minted })"

text \<open>\<open>char::from_u32\<close>: the surrogates and the numbers from \<open>0x110000\<close> on are no characters.\<close>

definition char_from_u32 :: "u32 \<Rightarrow> uchar option" where
  "char_from_u32 w =
     (if w < 0xD800 \<or> 0xE000 \<le> w \<and> w < 0x110000 then Some (unat w) else None)"

section \<open>Flaws, cenotaphs and artifacts\<close>

datatype flaw =
    EdictOutput
  | EdictRuneId
  | InvalidScript
  | Opcode
  | SupplyOverflow
  | TrailingIntegers
  | TruncatedField
  | UnrecognizedEvenTag
  | UnrecognizedFlag
  | FlawVarint

definition flaw_fmt :: "flaw \<Rightarrow> ustr" where
  "flaw_fmt f =
     (case f of
        EdictOutput \<Rightarrow> lit ''edict output greater than transaction output count''
      | EdictRuneId \<Rightarrow> lit ''invalid rune ID in edict''
      | InvalidScript \<Rightarrow> lit ''invalid script in OP_RETURN''
      | Opcode \<Rightarrow> lit ''non-pushdata opcode in OP_RETURN''
      | SupplyOverflow \<Rightarrow> lit ''supply overflows u128''
      | TrailingIntegers \<Rightarrow> lit ''trailing integers in body''
      | TruncatedField \<Rightarrow> lit ''field with missing value''
      | UnrecognizedEvenTag \<Rightarrow> lit ''unrecognized even tag''
      | UnrecognizedFlag \<Rightarrow> lit ''unrecognized field''
      | FlawVarint \<Rightarrow> lit ''invalid varint'')"

record cenotaph =
  cn_etching :: "rune option"
  cn_flaw :: "flaw option"
  cn_mint :: "rune_id option"

record runestone =
  rs_edicts :: "edict list"
  rs_etching :: "etching option"
  rs_mint :: "rune_id option"
  rs_pointer :: "u32 option"

datatype artifact = Cenotaph cenotaph | Runestone runestone

definition artifact_mint :: "artifact \<Rightarrow> rune_id option" where
  "artifact_mint a = (case a of Cenotaph c \<Rightarrow> cn_mint c | Runestone r \<Rightarrow> rs_mint r)"

section \<open>Supply\<close>

text \<open>The supply as a number, with no bound.\<close>

definition supply_nat :: "etching \<Rightarrow> nat" where
  "supply_nat e =
     unat (unwrap_or 0 (et_premine e)) +
     unat (unwrap_or 0 (Option.bind (et_terms e) tm_cap)) *
     unat (unwrap_or 0 (Option.bind (et_terms e) tm_amount))"

lemma unwrap_or_simps [simp]: "unwrap_or d None = d" "unwrap_or d (Some a) = a"
  by (simp_all add: unwrap_or_def)

lemma etching_supply_value:
  "etching_supply e =
     (if supply_nat e < 2 ^ 128 then Some (of_nat (supply_nat e)) else None)"
proof -
  let ?p = "unwrap_or 0 (et_premine e)"
  let ?c = "unwrap_or 0 (Option.bind (et_terms e) tm_cap)"
  let ?a = "unwrap_or 0 (Option.bind (et_terms e) tm_amount)"
  show ?thesis
  proof (cases "unat ?c * unat ?a < 2 ^ 128")
    case True
    then have "unat (?c * ?a) = unat ?c * unat ?a" by (simp add: unat_mult_fits)
    with True show ?thesis
      by (simp add: etching_supply_def supply_nat_def checked_mul_def checked_add_def Let_def)
  next
    case False
    then show ?thesis
      by (simp add: etching_supply_def supply_nat_def checked_mul_def Let_def)
  qed
qed

lemma edict_from_integers_Some:
  assumes "edict_from_integers tx i amount out = Some (Some e)"
  shows "ed_id e = i" "ed_amount e = amount" "unat (ed_output e) = unat out"
    "unat (ed_output e) \<le> length (tx_output tx)"
  using assms
  by (auto simp: edict_from_integers_def word_le_unat not_less unat_of_nat_small
      split: option.splits if_splits dest: try_from_Some)

lemma edict_from_integers_ok:
  assumes "length (tx_output tx) < 2 ^ 32" "unat (ed_output e) \<le> length (tx_output tx)"
  shows "edict_from_integers tx (ed_id e) (ed_amount e) (ucast (ed_output e)) = Some (Some e)"
  using assms by (simp add: edict_from_integers_def word_less_nat_alt unat_of_nat_small)

lemma edict_from_integers_total:
  assumes "length (tx_output tx) < 2 ^ 32"
  shows "edict_from_integers tx i amount out \<noteq> None"
  using assms by (simp add: edict_from_integers_def split: option.splits)

lemma char_from_u32_Some: "char_from_u32 w = Some c \<Longrightarrow> c = unat w"
  by (auto simp: char_from_u32_def split: if_splits)

section \<open>Properties\<close>

text \<open>
  The supply of an etching is \<open>premine + cap * amount\<close> when that is below \<open>2 ^ 128\<close>, and
  no supply otherwise: neither the product nor the sum wraps.
\<close>

lemma etching_supply_exact:
  "map_option unat (etching_supply e) =
     (if supply_nat e < 2 ^ 128 then Some (supply_nat e) else None)"
  by (simp add: etching_supply_value unat_of_nat_small)

end
