(* ===== verification/Ledger_Models.thy ===== *)
theory Ledger_Models
  imports Artifact
begin

text \<open>
  The rows the indexer writes (\<^verbatim>\<open>src/db/models/\<close>), the place of a transaction and the balances
  it spends (\<^verbatim>\<open>src/db/cache/transaction_location.rs\<close>, \<^verbatim>\<open>src/db/cache/input_rune_balance.rs\<close>).
  The wrappers \<open>PgBigIntU32\<close>, \<open>PgNumericU64\<close>, \<open>PgNumericU128\<close> and \<open>PgSmallIntU8\<close> are the
  integers they hold, and their \<open>+=\<close> wraps.

  \<open>None\<close> is the panic of \<open>block_hash[2..]\<close> on a hash of fewer than two characters.
\<close>

section \<open>Locations and balances\<close>

record tx_location =
  tl_network :: network
  tl_block_hash :: ustr
  tl_block_height :: u64
  tl_timestamp :: u32
  tl_tx_index :: u32
  tl_tx_id :: ustr

definition location_rune_id :: "tx_location \<Rightarrow> rune_id" where
  "location_rune_id l = RuneId (tl_block_height l) (tl_tx_index l)"

definition location_fmt :: "tx_location \<Rightarrow> ustr" where
  "location_fmt l =
     lit ''tx: '' @ tl_tx_id l @ lit '' ('' @ dec (unat (tl_tx_index l)) @ lit '') @'' @
     dec (unat (tl_block_height l))"

record input_balance =
  ib_address :: "ustr option"
  ib_amount :: u128

section \<open>Ledger entries\<close>

datatype operation = OpEtching | OpMint | OpBurn | OpSend | OpReceive

fun operation_str :: "operation \<Rightarrow> ustr" where
  "operation_str OpEtching = lit ''etching''"
| "operation_str OpMint = lit ''mint''"
| "operation_str OpBurn = lit ''burn''"
| "operation_str OpSend = lit ''send''"
| "operation_str OpReceive = lit ''receive''"

text \<open>\<open>to_uppercase\<close> on ASCII letters.\<close>

definition operation_fmt :: "operation \<Rightarrow> ustr" where
  "operation_fmt x = map (\<lambda>c. if 97 \<le> c \<and> c \<le> 122 then c - 32 else c) (operation_str x)"

definition operation_from_str :: "ustr \<Rightarrow> unit + operation" where
  "operation_from_str s =
     (if s = lit ''etching'' then Inr OpEtching
      else if s = lit ''mint'' then Inr OpMint
      else if s = lit ''burn'' then Inr OpBurn
      else if s = lit ''send'' then Inr OpSend
      else if s = lit ''receive'' then Inr OpReceive
      else Inl ())"

record ledger_entry =
  le_rune_id :: ustr
  le_block_hash :: ustr
  le_block_height :: u64
  le_tx_index :: u32
  le_event_index :: u32
  le_tx_id :: ustr
  le_output :: "u32 option"
  le_address :: "ustr option"
  le_receiver :: "ustr option"
  le_amount :: "u128 option"
  le_operation :: operation
  le_timestamp :: u32

definition ledger_from_values ::
    "u128 option \<Rightarrow> rune_id \<Rightarrow> ustr \<Rightarrow> u64 \<Rightarrow> u32 \<Rightarrow> u32 \<Rightarrow> ustr \<Rightarrow> u32 option \<Rightarrow> ustr option
     \<Rightarrow> ustr option \<Rightarrow> operation \<Rightarrow> u32 \<Rightarrow> ledger_entry option" where
  "ledger_from_values amount rid block_hash block_height tx_index event_index txid out
     address receiver op timestamp =
     do {
       hash \<leftarrow> slice_from 2 block_hash;
       t \<leftarrow> slice_from 2 txid;
       Some \<lparr>le_rune_id = rune_id_to_string rid, le_block_hash = hash,
         le_block_height = block_height, le_tx_index = tx_index, le_event_index = event_index,
         le_tx_id = t, le_output = out, le_address = address, le_receiver = receiver,
         le_amount = amount, le_operation = op, le_timestamp = timestamp\<rparr>
     }"

section \<open>Runes\<close>

record db_rune =
  dr_id :: ustr
  dr_number :: u32
  dr_name :: ustr
  dr_spaced_name :: ustr
  dr_block_hash :: ustr
  dr_block_height :: u64
  dr_tx_index :: u32
  dr_tx_id :: ustr
  dr_divisibility :: u8
  dr_premine :: u128
  dr_symbol :: ustr
  dr_terms_amount :: "u128 option"
  dr_terms_cap :: "u128 option"
  dr_terms_height_start :: "u64 option"
  dr_terms_height_end :: "u64 option"
  dr_terms_offset_start :: "u64 option"
  dr_terms_offset_end :: "u64 option"
  dr_turbo :: bool
  dr_cenotaph :: bool
  dr_timestamp :: u32

text \<open>
  \<open>unwrap_or\<close> evaluates its argument, so \<open>Rune::reserved\<close> is computed for every etching. The
  default symbol is U+00A4.
\<close>

definition rune_from_etching :: "etching \<Rightarrow> u32 \<Rightarrow> tx_location \<Rightarrow> db_rune option" where
  "rune_from_etching e number l =
     do {
       res \<leftarrow> reserved (tl_block_height l) (tl_tx_index l);
       let rune = unwrap_or res (et_rune e);
       let spaced =
         (case et_spacers e of
            Some s \<Rightarrow> spaced_rune_to_string (spaced_rune_new rune s)
          | None \<Rightarrow> rune_to_string rune);
       hash \<leftarrow> slice_from 2 (tl_block_hash l);
       t \<leftarrow> slice_from 2 (tl_tx_id l);
       Some \<lparr>dr_id = dec (unat (tl_block_height l)) @ 58 # dec (unat (tl_tx_index l)),
         dr_number = number, dr_name = rune_to_string rune, dr_spaced_name = spaced,
         dr_block_hash = hash, dr_block_height = tl_block_height l,
         dr_tx_index = tl_tx_index l, dr_tx_id = t,
         dr_divisibility = unwrap_or 0 (et_divisibility e),
         dr_premine = unwrap_or 0 (et_premine e),
         dr_symbol =
           (case et_symbol e of Some c \<Rightarrow> filter (\<lambda>x. x \<noteq> 0) [c] | None \<Rightarrow> [0xA4]),
         dr_terms_amount = Option.bind (et_terms e) tm_amount,
         dr_terms_cap = Option.bind (et_terms e) tm_cap,
         dr_terms_height_start = Option.bind (et_terms e) (fst \<circ> tm_height),
         dr_terms_height_end = Option.bind (et_terms e) (snd \<circ> tm_height),
         dr_terms_offset_start = Option.bind (et_terms e) (fst \<circ> tm_offset),
         dr_terms_offset_end = Option.bind (et_terms e) (snd \<circ> tm_offset),
         dr_turbo = et_turbo e, dr_cenotaph = False, dr_timestamp = tl_timestamp l\<rparr>
     }"

definition rune_from_cenotaph :: "rune \<Rightarrow> u32 \<Rightarrow> tx_location \<Rightarrow> db_rune option" where
  "rune_from_cenotaph r number l =
     do {
       hash \<leftarrow> slice_from 2 (tl_block_hash l);
       t \<leftarrow> slice_from 2 (tl_tx_id l);
       Some \<lparr>dr_id = dec (unat (tl_block_height l)) @ 58 # dec (unat (tl_tx_index l)),
         dr_number = number, dr_name = rune_to_string r, dr_spaced_name = rune_to_string r,
         dr_block_hash = hash, dr_block_height = tl_block_height l,
         dr_tx_index = tl_tx_index l, dr_tx_id = t, dr_divisibility = 0, dr_premine = 0,
         dr_symbol = [], dr_terms_amount = None, dr_terms_cap = None,
         dr_terms_height_start = None, dr_terms_height_end = None,
         dr_terms_offset_start = None, dr_terms_offset_end = None,
         dr_turbo = False, dr_cenotaph = True, dr_timestamp = tl_timestamp l\<rparr>
     }"

definition db_rune_id :: "db_rune \<Rightarrow> rune_id" where
  "db_rune_id r = RuneId (dr_block_height r) (dr_tx_index r)"

section \<open>Changes\<close>

record supply_change =
  sc_rune_id :: ustr
  sc_block_height :: u64
  sc_minted :: u128
  sc_total_mints :: u128
  sc_burned :: u128
  sc_total_burns :: u128
  sc_total_operations :: u128

definition supply_from_mint :: "ustr \<Rightarrow> u64 \<Rightarrow> u128 \<Rightarrow> supply_change" where
  "supply_from_mint i h amount =
     \<lparr>sc_rune_id = i, sc_block_height = h, sc_minted = amount, sc_total_mints = 1,
      sc_burned = 0, sc_total_burns = 0, sc_total_operations = 1\<rparr>"

definition supply_from_burn :: "ustr \<Rightarrow> u64 \<Rightarrow> u128 \<Rightarrow> supply_change" where
  "supply_from_burn i h amount =
     \<lparr>sc_rune_id = i, sc_block_height = h, sc_minted = 0, sc_total_mints = 0,
      sc_burned = amount, sc_total_burns = 1, sc_total_operations = 1\<rparr>"

definition supply_from_operation :: "ustr \<Rightarrow> u64 \<Rightarrow> supply_change" where
  "supply_from_operation i h =
     \<lparr>sc_rune_id = i, sc_block_height = h, sc_minted = 0, sc_total_mints = 0,
      sc_burned = 0, sc_total_burns = 0, sc_total_operations = 1\<rparr>"

record balance_change =
  bc_rune_id :: ustr
  bc_block_height :: u64
  bc_address :: ustr
  bc_balance :: u128
  bc_total_operations :: u32

definition balance_from_operation :: "ustr \<Rightarrow> u64 \<Rightarrow> ustr \<Rightarrow> u128 \<Rightarrow> balance_change" where
  "balance_from_operation i h address balance =
     \<lparr>bc_rune_id = i, bc_block_height = h, bc_address = address, bc_balance = balance,
      bc_total_operations = 1\<rparr>"

section \<open>Facts\<close>

definition location_ok :: "tx_location \<Rightarrow> bool" where
  "location_ok l = (2 \<le> length (tl_block_hash l) \<and> 2 \<le> length (tl_tx_id l))"

lemma operation_from_str [codec]: "operation_from_str (operation_str x) = Inr x"
  by (cases x) (simp_all add: operation_from_str_def lit_def)

lemma rune_from_etching_total: "location_ok l \<Longrightarrow> rune_from_etching e number l \<noteq> None"
  by (simp add: rune_from_etching_def location_ok_def slice_from_Some reserved_value Let_def)

lemma rune_from_cenotaph_total: "location_ok l \<Longrightarrow> rune_from_cenotaph r number l \<noteq> None"
  by (simp add: rune_from_cenotaph_def location_ok_def slice_from_Some)

lemma rune_from_etching_id:
  assumes "rune_from_etching e number l = Some r"
  shows "db_rune_id r = location_rune_id l" "dr_id r = rune_id_to_string (location_rune_id l)"
    "dr_terms_amount r = Option.bind (et_terms e) tm_amount"
  using assms
  by (auto simp: rune_from_etching_def db_rune_id_def location_rune_id_def rune_id_to_string_def
      bind_eq_Some_conv Let_def)

lemma rune_from_cenotaph_id:
  assumes "rune_from_cenotaph c number l = Some r"
  shows "db_rune_id r = location_rune_id l" "dr_id r = rune_id_to_string (location_rune_id l)"
    "dr_cenotaph r" "dr_premine r = 0"
  using assms
  by (auto simp: rune_from_cenotaph_def db_rune_id_def location_rune_id_def rune_id_to_string_def
      bind_eq_Some_conv)

end
