(* ===== verification/Balance_Moves.thy ===== *)
theory Balance_Moves
  imports Ledger_Models
begin

text \<open>
  The helpers of the index (\<^verbatim>\<open>src/db/cache/utils.rs\<close>) that work inside one transaction: the
  numbering of ledger entries, the movement of rune balances from inputs to an output, and
  the validity of a mint. Main facts: a movement never creates balance, takes exactly what was
  asked for as long as the inputs have it, records what the receiver gets in one entry, and
  numbers its entries consecutively; a mint is valid exactly under the conditions of its terms,
  with the height offsets added modulo \<open>2 ^ 64\<close>.

  \<open>Address::from_script\<close> belongs to the \<^verbatim>\<open>bitcoin\<close> crate and is the parameter \<open>address_of\<close>.
\<close>

section \<open>Entries\<close>

definition new_entry ::
    "tx_location \<Rightarrow> u128 option \<Rightarrow> rune_id \<Rightarrow> u32 option \<Rightarrow> ustr option \<Rightarrow> ustr option \<Rightarrow> operation
     \<Rightarrow> u32 \<Rightarrow> (ledger_entry \<times> u32) option" where
  "new_entry l amount rid out address receiver op next_event_index =
     do {
       e \<leftarrow> ledger_from_values amount rid (tl_block_hash l) (tl_block_height l) (tl_tx_index l)
         next_event_index (tl_tx_id l) out address receiver op (tl_timestamp l);
       Some (e, next_event_index + 1)
     }"

section \<open>Moving balances\<close>

text \<open>The loop over the inputs: the amount sent, the senders, the inputs that remain.\<close>

fun take_inputs ::
    "u128 \<Rightarrow> u128 \<Rightarrow> (u128 \<times> ustr) list \<Rightarrow> input_balance list
     \<Rightarrow> u128 \<times> (u128 \<times> ustr) list \<times> input_balance list" where
  "take_inputs amount total_sent senders [] = (total_sent, senders, [])"
| "take_inputs amount total_sent senders (b # bs) =
     (let balance_taken =
            (if amount = 0 then ib_amount b else min (ib_amount b) (amount - total_sent));
          total_sent = total_sent + balance_taken;
          senders =
            (case ib_address b of None \<Rightarrow> senders | Some a \<Rightarrow> senders @ [(balance_taken, a)])
      in if balance_taken < ib_amount b
         then (total_sent, senders,
           \<lparr>ib_address = ib_address b, ib_amount = ib_amount b - balance_taken\<rparr> # bs)
         else if total_sent = amount then (total_sent, senders, bs)
         else take_inputs amount total_sent senders bs)"

fun sender_entries ::
    "tx_location \<Rightarrow> rune_id \<Rightarrow> u32 option \<Rightarrow> ustr option \<Rightarrow> operation \<Rightarrow> (u128 \<times> ustr) list
     \<Rightarrow> u32 \<Rightarrow> (ledger_entry list \<times> u32) option" where
  "sender_entries l rid out receiver op [] idx = Some ([], idx)"
| "sender_entries l rid out receiver op ((taken, sender) # ss) idx =
     do {
       (e, idx) \<leftarrow> new_entry l (Some taken) rid out (Some sender) receiver op idx;
       (es, idx) \<leftarrow> sender_entries l rid out receiver op ss idx;
       Some (e # es, idx)
     }"

definition receiver_of ::
    "('s \<Rightarrow> network \<Rightarrow> ustr option) \<Rightarrow> tx_location \<Rightarrow> (u32, 's) hashmap \<Rightarrow> u32 option \<Rightarrow> ustr option" where
  "receiver_of address_of l outputs out =
     (case out of
        None \<Rightarrow> None
      | Some k \<Rightarrow>
          (case map_of outputs k of
             None \<Rightarrow> None
           | Some script \<Rightarrow> address_of script (tl_network l)))"

definition move_balance ::
    "('s \<Rightarrow> network \<Rightarrow> ustr option) \<Rightarrow> tx_location \<Rightarrow> u32 option \<Rightarrow> rune_id \<Rightarrow> input_balance list
     \<Rightarrow> (u32, 's) hashmap \<Rightarrow> u128 \<Rightarrow> u32 \<Rightarrow> (ledger_entry list \<times> input_balance list \<times> u32) option" where
  "move_balance address_of l out rid inputs outputs amount idx =
     (let receiver = receiver_of address_of l outputs out;
          op = (if receiver \<noteq> None then OpSend else OpBurn);
          (total_sent, senders, inputs') = take_inputs amount 0 [] inputs
      in do {
           (received, idx) \<leftarrow>
             (if receiver \<noteq> None \<and> total_sent > 0
              then do {
                (e, idx) \<leftarrow> new_entry l (Some total_sent) rid out receiver None OpReceive idx;
                Some ([e], idx)
              }
              else Some ([], idx));
           (sent, idx) \<leftarrow> sender_entries l rid out receiver op senders idx;
           Some (received @ sent, inputs', idx)
         })"

section \<open>Mints\<close>

definition is_rune_mintable :: "db_rune \<Rightarrow> u128 \<Rightarrow> tx_location \<Rightarrow> bool" where
  "is_rune_mintable r total_mints l =
     (if dr_cenotaph r then False
      else if dr_terms_amount r = None then False
      else if (case dr_terms_cap r of Some cap \<Rightarrow> total_mints \<ge> cap | None \<Rightarrow> False) then False
      else if (case dr_terms_height_start r of Some h \<Rightarrow> tl_block_height l < h | None \<Rightarrow> False)
      then False
      else if (case dr_terms_height_end r of Some h \<Rightarrow> tl_block_height l > h | None \<Rightarrow> False)
      then False
      else if (case dr_terms_offset_start r of
          Some d \<Rightarrow> tl_block_height l < dr_block_height r + d | None \<Rightarrow> False)
      then False
      else if (case dr_terms_offset_end r of
          Some d \<Rightarrow> tl_block_height l > dr_block_height r + d | None \<Rightarrow> False)
      then False
      else True)"

section \<open>What the loop takes\<close>

definition balance_sum :: "input_balance list \<Rightarrow> nat" where
  "balance_sum bs = sum_list (map (\<lambda>b. unat (ib_amount b)) bs)"

lemma balance_sum_simps [simp]:
  "balance_sum [] = 0"
  "balance_sum (b # bs) = unat (ib_amount b) + balance_sum bs"
  "balance_sum (bs @ cs) = balance_sum bs + balance_sum cs"
  by (simp_all add: balance_sum_def)

lemma unat_min: "unat (min a b) = min (unat a) (unat b)" for a b :: "'a::len word"
  by (simp add: min_def word_le_unat)

text \<open>A positive amount: the loop takes it, or everything there is.\<close>

lemma take_inputs_amount:
  assumes "take_inputs amount sent senders bs = (sent', senders', rest)"
    and "amount \<noteq> 0" "sent < amount"
  shows "unat sent' = min (unat amount) (unat sent + balance_sum bs) \<and>
    unat sent' + balance_sum rest = unat sent + balance_sum bs"
  using assms
proof (induction amount sent senders bs rule: take_inputs.induct)
  case (2 amount sent senders b bs)
  let ?t = "min (ib_amount b) (amount - sent)"
  have d: "unat (amount - sent) = unat amount - unat sent" and less: "unat sent < unat amount"
    using "2.prems"(3) unat_diff_le [of sent amount] by (simp_all add: word_less_nat_alt word_le_unat)
  have t: "unat ?t = min (unat (ib_amount b)) (unat amount - unat sent)"
    by (simp add: unat_min d)
  have am: "unat amount < 2 ^ 128" using unsigned_less [of amount] by simp
  then have s: "unat (sent + ?t) = unat sent + unat ?t"
    using less t by (intro unat_add_fits) simp
  consider "?t < ib_amount b" | "\<not> ?t < ib_amount b" "sent + ?t = amount"
    | "\<not> ?t < ib_amount b" "sent + ?t \<noteq> amount" by blast
  then show ?case
  proof cases
    case 1
    then have "unat ?t < unat (ib_amount b)" by (simp only: word_less_nat_alt)
    moreover have "unat (ib_amount b - ?t) = unat (ib_amount b) - unat ?t"
      by (rule unat_diff_le) simp
    ultimately show ?thesis
      using "2.prems" 1 s t less by (auto simp: Let_def)
  next
    case 2
    then have "unat (sent + ?t) = unat amount" "unat (ib_amount b) \<le> unat ?t"
      by (simp_all only: not_less word_le_unat)
    then show ?thesis
      using "2.prems" 2 s t less by (auto simp: Let_def)
  next
    case 3
    then have le: "unat (ib_amount b) \<le> unat ?t" by (simp only: not_less word_le_unat)
    have ne: "unat (sent + ?t) \<noteq> unat amount" using 3 by (simp only: word_unat_eq_iff) simp
    have lt: "sent + ?t < amount" using le ne s t less by (simp add: word_less_nat_alt)
    from "2.prems"(1) 3 obtain ss where
      r: "take_inputs amount (sent + ?t) ss bs = (sent', senders', rest)"
      and ss: "ss = (case ib_address b of None \<Rightarrow> senders | Some a \<Rightarrow> senders @ [(?t, a)])"
      using "2.prems"(2) by (simp add: Let_def)
    from "2.IH" [OF _ refl ss _ _ _ "2.prems"(2)] 3 r lt "2.prems"(2)
    have "unat sent' = min (unat amount) (unat (sent + ?t) + balance_sum bs) \<and>
        unat sent' + balance_sum rest = unat (sent + ?t) + balance_sum bs"
      by simp
    then show ?thesis using s t le by simp
  qed
qed (auto simp: word_less_nat_alt)

text \<open>Amount zero means everything; a positive balance first, and no wrap, are needed for that.\<close>

lemma take_inputs_all:
  assumes "take_inputs 0 sent senders bs = (sent', senders', rest)"
    and "unat sent + balance_sum bs < 2 ^ 128" "list_all (\<lambda>b. ib_amount b \<noteq> 0) bs"
  shows "unat sent' = unat sent + balance_sum bs \<and> rest = []"
  using assms
proof (induction "0 :: u128" sent senders bs rule: take_inputs.induct)
  case (2 sent senders b bs)
  have s: "unat (sent + ib_amount b) = unat sent + unat (ib_amount b)"
    using "2.prems"(2) by (intro unat_add_fits) simp
  have "ib_amount b \<noteq> 0" using "2.prems"(3) by simp
  then have "unat (ib_amount b) \<noteq> 0" by (simp add: unat_eq_zero)
  with s have "unat (sent + ib_amount b) \<noteq> 0" by simp
  then have ne: "sent + ib_amount b \<noteq> 0" by (metis unat_0)
  obtain ss where r: "take_inputs 0 (sent + ib_amount b) ss bs = (sent', senders', rest)"
    and ss: "ss = (case ib_address b of None \<Rightarrow> senders | Some a \<Rightarrow> senders @ [(ib_amount b, a)])"
    using "2.prems"(1) ne by (simp add: Let_def)
  from "2.hyps" [OF _ refl ss _ _ r] ne s "2.prems"(2,3) show ?case by simp
qed simp

text \<open>In every case nothing is created, wrapped sums included.\<close>

lemma take_inputs_all_le:
  assumes "take_inputs 0 sent senders bs = (sent', senders', rest)"
  shows "unat sent' + balance_sum rest \<le> unat sent + balance_sum bs"
  using assms
proof (induction "0 :: u128" sent senders bs rule: take_inputs.induct)
  case (2 sent senders b bs)
  have s: "unat (sent + ib_amount b) \<le> unat sent + unat (ib_amount b)"
    by (simp add: unat_word_ariths)
  show ?case
  proof (cases "sent + ib_amount b = 0")
    case True
    then show ?thesis using "2.prems" by (auto simp: Let_def)
  next
    case False
    then obtain ss where r: "take_inputs 0 (sent + ib_amount b) ss bs = (sent', senders', rest)"
      and ss: "ss = (case ib_address b of None \<Rightarrow> senders | Some a \<Rightarrow> senders @ [(ib_amount b, a)])"
      using "2.prems" by (simp add: Let_def)
    from "2.hyps" [OF _ refl ss _ _ r] False s show ?thesis by simp
  qed
qed simp

lemma take_inputs_le:
  assumes "take_inputs amount 0 senders bs = (sent', senders', rest)"
  shows "unat sent' + balance_sum rest \<le> balance_sum bs"
  using take_inputs_all_le [of 0 senders bs] take_inputs_amount [of amount 0 senders bs] assms
  by (cases "amount = 0") (auto simp: word_gt_0)

text \<open>Balances that stay were there before, the first one possibly reduced.\<close>

lemma take_inputs_positive:
  assumes "take_inputs amount sent senders bs = (sent', senders', rest)"
    and "list_all (\<lambda>b. ib_amount b \<noteq> 0) bs"
  shows "list_all (\<lambda>b. ib_amount b \<noteq> 0) rest"
  using assms
proof (induction amount sent senders bs rule: take_inputs.induct)
  case (2 amount sent senders b bs)
  then show ?case by (auto simp: Let_def split: if_splits)
qed simp

section \<open>Entries of one step\<close>

text \<open>
  Consecutive event indices from \<open>i\<close> up to, not including, \<open>j\<close>, modulo \<open>2 ^ 32\<close> as the
  counter is.
\<close>

fun numbered :: "ledger_entry list \<Rightarrow> u32 \<Rightarrow> u32 \<Rightarrow> bool" where
  "numbered [] i j = (j = i)"
| "numbered (e # es) i j = (le_event_index e = i \<and> numbered es (i + 1) j)"

lemma numbered_append: "numbered es i j \<Longrightarrow> numbered fs j k \<Longrightarrow> numbered (es @ fs) i k"
  by (induction es arbitrary: i) auto

lemma numbered_nth:
  "numbered es i j \<Longrightarrow> j = i + of_nat (length es) \<and>
     (\<forall>k < length es. le_event_index (es ! k) = i + of_nat k)"
proof (induction es arbitrary: i)
  case (Cons e es)
  then show ?case by (fastforce simp: less_Suc_eq_0_disj)
qed simp

text \<open>What the receive entries of a rune add up to.\<close>

definition received :: "rune_id \<Rightarrow> ledger_entry list \<Rightarrow> nat" where
  "received rid es =
     sum_list (map (\<lambda>e. if le_operation e = OpReceive \<and> le_rune_id e = rune_id_to_string rid
       then unat (unwrap_or 0 (le_amount e)) else 0) es)"

lemma received_simps [simp]:
  "received rid [] = 0"
  "received rid (es @ fs) = received rid es + received rid fs"
  "received rid (e # es) =
     (if le_operation e = OpReceive \<and> le_rune_id e = rune_id_to_string rid
      then unat (unwrap_or 0 (le_amount e)) else 0) + received rid es"
  by (simp_all add: received_def)

lemma new_entry_Some:
  assumes "new_entry l amount rid out address receiver op idx = Some (e, idx')"
  shows "idx' = idx + 1" "le_event_index e = idx" "le_operation e = op" "le_amount e = amount"
    "le_rune_id e = rune_id_to_string rid" "le_address e = address" "le_output e = out"
    "le_receiver e = receiver" "le_tx_id e = drop 2 (tl_tx_id l)"
  using assms
  by (auto simp: new_entry_def ledger_from_values_def bind_eq_Some_conv slice_from_def split: if_splits)

lemma new_entry_total:
  "location_ok l \<Longrightarrow> new_entry l amount rid out address receiver op idx \<noteq> None"
  by (simp add: new_entry_def ledger_from_values_def slice_from_Some location_ok_def)

lemma sender_entries_Some:
  assumes "sender_entries l rid out receiver op ss idx = Some (es, idx')" "op \<noteq> OpReceive"
  shows "numbered es idx idx' \<and> received i es = 0 \<and> length es = length ss \<and>
    list_all (\<lambda>e. le_rune_id e = rune_id_to_string rid \<and> le_operation e = op \<and> le_amount e \<noteq> None) es"
  using assms
proof (induction l rid out receiver op ss idx arbitrary: es rule: sender_entries.induct)
  case (2 l rid out receiver op taken sender ss idx)
  then obtain e idx1 es1 where e: "new_entry l (Some taken) rid out (Some sender) receiver op idx = Some (e, idx1)"
    and s: "sender_entries l rid out receiver op ss idx1 = Some (es1, idx')" and es: "es = e # es1"
    by (auto simp: bind_eq_Some_conv)
  note f = new_entry_Some [OF e]
  have "numbered es1 (idx + 1) idx' \<and> received i es1 = 0 \<and> length es1 = length ss \<and>
    list_all (\<lambda>e. le_rune_id e = rune_id_to_string rid \<and> le_operation e = op \<and> le_amount e \<noteq> None) es1"
    using "2.IH" [OF e _ s "2.prems"(2)] f(1) by simp
  then show ?case using f "2.prems"(2) by (simp add: es)
qed simp

lemma sender_entries_total:
  "location_ok l \<Longrightarrow> sender_entries l rid out receiver op ss idx \<noteq> None"
proof (induction l rid out receiver op ss idx rule: sender_entries.induct)
  case (2 l rid out receiver op taken sender ss idx)
  obtain e i where e: "new_entry l (Some taken) rid out (Some sender) receiver op idx = Some (e, i)"
    using new_entry_total [OF "2.prems"] by fastforce
  with "2.IH" [OF e refl "2.prems"] show ?case by auto
qed simp

section \<open>One movement\<close>

lemma move_balance_total:
  assumes l: "location_ok l"
  shows "move_balance address_of l out rid inputs outputs amount idx \<noteq> None"
proof -
  let ?r = "receiver_of address_of l outputs out"
  obtain sent senders rest where t: "take_inputs amount 0 [] inputs = (sent, senders, rest)"
    by (metis prod_cases3)
  have e: "\<exists>e j. new_entry l (Some sent) rid out r None OpReceive idx = Some (e, j)" for r
    using new_entry_total [OF l] by fastforce
  have s: "\<exists>es i. sender_entries l rid out r op senders k = Some (es, i)" for r op k
    using sender_entries_total [OF l] by fastforce
  show ?thesis
  proof (cases "?r")
    case None
    then show ?thesis using s [of None OpBurn idx] by (auto simp: move_balance_def t Let_def)
  next
    case (Some a)
    obtain x j where "new_entry l (Some sent) rid out (Some a) None OpReceive idx = Some (x, j)"
      using e [of "Some a"] by blast
    then show ?thesis
      using Some s [of "Some a" OpSend j] s [of "Some a" OpSend idx]
      by (auto simp: move_balance_def t Let_def)
  qed
qed

text \<open>The entries of a movement: the receipt, then the senders.\<close>

lemma move_balance_cases:
  assumes "move_balance address_of l out rid inputs outputs amount idx = Some (es, rest, idx')"
  obtains sent senders rs ss j where
    "take_inputs amount 0 [] inputs = (sent, senders, rest)" "es = rs @ ss"
    "numbered rs idx j" "numbered ss j idx'"
    "received rid rs = (if receiver_of address_of l outputs out = None then 0 else unat sent)"
    "\<forall>i. i \<noteq> rid \<longrightarrow> received i rs = 0" "\<forall>i. received i ss = 0"
    "length ss = length senders"
    "list_all (\<lambda>e. le_rune_id e = rune_id_to_string rid \<and> le_amount e \<noteq> None) es"
    "list_all (\<lambda>e. le_operation e = OpReceive \<longrightarrow> le_output e = out \<and>
       le_tx_id e = drop 2 (tl_tx_id l) \<and> le_address e \<noteq> None) es"
proof -
  let ?r = "receiver_of address_of l outputs out"
  obtain sent senders rest' where t: "take_inputs amount 0 [] inputs = (sent, senders, rest')"
    by (metis prod_cases3)
  from assms obtain rs j ss where
    rs: "(if ?r \<noteq> None \<and> sent > 0
       then do { (e, idx) \<leftarrow> new_entry l (Some sent) rid out ?r None OpReceive idx; Some ([e], idx) }
       else Some ([], idx)) = Some (rs, j)"
    and ss: "sender_entries l rid out ?r (if ?r \<noteq> None then OpSend else OpBurn) senders j = Some (ss, idx')"
    and es: "es = rs @ ss" and rest: "rest' = rest"
    by (auto simp: move_balance_def Let_def t bind_eq_Some_conv split: if_splits)
  have op: "(if ?r \<noteq> None then OpSend else OpBurn) \<noteq> OpReceive" by simp
  have s: "numbered ss j idx'" "\<forall>i. received i ss = 0" "length ss = length senders"
    "list_all (\<lambda>e. le_rune_id e = rune_id_to_string rid \<and> le_operation e \<noteq> OpReceive \<and> le_amount e \<noteq> None) ss"
    using sender_entries_Some [OF ss op] by (auto simp: list_all_iff split: if_splits)
  show thesis
  proof (cases "?r \<noteq> None \<and> sent > 0")
    case True
    with rs obtain e where e: "new_entry l (Some sent) rid out ?r None OpReceive idx = Some (e, j)"
      and r1: "rs = [e]" by (auto simp: bind_eq_Some_conv)
    note f = new_entry_Some [OF e]
    show thesis
      by (rule that [OF t [unfolded rest] es _ s(1) _ _ s(2,3)])
        (use True f s(4) in \<open>auto simp: r1 es list_all_iff\<close>)
  next
    case False
    with rs have r0: "rs = []" "j = idx" by auto
    show thesis
      by (rule that [OF t [unfolded rest] es _ s(1) _ _ s(2,3)])
        (use False s(4) in \<open>auto simp: r0 es list_all_iff word_gt_0\<close>)
  qed
qed

lemma move_balance_le:
  assumes "move_balance address_of l out rid inputs outputs amount idx = Some (es, rest, idx')"
  shows "numbered es idx idx'" "received rid es + balance_sum rest \<le> balance_sum inputs"
    "i \<noteq> rid \<Longrightarrow> received i es = 0"
proof -
  obtain sent senders rs ss j where m:
    "take_inputs amount 0 [] inputs = (sent, senders, rest)" "es = rs @ ss"
    "numbered rs idx j" "numbered ss j idx'"
    "received rid rs = (if receiver_of address_of l outputs out = None then 0 else unat sent)"
    "\<forall>i. i \<noteq> rid \<longrightarrow> received i rs = 0" "\<forall>i. received i ss = 0"
    "length ss = length senders"
    "list_all (\<lambda>e. le_rune_id e = rune_id_to_string rid \<and> le_amount e \<noteq> None) es"
    "list_all (\<lambda>e. le_operation e = OpReceive \<longrightarrow> le_output e = out \<and>
       le_tx_id e = drop 2 (tl_tx_id l) \<and> le_address e \<noteq> None) es"
    by (rule move_balance_cases [OF assms])
  show "numbered es idx idx'" unfolding m(2) by (rule numbered_append [OF m(3,4)])
  show "received rid es + balance_sum rest \<le> balance_sum inputs"
    using take_inputs_le [OF m(1)] m(5,7) by (simp add: m(2))
  show "i \<noteq> rid \<Longrightarrow> received i es = 0" using m(6,7) by (simp add: m(2))
qed

text \<open>What a movement of \<open>amount\<close> takes from a balance: all of it for amount zero.\<close>

definition moved :: "u128 \<Rightarrow> nat \<Rightarrow> nat" where
  "moved amount bal = (if amount = 0 then bal else min (unat amount) bal)"

lemma move_balance_eq:
  assumes "move_balance address_of l out rid inputs outputs amount idx = Some (es, rest, idx')"
    and "receiver_of address_of l outputs out \<noteq> None"
    and "balance_sum inputs < 2 ^ 128" "list_all (\<lambda>b. ib_amount b \<noteq> 0) inputs"
  shows "received rid es = moved amount (balance_sum inputs)"
    and "balance_sum rest = balance_sum inputs - moved amount (balance_sum inputs)"
    and "list_all (\<lambda>b. ib_amount b \<noteq> 0) rest"
proof -
  obtain sent senders rs ss j where m:
    "take_inputs amount 0 [] inputs = (sent, senders, rest)" "es = rs @ ss"
    "numbered rs idx j" "numbered ss j idx'"
    "received rid rs = (if receiver_of address_of l outputs out = None then 0 else unat sent)"
    "\<forall>i. i \<noteq> rid \<longrightarrow> received i rs = 0" "\<forall>i. received i ss = 0"
    "length ss = length senders"
    "list_all (\<lambda>e. le_rune_id e = rune_id_to_string rid \<and> le_amount e \<noteq> None) es"
    "list_all (\<lambda>e. le_operation e = OpReceive \<longrightarrow> le_output e = out \<and>
       le_tx_id e = drop 2 (tl_tx_id l) \<and> le_address e \<noteq> None) es"
    by (rule move_balance_cases [OF assms(1)])
  note t = m(1) and es = m(2) and r = m(5,7)
  have s: "unat sent = moved amount (balance_sum inputs) \<and> unat sent + balance_sum rest = balance_sum inputs"
  proof (cases "amount = 0")
    case True
    then show ?thesis using take_inputs_all [of 0 "[]" inputs] t assms(3,4) by (simp add: moved_def)
  next
    case False
    then show ?thesis
      using take_inputs_amount [OF t False] by (auto simp: moved_def word_gt_0)
  qed
  show "received rid es = moved amount (balance_sum inputs)"
    using s r assms(2) by (simp add: es)
  show "balance_sum rest = balance_sum inputs - moved amount (balance_sum inputs)"
    using s by linarith
  show "list_all (\<lambda>b. ib_amount b \<noteq> 0) rest"
    by (rule take_inputs_positive [OF t assms(4)])
qed

section \<open>Properties\<close>

text \<open>
  A movement never creates balance: what the receiver gets and what stays add up to at
  most what was there, even where the sum of the inputs wraps; only the moved rune is
  received, and the event indices of the entries are consecutive.
\<close>

lemma move_balance_no_inflation:
  assumes "move_balance address_of l out rid inputs outputs amount idx = Some (es, rest, idx')"
  shows "received rid es + balance_sum rest \<le> balance_sum inputs \<and>
    (i = rid \<or> received i es = 0) \<and> numbered es idx idx'"
  using move_balance_le(1,2) [OF assms] move_balance_le(3) [OF assms, of i] by (cases "i = rid") simp_all

definition sample_location :: tx_location where
  "sample_location =
     \<lparr>tl_network = Bitcoin, tl_block_hash = lit ''0xab'', tl_block_height = 840001,
      tl_timestamp = 7, tl_tx_index = 3, tl_tx_id = lit ''0xcd''\<rparr>"

definition sample_address :: "nat \<Rightarrow> network \<Rightarrow> ustr option" where
  "sample_address s n = (if s = 0 then None else Some [s])"

definition sample_inputs :: "input_balance list" where
  "sample_inputs =
     [\<lparr>ib_address = Some [97], ib_amount = 5\<rparr>, \<lparr>ib_address = None, ib_amount = 10\<rparr>]"

lemma sample_move:
  "\<exists>es idx'. move_balance sample_address sample_location (Some 1) (RuneId 1 0) sample_inputs
     [(1, 98)] 8 0 = Some (es, [\<lparr>ib_address = None, ib_amount = 7\<rparr>], idx')"
  by (simp add: move_balance_def sample_inputs_def receiver_of_def sample_address_def Let_def
      new_entry_def ledger_from_values_def sample_location_def lit_def slice_from_def min_def)

lemma move_balance_no_inflation_witness:
  "\<exists>es idx'. move_balance sample_address sample_location (Some 1) (RuneId 1 0) sample_inputs
     [(1, 98)] 8 0 = Some (es, [\<lparr>ib_address = None, ib_amount = 7\<rparr>], idx') \<and>
   received (RuneId 1 0) es + 7 \<le> 15 \<and> numbered es 0 idx'"
proof -
  obtain es idx' where m: "move_balance sample_address sample_location (Some 1) (RuneId 1 0)
      sample_inputs [(1, 98)] 8 0 = Some (es, [\<lparr>ib_address = None, ib_amount = 7\<rparr>], idx')"
    using sample_move by blast
  from move_balance_no_inflation [OF m, of "RuneId 1 0"] m show ?thesis
    by (simp add: sample_inputs_def)
qed

text \<open>
  C29. A movement to an output with an address delivers exactly what was asked for: the whole
  balance for amount zero, and otherwise the amount or the balance, whichever is less; the
  rest stays available. The inputs must be positive and add up without overflow.
\<close>

theorem move_balance_exact:
  assumes "move_balance address_of l out rid inputs outputs amount idx = Some (es, rest, idx')"
    and "receiver_of address_of l outputs out \<noteq> None"
    and "balance_sum inputs < 2 ^ 128"
    and "list_all (\<lambda>b. ib_amount b \<noteq> 0) inputs"
  shows "received rid es = moved amount (balance_sum inputs) \<and>
    balance_sum rest = balance_sum inputs - moved amount (balance_sum inputs)"
  using move_balance_eq [OF assms] by blast

lemma move_balance_exact_witness:
  "\<exists>es idx'. move_balance sample_address sample_location (Some 1) (RuneId 1 0) sample_inputs
     [(1, 98)] 8 0 = Some (es, [\<lparr>ib_address = None, ib_amount = 7\<rparr>], idx') \<and>
   received (RuneId 1 0) es = 8"
proof -
  obtain es idx' where m: "move_balance sample_address sample_location (Some 1) (RuneId 1 0)
      sample_inputs [(1, 98)] 8 0 = Some (es, [\<lparr>ib_address = None, ib_amount = 7\<rparr>], idx')"
    using sample_move by blast
  from move_balance_exact [OF m] m show ?thesis
    by (simp add: sample_inputs_def receiver_of_def sample_address_def moved_def)
qed

text \<open>
  Moving everything stops at a balance of zero when nothing was taken before it: the
  balance behind it is not moved. (A premine of zero followed by a mint of the same rune in
  one transaction leads there, and the caller then drops what was not moved.)
\<close>

lemma move_all_stops_at_zero:
  "take_inputs 0 0 [] (\<lparr>ib_address = None, ib_amount = 0\<rparr> # bs) = (0, [], bs)"
  by simp

text \<open>
  A mint is valid exactly when the rune is no cenotaph, has an amount, the cap is not
  reached, and the block lies between the absolute and the relative heights of the terms; the
  relative ones are added to the etching's height modulo \<open>2 ^ 64\<close>.
\<close>

lemma mintable_iff:
  "is_rune_mintable r mints l \<longleftrightarrow>
     \<not> dr_cenotaph r \<and> dr_terms_amount r \<noteq> None \<and>
     pred_option (\<lambda>cap. unat mints < unat cap) (dr_terms_cap r) \<and>
     pred_option (\<lambda>h. unat h \<le> unat (tl_block_height l)) (dr_terms_height_start r) \<and>
     pred_option (\<lambda>h. unat (tl_block_height l) \<le> unat h) (dr_terms_height_end r) \<and>
     pred_option (\<lambda>d. (unat (dr_block_height r) + unat d) mod 2 ^ 64 \<le> unat (tl_block_height l))
       (dr_terms_offset_start r) \<and>
     pred_option (\<lambda>d. unat (tl_block_height l) \<le> (unat (dr_block_height r) + unat d) mod 2 ^ 64)
       (dr_terms_offset_end r)"
proof -
  have "unat (a + b :: u64) = (unat a + unat b) mod 2 ^ 64" for a b
    by (simp add: unat_word_ariths)
  then show ?thesis
    by (auto simp: is_rune_mintable_def word_le_unat not_less not_le word_less_nat_alt
        split: option.splits if_splits)
qed

text \<open>
  The wrap matters: a relative start of \<open>2 ^ 64 - 1\<close> blocks after the etching, which no
  block can reach, does not keep a mint in the etching's own block from being valid.
\<close>

lemma mint_offset_wraps:
  assumes "dr_cenotaph r = False" "dr_terms_amount r = Some a" "dr_terms_cap r = None"
    "dr_terms_height_start r = None" "dr_terms_height_end r = None"
    "dr_terms_offset_start r = Some (- 1)" "dr_terms_offset_end r = None"
    "tl_block_height l = dr_block_height r" "0 < dr_block_height r"
  shows "is_rune_mintable r mints l"
proof -
  have "1 \<le> dr_block_height r" using assms(9) by (simp add: word_le_unat word_less_nat_alt)
  then have "dr_block_height r - 1 \<le> dr_block_height r" by (simp add: word_le_unat unat_diff_le)
  then show ?thesis using assms by (simp add: is_rune_mintable_def not_less)
qed

end
