(* ===== verification/Transaction_Cache.thy ===== *)
theory Transaction_Cache
  imports Balance_Moves
begin

text \<open>
  The cache of one transaction (\<^verbatim>\<open>src/db/cache/transaction_cache.rs\<close>): the balances it has
  still to allocate, per rune, and the operations that allocate them: edicts, mints, etchings,
  the burn of a cenotaph and the allocation of what is left. Main facts: no operation
  creates balance except a mint and a premine, event indices are consecutive across all of
  them, and an edict that divides equally gives each output its share and leaves nothing.

  The order in which a hash map of input balances is iterated is the parameter \<open>it\<close>, a function
  that returns some permutation of the entries. \<open>None\<close> is a panic.
\<close>

section \<open>State\<close>

type_synonym input_runes = "(rune_id, input_balance list) hashmap"

record 's tx_cache =
  tc_location :: tx_location
  tc_next_event :: u32
  tc_etching :: "db_rune option"
  tc_pointer :: "u32 option"
  tc_inputs :: input_runes
  tc_outputs :: "(u32, 's) hashmap"
  tc_total_outputs :: u32

definition tx_cache_new ::
    "tx_location \<Rightarrow> input_runes \<Rightarrow> (u32, 's) hashmap \<Rightarrow> u32 option \<Rightarrow> u32 \<Rightarrow> 's tx_cache" where
  "tx_cache_new l inputs outputs first_eligible_output total_outputs =
     \<lparr>tc_location = l, tc_next_event = 0, tc_etching = None,
      tc_pointer = first_eligible_output, tc_inputs = inputs, tc_outputs = outputs,
      tc_total_outputs = total_outputs\<rparr>"

definition add_input_runes :: "rune_id \<Rightarrow> input_balance \<Rightarrow> 's tx_cache \<Rightarrow> 's tx_cache" where
  "add_input_runes rid entry c =
     c\<lparr>tc_inputs := hm_upsert rid (\<lambda>q. q @ [entry]) [entry] (tc_inputs c)\<rparr>"

section \<open>Burning and allocating what is left\<close>

fun burn_balances ::
    "tx_location \<Rightarrow> rune_id \<Rightarrow> input_balance list \<Rightarrow> u32 \<Rightarrow> (ledger_entry list \<times> u32) option" where
  "burn_balances l rid [] idx = Some ([], idx)"
| "burn_balances l rid (b # bs) idx =
     do {
       (e, idx) \<leftarrow> new_entry l (Some (ib_amount b)) rid None (ib_address b) None OpBurn idx;
       (es, idx) \<leftarrow> burn_balances l rid bs idx;
       Some (e # es, idx)
     }"

fun burn_runes :: "tx_location \<Rightarrow> input_runes \<Rightarrow> u32 \<Rightarrow> (ledger_entry list \<times> u32) option" where
  "burn_runes l [] idx = Some ([], idx)"
| "burn_runes l ((rid, unallocated) # rs) idx =
     do {
       (es, idx) \<leftarrow> burn_balances l rid unallocated idx;
       (fs, idx) \<leftarrow> burn_runes l rs idx;
       Some (es @ fs, idx)
     }"

definition apply_cenotaph_input_burn ::
    "(input_runes \<Rightarrow> input_runes) \<Rightarrow> 's tx_cache \<Rightarrow> (ledger_entry list \<times> 's tx_cache) option" where
  "apply_cenotaph_input_burn it c =
     do {
       (es, idx) \<leftarrow> burn_runes (tc_location c) (it (tc_inputs c)) (tc_next_event c);
       Some (es, c\<lparr>tc_next_event := idx, tc_inputs := []\<rparr>)
     }"

fun allocate_runes ::
    "('s \<Rightarrow> network \<Rightarrow> ustr option) \<Rightarrow> 's tx_cache \<Rightarrow> input_runes \<Rightarrow> u32
     \<Rightarrow> (ledger_entry list \<times> u32) option" where
  "allocate_runes address_of c [] idx = Some ([], idx)"
| "allocate_runes address_of c ((rid, unallocated) # rs) idx =
     do {
       (es, rest, idx) \<leftarrow>
         move_balance address_of (tc_location c) (tc_pointer c) rid unallocated (tc_outputs c) 0 idx;
       (fs, idx) \<leftarrow> allocate_runes address_of c rs idx;
       Some (es @ fs, idx)
     }"

definition allocate_remaining_balances ::
    "('s \<Rightarrow> network \<Rightarrow> ustr option) \<Rightarrow> (input_runes \<Rightarrow> input_runes) \<Rightarrow> 's tx_cache
     \<Rightarrow> (ledger_entry list \<times> 's tx_cache) option" where
  "allocate_remaining_balances address_of it c =
     do {
       (es, idx) \<leftarrow> allocate_runes address_of c (it (tc_inputs c)) (tc_next_event c);
       Some (es, c\<lparr>tc_next_event := idx, tc_inputs := []\<rparr>)
     }"

section \<open>Etchings and mints\<close>

definition apply_etching ::
    "etching \<Rightarrow> u32 \<Rightarrow> 's tx_cache \<Rightarrow> ((rune_id \<times> db_rune \<times> ledger_entry) \<times> 's tx_cache) option" where
  "apply_etching e number c =
     do {
       let rid = location_rune_id (tc_location c);
       r \<leftarrow> rune_from_etching e number (tc_location c);
       let c = c\<lparr>tc_etching := Some r\<rparr>;
       let c =
         (case et_premine e of
            Some premine \<Rightarrow> add_input_runes rid \<lparr>ib_address = None, ib_amount = premine\<rparr> c
          | None \<Rightarrow> c);
       (entry, idx) \<leftarrow>
         new_entry (tc_location c) None rid None None None OpEtching (tc_next_event c);
       Some ((rid, r, entry), c\<lparr>tc_next_event := idx\<rparr>)
     }"

definition apply_cenotaph_etching ::
    "rune \<Rightarrow> u32 \<Rightarrow> 's tx_cache \<Rightarrow> ((rune_id \<times> db_rune \<times> ledger_entry) \<times> 's tx_cache) option" where
  "apply_cenotaph_etching name number c =
     do {
       let rid = location_rune_id (tc_location c);
       r \<leftarrow> rune_from_cenotaph name number (tc_location c);
       let c = c\<lparr>tc_etching := Some r\<rparr>;
       (entry, idx) \<leftarrow>
         new_entry (tc_location c) None rid None None None OpEtching (tc_next_event c);
       Some ((rid, r, entry), c\<lparr>tc_next_event := idx\<rparr>)
     }"

definition apply_mint ::
    "rune_id \<Rightarrow> u128 \<Rightarrow> db_rune \<Rightarrow> 's tx_cache \<Rightarrow> (ledger_entry option \<times> 's tx_cache) option" where
  "apply_mint rid total_mints r c =
     (if \<not> is_rune_mintable r total_mints (tc_location c) then Some (None, c)
      else do {
        amount \<leftarrow> dr_terms_amount r;
        let c = add_input_runes rid \<lparr>ib_address = None, ib_amount = amount\<rparr> c;
        (entry, idx) \<leftarrow>
          new_entry (tc_location c) (Some amount) rid None None None OpMint (tc_next_event c);
        Some (Some entry, c\<lparr>tc_next_event := idx\<rparr>)
      })"

definition apply_cenotaph_mint ::
    "rune_id \<Rightarrow> u128 \<Rightarrow> db_rune \<Rightarrow> 's tx_cache \<Rightarrow> (ledger_entry option \<times> 's tx_cache) option" where
  "apply_cenotaph_mint rid total_mints r c =
     (if \<not> is_rune_mintable r total_mints (tc_location c) then Some (None, c)
      else do {
        amount \<leftarrow> dr_terms_amount r;
        (entry, idx) \<leftarrow>
          new_entry (tc_location c) (Some amount) rid None None None OpBurn (tc_next_event c);
        Some (Some entry, c\<lparr>tc_next_event := idx\<rparr>)
      })"

section \<open>Edicts\<close>

text \<open>One movement per output, with the amount the loop gives that output.\<close>

fun move_each ::
    "('s \<Rightarrow> network \<Rightarrow> ustr option) \<Rightarrow> tx_location \<Rightarrow> rune_id \<Rightarrow> (u32, 's) hashmap
     \<Rightarrow> (u32 \<times> u128) list \<Rightarrow> input_balance list \<Rightarrow> u32
     \<Rightarrow> (ledger_entry list \<times> input_balance list \<times> u32) option" where
  "move_each address_of l rid outputs [] inputs idx = Some ([], inputs, idx)"
| "move_each address_of l rid outputs ((out, amount) # dests) inputs idx =
     do {
       (es, inputs, idx) \<leftarrow> move_balance address_of l (Some out) rid inputs outputs amount idx;
       (fs, inputs, idx) \<leftarrow> move_each address_of l rid outputs dests inputs idx;
       Some (es @ fs, inputs, idx)
     }"

text \<open>The amounts of the equal division: one more for the first \<open>remainder\<close> outputs.\<close>

fun split_amounts :: "u128 \<Rightarrow> u128 \<Rightarrow> u32 list \<Rightarrow> (u32 \<times> u128) list" where
  "split_amounts per_output remainder [] = []"
| "split_amounts per_output remainder (out # outs) =
     (let extra = (if remainder > 0 then 1 else 0);
          remainder = (if remainder > 0 then remainder - 1 else remainder)
      in (out, per_output + extra) # split_amounts per_output remainder outs)"

definition edict_rune :: "'s tx_cache \<Rightarrow> edict \<Rightarrow> rune_id option" where
  "edict_rune c e =
     (if rid_block (ed_id e) = 0 \<and> rid_tx (ed_id e) = 0
      then map_option db_rune_id (tc_etching c)
      else Some (ed_id e))"

definition edict_moves ::
    "('s \<Rightarrow> network \<Rightarrow> ustr option) \<Rightarrow> 's tx_cache \<Rightarrow> edict \<Rightarrow> rune_id \<Rightarrow> input_balance list
     \<Rightarrow> (ledger_entry list \<times> input_balance list \<times> u32) option" where
  "edict_moves address_of c e rid available =
     (let l = tc_location c; outputs = tc_outputs c; idx = tc_next_event c;
          unallocated = sum_list (map ib_amount available)
      in if length outputs = 0
         then move_balance address_of l None rid available outputs (ed_amount e) idx
         else if ed_output e = tc_total_outputs c
         then
           let output_keys = sort (map fst outputs) in
           if ed_amount e = 0
           then
             let len = of_nat (length outputs) in
             move_each address_of l rid outputs
               (split_amounts (unallocated div len) (unallocated mod len) output_keys) available idx
           else
             move_each address_of l rid outputs
               (map (\<lambda>out. (out, min (ed_amount e) unallocated)) output_keys) available idx
         else if ed_output e < tc_total_outputs c
         then
           let amount = (if ed_amount e = 0 then unallocated else ed_amount e) in
           move_balance address_of l (Some (ed_output e)) rid available outputs amount idx
         else move_balance address_of l None rid available outputs (ed_amount e) idx)"

definition apply_edict ::
    "('s \<Rightarrow> network \<Rightarrow> ustr option) \<Rightarrow> edict \<Rightarrow> 's tx_cache
     \<Rightarrow> (ledger_entry list \<times> 's tx_cache) option" where
  "apply_edict address_of e c =
     (case edict_rune c e of
        None \<Rightarrow> Some ([], c)
      | Some rid \<Rightarrow>
          (case map_of (tc_inputs c) rid of
             None \<Rightarrow> Some ([], c)
           | Some available \<Rightarrow>
               do {
                 (es, rest, idx) \<leftarrow> edict_moves address_of c e rid available;
                 Some (es, c\<lparr>tc_next_event := idx,
                   tc_inputs := AList.update rid rest (tc_inputs c)\<rparr>)
               }))"

section \<open>The contract of the operations\<close>

text \<open>What is left to allocate of a rune.\<close>

definition tc_total :: "'s tx_cache \<Rightarrow> rune_id \<Rightarrow> nat" where
  "tc_total c i = balance_sum (unwrap_or [] (map_of (tc_inputs c) i))"

definition tc_ok :: "'s tx_cache \<Rightarrow> bool" where
  "tc_ok c = hm_distinct (tc_inputs c)"

text \<open>
  The contract every operation on a transaction keeps: from an accepted state it reaches an
  accepted state, it numbers its entries from the state's counter on, and what it lets outputs
  receive of a rune comes out of what was left of it, plus what the operation is entitled to
  add (\<open>credit\<close>).
\<close>

locale ledger_operation =
  fixes step :: "'p \<Rightarrow> 'c \<Rightarrow> (ledger_entry list \<times> 'c) option"
    and ok :: "'c \<Rightarrow> bool"
    and counter :: "'c \<Rightarrow> u32"
    and left :: "'c \<Rightarrow> rune_id \<Rightarrow> nat"
    and credit :: "'p \<Rightarrow> 'c \<Rightarrow> rune_id \<Rightarrow> nat"
  assumes keeps: "ok c \<Longrightarrow> step p c = Some (es, c') \<Longrightarrow> ok c'"
    and numbers: "ok c \<Longrightarrow> step p c = Some (es, c') \<Longrightarrow> numbered es (counter c) (counter c')"
    and conserves:
      "ok c \<Longrightarrow> step p c = Some (es, c') \<Longrightarrow> received i es + left c' i \<le> left c i + credit p c i"

text \<open>Operations in a row.\<close>

fun run_steps ::
    "('p \<Rightarrow> 'c \<Rightarrow> (ledger_entry list \<times> 'c) option) \<Rightarrow> 'p list \<Rightarrow> 'c \<Rightarrow> (ledger_entry list \<times> 'c) option" where
  "run_steps step [] c = Some ([], c)"
| "run_steps step (p # ps) c =
     do { (es, c) \<leftarrow> step p c; (fs, c) \<leftarrow> run_steps step ps c; Some (es @ fs, c) }"

fun run_credit ::
    "('p \<Rightarrow> 'c \<Rightarrow> (ledger_entry list \<times> 'c) option) \<Rightarrow> ('p \<Rightarrow> 'c \<Rightarrow> rune_id \<Rightarrow> nat)
     \<Rightarrow> 'p list \<Rightarrow> 'c \<Rightarrow> rune_id \<Rightarrow> nat" where
  "run_credit step credit [] c i = 0"
| "run_credit step credit (p # ps) c i =
     credit p c i +
       (case step p c of None \<Rightarrow> 0 | Some (_, c') \<Rightarrow> run_credit step credit ps c' i)"

context ledger_operation
begin

lemma run_ok: "ok c \<Longrightarrow> run_steps step ps c = Some (es, c') \<Longrightarrow> ok c'"
proof (induction ps arbitrary: c es)
  case (Cons p ps)
  then show ?case by (auto simp: bind_eq_Some_conv dest: keeps)
qed simp

lemma run_numbered:
  "ok c \<Longrightarrow> run_steps step ps c = Some (es, c') \<Longrightarrow> numbered es (counter c) (counter c')"
proof (induction ps arbitrary: c es)
  case (Cons p ps)
  then show ?case by (auto simp: bind_eq_Some_conv intro: numbered_append dest: keeps numbers)
qed simp

lemma run_conserves:
  "ok c \<Longrightarrow> run_steps step ps c = Some (es, c') \<Longrightarrow>
   received i es + left c' i \<le> left c i + run_credit step credit ps c i"
proof (induction ps arbitrary: c es)
  case (Cons p ps)
  then obtain e1 c1 e2 where 1: "step p c = Some (e1, c1)" and 2: "run_steps step ps c1 = Some (e2, c')"
    and es: "es = e1 @ e2" by (auto simp: bind_eq_Some_conv)
  have "received i e1 + left c1 i \<le> left c i + credit p c i" by (rule conserves [OF Cons.prems(1) 1])
  moreover have "received i e2 + left c' i \<le> left c1 i + run_credit step credit ps c1 i"
    by (rule Cons.IH [OF keeps [OF Cons.prems(1) 1] 2])
  ultimately show ?case by (simp add: es 1)
qed simp

text \<open>Without credit, what is received was there before.\<close>

lemma run_no_inflation:
  assumes "ok c" "run_steps step ps c = Some (es, c')" "\<And>p c i. credit p c i = 0"
  shows "received i es + left c' i \<le> left c i"
proof -
  have "run_credit step credit ps c i = 0"
    using assms(3) by (induction ps arbitrary: c) (auto split: option.split)
  then show ?thesis using run_conserves [OF assms(1,2), of i] by simp
qed

end

section \<open>Each operation keeps the contract\<close>

lemma tc_total_add:
  "tc_total (add_input_runes rid b c) i = tc_total c i + (if i = rid then unat (ib_amount b) else 0)"
  by (simp add: tc_total_def add_input_runes_def hashmap split: option.split)

lemma tc_ok_add: "tc_ok c \<Longrightarrow> tc_ok (add_input_runes rid b c)"
  by (simp add: tc_ok_def add_input_runes_def)

lemma add_input_runes_other [simp]:
  "tc_next_event (add_input_runes rid b c) = tc_next_event c"
  "tc_location (add_input_runes rid b c) = tc_location c"
  "tc_etching (add_input_runes rid b c) = tc_etching c"
  "tc_outputs (add_input_runes rid b c) = tc_outputs c"
  "tc_pointer (add_input_runes rid b c) = tc_pointer c"
  by (simp_all add: add_input_runes_def)

lemma tc_total_upd [simp]:
  "tc_total (c\<lparr>tc_next_event := n\<rparr>) = tc_total c"
  "tc_total (c\<lparr>tc_etching := r\<rparr>) = tc_total c"
  "tc_total (c\<lparr>tc_inputs := []\<rparr>) = (\<lambda>i. 0)"
  "tc_ok (c\<lparr>tc_next_event := n\<rparr>) = tc_ok c"
  "tc_ok (c\<lparr>tc_etching := r\<rparr>) = tc_ok c"
  "tc_ok (c\<lparr>tc_inputs := []\<rparr>)"
  by (simp_all add: tc_total_def tc_ok_def fun_eq_iff)

lemma move_balance_conj:
  assumes "move_balance address_of l out rid inputs outputs amount idx = Some (es, rest, idx')"
  shows "numbered es idx idx' \<and> received rid es + balance_sum rest \<le> balance_sum inputs \<and>
    (i \<noteq> rid \<longrightarrow> received i es = 0)"
  using move_balance_le(1,2) [OF assms] move_balance_le(3) [OF assms, of i] by simp

lemma move_each_Some:
  assumes "move_each address_of l rid outputs dests inputs idx = Some (es, rest, idx')"
  shows "numbered es idx idx' \<and> received rid es + balance_sum rest \<le> balance_sum inputs \<and>
    (i \<noteq> rid \<longrightarrow> received i es = 0)"
  using assms
proof (induction address_of l rid outputs dests inputs idx arbitrary: es rule: move_each.induct)
  case (2 address_of l rid outputs out amount dests inputs idx)
  then obtain e1 r1 i1 e2 where m: "move_balance address_of l (Some out) rid inputs outputs amount idx = Some (e1, r1, i1)"
    and n: "move_each address_of l rid outputs dests r1 i1 = Some (e2, rest, idx')"
    and es: "es = e1 @ e2" by (auto simp: bind_eq_Some_conv)
  have "numbered e2 i1 idx' \<and> received rid e2 + balance_sum rest \<le> balance_sum r1 \<and>
      (i \<noteq> rid \<longrightarrow> received i e2 = 0)"
    using "2.IH" [OF m refl refl n] .
  moreover note move_balance_conj [OF m, of i]
  ultimately show ?case using numbered_append [of e1 idx i1 e2 idx'] by (simp add: es)
qed simp

lemma edict_moves_cases:
  obtains out amount where "edict_moves address_of c e rid available =
      move_balance address_of (tc_location c) out rid available (tc_outputs c) amount (tc_next_event c)"
    | dests where "edict_moves address_of c e rid available =
      move_each address_of (tc_location c) rid (tc_outputs c) dests available (tc_next_event c)"
  unfolding edict_moves_def Let_def by metis

lemma edict_moves_Some:
  assumes "edict_moves address_of c e rid available = Some (es, rest, idx')"
  shows "numbered es (tc_next_event c) idx' \<and>
    received rid es + balance_sum rest \<le> balance_sum available \<and> (i \<noteq> rid \<longrightarrow> received i es = 0)"
  by (rule edict_moves_cases [of address_of c e rid available])
    (use assms move_balance_conj move_each_Some in \<open>metis\<close>)+

lemma apply_edict_cases:
  assumes "apply_edict address_of e c = Some (es, c')"
  obtains (nothing) "es = []" "c' = c"
    | (moves) rid available rest idx where "edict_rune c e = Some rid"
      "map_of (tc_inputs c) rid = Some available"
      "edict_moves address_of c e rid available = Some (es, rest, idx)"
      "c' = c\<lparr>tc_next_event := idx, tc_inputs := AList.update rid rest (tc_inputs c)\<rparr>"
proof (cases "edict_rune c e")
  case None
  with assms have "es = []" "c' = c" by (simp_all add: apply_edict_def)
  then show thesis by (rule nothing)
next
  case (Some rid)
  note r = this
  show thesis
  proof (cases "map_of (tc_inputs c) rid")
    case None
    with assms r have "es = []" "c' = c" by (simp_all add: apply_edict_def)
    then show thesis by (rule nothing)
  next
    case (Some available)
    from assms r Some obtain rest idx where
      "edict_moves address_of c e rid available = Some (es, rest, idx)"
      "c' = c\<lparr>tc_next_event := idx, tc_inputs := AList.update rid rest (tc_inputs c)\<rparr>"
      by (auto simp: apply_edict_def bind_eq_Some_conv)
    with r Some show thesis by (rule moves)
  qed
qed

lemma apply_edict_keeps:
  assumes "tc_ok c" "apply_edict address_of e c = Some (es, c')"
  shows "tc_ok c'" "numbered es (tc_next_event c) (tc_next_event c')"
    "received i es + tc_total c' i \<le> tc_total c i"
proof -
  from assms(2) have "tc_ok c' \<and> numbered es (tc_next_event c) (tc_next_event c') \<and>
      received i es + tc_total c' i \<le> tc_total c i"
  proof (cases rule: apply_edict_cases)
    case (moves rid available rest idx)
    have m: "numbered es (tc_next_event c) idx \<and>
        received rid es + balance_sum rest \<le> balance_sum available \<and> (i \<noteq> rid \<longrightarrow> received i es = 0)"
      by (rule edict_moves_Some [OF moves(3)])
    have t: "tc_total c' i = (if i = rid then balance_sum rest else tc_total c i)"
      by (simp add: moves(4) tc_total_def hashmap)
    have a: "tc_total c rid = balance_sum available" by (simp add: tc_total_def moves(2))
    have "tc_ok c'" using assms(1) by (simp add: moves(4) tc_ok_def)
    moreover have "tc_next_event c' = idx" by (simp add: moves(4))
    ultimately show ?thesis using m t a by (cases "i = rid") simp_all
  qed (simp add: assms(1))
  then show "tc_ok c'" "numbered es (tc_next_event c) (tc_next_event c')"
    "received i es + tc_total c' i \<le> tc_total c i" by simp_all
qed

interpretation edicts: ledger_operation "apply_edict address_of" tc_ok tc_next_event tc_total "\<lambda>_ _ _. 0"
  for address_of :: "'s \<Rightarrow> network \<Rightarrow> ustr option"
  by unfold_locales (simp_all add: apply_edict_keeps)

lemma burn_balances_Some:
  "burn_balances l rid bs idx = Some (es, idx') \<Longrightarrow> numbered es idx idx' \<and> received i es = 0"
proof (induction l rid bs idx arbitrary: es rule: burn_balances.induct)
  case (2 l rid b bs idx)
  then obtain e j es1 where
    e: "new_entry l (Some (ib_amount b)) rid None (ib_address b) None OpBurn idx = Some (e, j)"
    and r: "burn_balances l rid bs j = Some (es1, idx')" and es: "es = e # es1"
    by (auto simp: bind_eq_Some_conv)
  show ?case using "2.IH" [OF e refl r] new_entry_Some [OF e] by (simp add: es)
qed simp

lemma burn_runes_Some:
  "burn_runes l rs idx = Some (es, idx') \<Longrightarrow> numbered es idx idx' \<and> received i es = 0"
proof (induction l rs idx arbitrary: es rule: burn_runes.induct)
  case (2 l rid unallocated rs idx)
  then obtain e1 j e2 where e: "burn_balances l rid unallocated idx = Some (e1, j)"
    and r: "burn_runes l rs j = Some (e2, idx')" and es: "es = e1 @ e2"
    by (auto simp: bind_eq_Some_conv)
  show ?case
    using "2.IH" [OF e refl r] burn_balances_Some [OF e, of i] numbered_append [of e1 idx j e2 idx']
    by (simp add: es)
qed simp

definition runes_sum :: "input_runes \<Rightarrow> rune_id \<Rightarrow> nat" where
  "runes_sum rs i = sum_list (map (\<lambda>(r, bs). if r = i then balance_sum bs else 0) rs)"

lemma runes_sum_simps [simp]:
  "runes_sum [] i = 0"
  "runes_sum ((r, bs) # rs) i = (if r = i then balance_sum bs else 0) + runes_sum rs i"
  by (simp_all add: runes_sum_def)

lemma runes_sum_map_of:
  "hm_distinct rs \<Longrightarrow> runes_sum rs i = balance_sum (unwrap_or [] (map_of rs i))"
proof (induction rs)
  case (Cons x rs)
  obtain r bs where x: "x = (r, bs)" by (cases x)
  have "i \<notin> fst ` set rs \<Longrightarrow> map_of rs i = None" by (simp add: map_of_eq_None_iff)
  with Cons x show ?case by (auto simp: hm_distinct_def)
qed simp

lemma runes_sum_iteration:
  "is_iteration it \<Longrightarrow> hm_distinct rs \<Longrightarrow> runes_sum (it rs) i = balance_sum (unwrap_or [] (map_of rs i))"
  by (simp add: runes_sum_map_of hm_distinct_iteration map_of_iteration)

lemma allocate_runes_Some:
  "allocate_runes address_of c rs idx = Some (es, idx') \<Longrightarrow>
   numbered es idx idx' \<and> received i es \<le> runes_sum rs i"
proof (induction address_of c rs idx arbitrary: es rule: allocate_runes.induct)
  case (2 address_of c rid unallocated rs idx)
  then obtain e1 rest j e2 where
    e: "move_balance address_of (tc_location c) (tc_pointer c) rid unallocated (tc_outputs c) 0 idx =
      Some (e1, rest, j)"
    and r: "allocate_runes address_of c rs j = Some (e2, idx')" and es: "es = e1 @ e2"
    by (auto simp: bind_eq_Some_conv)
  show ?case
    using "2.IH" [OF e refl refl r] move_balance_conj [OF e, of i] numbered_append [of e1 idx j e2 idx']
    by (cases "i = rid") (simp_all add: es)
qed simp

lemma burn_keeps:
  assumes "apply_cenotaph_input_burn it c = Some (es, c')"
  shows "tc_ok c'" "numbered es (tc_next_event c) (tc_next_event c')"
    "received i es + tc_total c' i \<le> tc_total c i"
  using assms burn_runes_Some [of "tc_location c" "it (tc_inputs c)" "tc_next_event c" es _ i]
  by (auto simp: apply_cenotaph_input_burn_def bind_eq_Some_conv tc_ok_def tc_total_def)

lemma allocate_keeps:
  assumes "tc_ok c" "is_iteration it" "allocate_remaining_balances address_of it c = Some (es, c')"
  shows "tc_ok c'" "numbered es (tc_next_event c) (tc_next_event c')"
    "received i es + tc_total c' i \<le> tc_total c i"
  using assms allocate_runes_Some [of address_of c "it (tc_inputs c)" "tc_next_event c" es _ i]
    runes_sum_iteration [OF assms(2), of "tc_inputs c" i]
  by (auto simp: allocate_remaining_balances_def bind_eq_Some_conv tc_ok_def tc_total_def)

lemma apply_etching_Some:
  assumes "apply_etching e number c = Some ((rid, r, entry), c')"
  shows "numbered [entry] (tc_next_event c) (tc_next_event c')" "received i [entry] = 0"
    "tc_total c' i = tc_total c i +
      (if i = location_rune_id (tc_location c) then unat (unwrap_or 0 (et_premine e)) else 0)"
    "tc_ok c \<Longrightarrow> tc_ok c'" "rid = location_rune_id (tc_location c)"
    "rune_from_etching e number (tc_location c) = Some r" "tc_etching c' = Some r"
    "tc_location c' = tc_location c"
proof -
  let ?rid = "location_rune_id (tc_location c)"
  let ?c1 = "case et_premine e of
      Some p \<Rightarrow> add_input_runes ?rid \<lparr>ib_address = None, ib_amount = p\<rparr> (c\<lparr>tc_etching := Some r\<rparr>)
    | None \<Rightarrow> c\<lparr>tc_etching := Some r\<rparr>"
  have l: "tc_location ?c1 = tc_location c" "tc_next_event ?c1 = tc_next_event c"
    "tc_etching ?c1 = Some r" "tc_ok c \<Longrightarrow> tc_ok ?c1"
    and t: "tc_total ?c1 i = tc_total c i + (if i = ?rid then unat (unwrap_or 0 (et_premine e)) else 0)"
    by (cases "et_premine e"; simp add: tc_total_add tc_ok_add)+
  from assms obtain j where f: "rune_from_etching e number (tc_location c) = Some r" "rid = ?rid"
    and entry: "new_entry (tc_location c) None ?rid None None None OpEtching (tc_next_event c) = Some (entry, j)"
    and c': "c' = ?c1\<lparr>tc_next_event := j\<rparr>"
    by (auto simp: apply_etching_def bind_eq_Some_conv Let_def l)
  note n = new_entry_Some [OF entry]
  show "numbered [entry] (tc_next_event c) (tc_next_event c')" "received i [entry] = 0"
    "tc_total c' i = tc_total c i + (if i = ?rid then unat (unwrap_or 0 (et_premine e)) else 0)"
    "tc_ok c \<Longrightarrow> tc_ok c'" "rid = ?rid" "rune_from_etching e number (tc_location c) = Some r"
    "tc_etching c' = Some r" "tc_location c' = tc_location c"
    using n l t f by (simp_all add: c')
qed

lemma apply_cenotaph_etching_Some:
  assumes "apply_cenotaph_etching name number c = Some ((rid, r, entry), c')"
  shows "numbered [entry] (tc_next_event c) (tc_next_event c')" "received i [entry] = 0"
    "tc_total c' = tc_total c" "tc_ok c' = tc_ok c" "rid = location_rune_id (tc_location c)"
    "rune_from_cenotaph name number (tc_location c) = Some r" "tc_etching c' = Some r"
    "tc_location c' = tc_location c"
  using assms
  by (auto simp: apply_cenotaph_etching_def bind_eq_Some_conv Let_def dest: new_entry_Some)

definition mint_credit :: "rune_id \<Rightarrow> u128 \<Rightarrow> db_rune \<Rightarrow> tx_location \<Rightarrow> rune_id \<Rightarrow> nat" where
  "mint_credit rid total_mints r l i =
     (if i = rid \<and> is_rune_mintable r total_mints l then unat (unwrap_or 0 (dr_terms_amount r)) else 0)"

abbreviation opt_list :: "'a option \<Rightarrow> 'a list" where
  "opt_list x \<equiv> case_option [] (\<lambda>a. [a]) x"

lemma apply_mint_Some:
  assumes "apply_mint rid m r c = Some (e, c')"
  shows "numbered (opt_list e) (tc_next_event c) (tc_next_event c')" "received i (opt_list e) = 0"
    "tc_total c' i = tc_total c i + mint_credit rid m r (tc_location c) i"
    "tc_ok c \<Longrightarrow> tc_ok c'" "e \<noteq> None \<longleftrightarrow> is_rune_mintable r m (tc_location c)"
    "tc_location c' = tc_location c" "tc_etching c' = tc_etching c"
proof -
  have "numbered (opt_list e) (tc_next_event c) (tc_next_event c') \<and> received i (opt_list e) = 0 \<and>
    tc_total c' i = tc_total c i + mint_credit rid m r (tc_location c) i \<and> (tc_ok c \<longrightarrow> tc_ok c') \<and>
    (e \<noteq> None \<longleftrightarrow> is_rune_mintable r m (tc_location c)) \<and> tc_location c' = tc_location c \<and>
    tc_etching c' = tc_etching c"
  proof (cases "is_rune_mintable r m (tc_location c)")
    case True
    with assms obtain a x j where a: "dr_terms_amount r = Some a"
      and n: "new_entry (tc_location c) (Some a) rid None None None OpMint (tc_next_event c) = Some (x, j)"
      and c': "c' = (add_input_runes rid \<lparr>ib_address = None, ib_amount = a\<rparr> c)\<lparr>tc_next_event := j\<rparr>"
      and e: "e = Some x"
      by (auto simp: apply_mint_def bind_eq_Some_conv Let_def)
    show ?thesis
      using True new_entry_Some [OF n]
      by (simp add: c' e a tc_total_add mint_credit_def tc_ok_add)
  next
    case False
    with assms show ?thesis by (auto simp: apply_mint_def mint_credit_def)
  qed
  then show "numbered (opt_list e) (tc_next_event c) (tc_next_event c')" "received i (opt_list e) = 0"
    "tc_total c' i = tc_total c i + mint_credit rid m r (tc_location c) i"
    "tc_ok c \<Longrightarrow> tc_ok c'" "e \<noteq> None \<longleftrightarrow> is_rune_mintable r m (tc_location c)"
    "tc_location c' = tc_location c" "tc_etching c' = tc_etching c" by auto
qed

lemma apply_cenotaph_mint_Some:
  assumes "apply_cenotaph_mint rid m r c = Some (e, c')"
  shows "numbered (opt_list e) (tc_next_event c) (tc_next_event c')" "received i (opt_list e) = 0"
    "tc_total c' = tc_total c" "tc_ok c' = tc_ok c"
    "e \<noteq> None \<longleftrightarrow> is_rune_mintable r m (tc_location c)" "tc_location c' = tc_location c"
    "tc_etching c' = tc_etching c"
  using assms
  by (auto simp: apply_cenotaph_mint_def bind_eq_Some_conv split: if_splits dest: new_entry_Some)

section \<open>Sequences of operations\<close>

text \<open>
  The operations the index performs on the cache of one transaction, in the order it chooses,
  and the entries of each.
\<close>

datatype action =
    DoEtching etching u32
  | DoCenotaphEtching rune u32
  | DoMint rune_id u128 db_rune
  | DoCenotaphMint rune_id u128 db_rune
  | DoEdict edict
  | DoBurnInputs
  | DoAllocate

fun run_action ::
    "('s \<Rightarrow> network \<Rightarrow> ustr option) \<Rightarrow> (input_runes \<Rightarrow> input_runes) \<Rightarrow> action \<Rightarrow> 's tx_cache
     \<Rightarrow> (ledger_entry list \<times> 's tx_cache) option" where
  "run_action address_of it (DoEtching e number) c =
     map_option (\<lambda>((rid, r, entry), c'). ([entry], c')) (apply_etching e number c)"
| "run_action address_of it (DoCenotaphEtching name number) c =
     map_option (\<lambda>((rid, r, entry), c'). ([entry], c')) (apply_cenotaph_etching name number c)"
| "run_action address_of it (DoMint rid m r) c =
     map_option (\<lambda>(e, c'). (opt_list e, c')) (apply_mint rid m r c)"
| "run_action address_of it (DoCenotaphMint rid m r) c =
     map_option (\<lambda>(e, c'). (opt_list e, c')) (apply_cenotaph_mint rid m r c)"
| "run_action address_of it (DoEdict e) c = apply_edict address_of e c"
| "run_action address_of it DoBurnInputs c = apply_cenotaph_input_burn it c"
| "run_action address_of it DoAllocate c = allocate_remaining_balances address_of it c"

text \<open>Only an etching's premine and a valid mint create balance.\<close>

fun action_credit :: "action \<Rightarrow> 's tx_cache \<Rightarrow> rune_id \<Rightarrow> nat" where
  "action_credit (DoEtching e number) c i =
     (if i = location_rune_id (tc_location c) then unat (unwrap_or 0 (et_premine e)) else 0)"
| "action_credit (DoMint rid m r) c i = mint_credit rid m r (tc_location c) i"
| "action_credit _ c i = 0"

lemma run_action_keeps:
  assumes "tc_ok c" "is_iteration it" "run_action address_of it a c = Some (es, c')"
  shows "tc_ok c' \<and> numbered es (tc_next_event c) (tc_next_event c') \<and>
    received i es + tc_total c' i \<le> tc_total c i + action_credit a c i"
proof (cases a)
  case (DoEtching e number)
  with assms(3) obtain rid r entry where "apply_etching e number c = Some ((rid, r, entry), c')"
    and "es = [entry]" by auto
  with apply_etching_Some [OF this(1)] assms(1) DoEtching show ?thesis by simp
next
  case (DoCenotaphEtching name number)
  with assms(3) obtain rid r entry where "apply_cenotaph_etching name number c = Some ((rid, r, entry), c')"
    and "es = [entry]" by auto
  with apply_cenotaph_etching_Some [OF this(1)] assms(1) DoCenotaphEtching show ?thesis by simp
next
  case (DoMint rid m r)
  with assms(3) obtain e where "apply_mint rid m r c = Some (e, c')" and "es = opt_list e" by auto
  with apply_mint_Some [OF this(1)] assms(1) DoMint show ?thesis by simp
next
  case (DoCenotaphMint rid m r)
  with assms(3) obtain e where "apply_cenotaph_mint rid m r c = Some (e, c')" and "es = opt_list e"
    by auto
  with apply_cenotaph_mint_Some [OF this(1)] assms(1) DoCenotaphMint show ?thesis by simp
next
  case (DoEdict e)
  with assms(3) have "apply_edict address_of e c = Some (es, c')" by simp
  with apply_edict_keeps [OF assms(1) this] DoEdict show ?thesis by simp
next
  case DoBurnInputs
  with assms(3) have "apply_cenotaph_input_burn it c = Some (es, c')" by simp
  with burn_keeps [OF this] DoBurnInputs show ?thesis by simp
next
  case DoAllocate
  with assms(3) have "allocate_remaining_balances address_of it c = Some (es, c')" by simp
  with allocate_keeps [OF assms(1,2) this] DoAllocate show ?thesis by simp
qed

interpretation actions: ledger_operation "run_action address_of it"
    "\<lambda>c. tc_ok c \<and> is_iteration it" tc_next_event tc_total action_credit
  for address_of :: "'s \<Rightarrow> network \<Rightarrow> ustr option" and it
  by unfold_locales (use run_action_keeps in blast)+

section \<open>The equal division\<close>

text \<open>What one output receives of a rune.\<close>

definition received_at :: "rune_id \<Rightarrow> u32 \<Rightarrow> ledger_entry list \<Rightarrow> nat" where
  "received_at rid out es = received rid (filter (\<lambda>e. le_output e = Some out) es)"

lemma received_at_simps [simp]:
  "received_at rid out [] = 0"
  "received_at rid out (es @ fs) = received_at rid out es + received_at rid out fs"
  by (simp_all add: received_at_def)

lemma received_at_output:
  assumes "list_all (\<lambda>e. le_operation e = OpReceive \<longrightarrow> le_output e = Some out') es"
  shows "received_at rid out es = (if out = out' then received rid es else 0)"
  using assms by (induction es) (auto simp: received_at_def)

lemma move_balance_at:
  assumes "move_balance address_of l (Some out') rid inputs outputs amount idx = Some (es, rest, idx')"
  shows "received_at i out es = (if out = out' then received i es else 0)"
proof -
  have "list_all (\<lambda>e. le_operation e = OpReceive \<longrightarrow> le_output e = Some out') es"
    by (rule move_balance_cases [OF assms]) (auto simp: list_all_iff)
  then show ?thesis by (rule received_at_output)
qed

lemma move_each_at:
  assumes "move_each address_of l rid outputs dests inputs idx = Some (es, rest, idx')"
    and "out \<notin> fst ` set dests"
  shows "received_at i out es = 0"
  using assms
proof (induction address_of l rid outputs dests inputs idx arbitrary: es rule: move_each.induct)
  case (2 address_of l rid outputs out' amount dests inputs idx)
  then obtain e1 r1 i1 e2 where m: "move_balance address_of l (Some out') rid inputs outputs amount idx = Some (e1, r1, i1)"
    and n: "move_each address_of l rid outputs dests r1 i1 = Some (e2, rest, idx')"
    and es: "es = e1 @ e2" by (auto simp: bind_eq_Some_conv)
  from "2.IH" [OF m refl refl n] "2.prems"(2) move_balance_at [OF m] show ?case by (simp add: es)
qed simp

lemma fst_split_amounts: "fst ` set (split_amounts per rem outs) = set outs"
  by (induction per rem outs rule: split_amounts.induct) (simp_all add: Let_def)

lemma move_each_split:
  assumes "move_each address_of l rid outputs (split_amounts per rem outs) inputs idx = Some (es, rest, idx')"
    and "balance_sum inputs = unat per * length outs + unat rem" "unat rem \<le> length outs"
    and "balance_sum inputs < 2 ^ 128" "list_all (\<lambda>b. ib_amount b \<noteq> 0) inputs" "distinct outs"
    and "\<And>out. out \<in> set outs \<Longrightarrow> receiver_of address_of l outputs (Some out) \<noteq> None"
  shows "balance_sum rest = 0 \<and>
    (\<forall>k < length outs. received_at rid (outs ! k) es = unat per + (if k < unat rem then 1 else 0))"
  using assms
proof (induction outs arbitrary: rem inputs idx es)
  case (Cons out outs)
  let ?extra = "if rem > 0 then 1 else 0 :: u128"
  let ?rem = "if rem > 0 then rem - 1 else rem"
  let ?e = "if unat rem > 0 then 1 else 0 :: nat"
  from Cons.prems(1) obtain e1 r1 i1 e2 where
    m: "move_balance address_of l (Some out) rid inputs outputs (per + ?extra) idx = Some (e1, r1, i1)"
    and n: "move_each address_of l rid outputs (split_amounts per ?rem outs) r1 i1 = Some (e2, rest, idx')"
    and es: "es = e1 @ e2" by (auto simp: bind_eq_Some_conv Let_def)
  have pos: "rem > 0 \<longleftrightarrow> unat rem > 0" by (simp add: word_less_nat_alt)
  have bound: "unat per + ?e \<le> balance_sum inputs"
    using Cons.prems(2,3) by (cases "unat rem = 0") auto
  have extra: "unat ?extra = ?e" by (simp add: pos)
  have a: "unat (per + ?extra) = unat per + ?e"
    using bound Cons.prems(4) extra by (subst unat_add_fits) auto
  have r: "unat ?rem = unat rem - ?e"
    by (cases "rem > 0") (simp_all add: pos unat_minus_one word_gt_0)
  have rec: "receiver_of address_of l outputs (Some out) \<noteq> None" using Cons.prems(7) by simp
  have mv: "moved (per + ?extra) (balance_sum inputs) = unat per + ?e"
  proof (cases "per + ?extra = 0")
    case True
    then have z: "unat per = 0" "?e = 0" using a by simp_all
    then have "balance_sum inputs = 0" using Cons.prems(2) by (auto split: if_splits)
    with z True show ?thesis by (simp add: moved_def)
  next
    case False
    then show ?thesis using a bound by (simp add: moved_def)
  qed
  note eq = move_balance_eq [OF m rec Cons.prems(4,5), unfolded mv]
  have bal: "balance_sum r1 = unat per * length outs + unat ?rem"
    using eq(2) Cons.prems(2) r by (auto split: if_splits)
  have IH: "balance_sum rest = 0 \<and>
      (\<forall>k < length outs. received_at rid (outs ! k) e2 = unat per + (if k < unat ?rem then 1 else 0))"
  proof (rule Cons.IH [OF n bal _ _ eq(3)])
    show "unat ?rem \<le> length outs" using r Cons.prems(3) by (auto split: if_splits)
    show "balance_sum r1 < 2 ^ 128" using eq(2) Cons.prems(4) by simp
    show "distinct outs" using Cons.prems(6) by simp
    show "receiver_of address_of l outputs (Some o') \<noteq> None" if "o' \<in> set outs" for o'
      using that Cons.prems(7) by simp
  qed
  have here: "received_at rid out es = unat per + ?e"
    using move_each_at [OF n, of out rid] move_balance_at [OF m, of rid out] eq(1) Cons.prems(6)
    by (simp add: es fst_split_amounts)
  have there: "received_at rid (outs ! k) es = unat per + (if Suc k < unat rem then 1 else 0)"
    if "k < length outs" for k
  proof -
    have "outs ! k \<noteq> out" using that Cons.prems(6) by (metis distinct.simps(2) nth_mem)
    then have "received_at rid (outs ! k) e1 = 0" using move_balance_at [OF m, of rid "outs ! k"] by simp
    moreover have "k < unat ?rem \<longleftrightarrow> Suc k < unat rem" using r by (auto split: if_splits)
    ultimately show ?thesis using IH that by (simp add: es)
  qed
  show ?case
    using IH here there by (auto simp: nth_Cons split: nat.split)
qed simp

section \<open>Properties\<close>

text \<open>
  C8. Whatever sequence of operations a transaction goes through, the outputs receive of each
  rune at most what the inputs held plus the premine of an etching in the transaction and the
  amounts of its valid mints, and the entries of all operations are numbered consecutively.
\<close>

theorem transaction_no_inflation:
  assumes "hm_distinct (tc_inputs c)" "is_iteration it"
    and "run_steps (run_action address_of it) actions c = Some (es, c')"
  shows "received i es + tc_total c' i \<le>
      tc_total c i + run_credit (run_action address_of it) action_credit actions c i \<and>
    numbered es (tc_next_event c) (tc_next_event c')"
proof -
  have ok: "tc_ok c \<and> is_iteration it" using assms(1,2) by (simp add: tc_ok_def)
  show ?thesis
    using actions.run_conserves [OF ok assms(3)] actions.run_numbered [OF ok assms(3)] by blast
qed

definition sample_cache :: "nat tx_cache" where
  "sample_cache =
     tx_cache_new sample_location [(RuneId 1 0, sample_inputs)] [(0, 98), (1, 0), (2, 99)] (Some 0) 4"

lemma transaction_no_inflation_witness:
  "\<exists>es c'. run_steps (run_action sample_address rev)
       [DoEdict \<lparr>ed_id = RuneId 1 0, ed_amount = 8, ed_output = 2\<rparr>, DoAllocate] sample_cache =
     Some (es, c') \<and> received (RuneId 1 0) es + tc_total c' (RuneId 1 0) \<le> 15"
proof -
  let ?acts = "[DoEdict \<lparr>ed_id = RuneId 1 0, ed_amount = 8, ed_output = 2\<rparr>, DoAllocate]"
  have d: "hm_distinct (tc_inputs sample_cache)"
    by (simp add: sample_cache_def tx_cache_new_def hm_distinct_def)
  have t: "tc_total sample_cache (RuneId 1 0) = 15"
    by (simp add: sample_cache_def tx_cache_new_def tc_total_def sample_inputs_def)
  obtain es c' where r: "run_steps (run_action sample_address rev) ?acts sample_cache = Some (es, c')"
    by (simp add: sample_cache_def tx_cache_new_def apply_edict_def edict_rune_def edict_moves_def
        allocate_remaining_balances_def move_balance_def sample_inputs_def receiver_of_def
        sample_address_def new_entry_def ledger_from_values_def sample_location_def lit_def
        slice_from_def min_def Let_def)
  have c: "run_credit (run_action sample_address rev) action_credit ?acts sample_cache (RuneId 1 0) = 0"
    by (auto split: option.split)
  from transaction_no_inflation [OF d is_iteration_rev r, of "RuneId 1 0"] r t c show ?thesis by auto
qed

text \<open>
  C15. An edict with amount zero and the output number one past the last divides what is left of
  its rune equally among the eligible outputs, in the order of their numbers: with \<open>n\<close> outputs
  and \<open>t\<close> units each receives \<open>t div n\<close>, the first \<open>t mod n\<close> one more, and nothing is left.
  Every eligible output must have an address, the balances must be positive, their sum below
  \<open>2 ^ 128\<close>.
\<close>

theorem edict_divides_equally:
  assumes "apply_edict address_of e c = Some (es, c')"
    and "ed_amount e = 0" "ed_output e = tc_total_outputs c" "edict_rune c e = Some rid"
    and "map_of (tc_inputs c) rid = Some available" "balance_sum available < 2 ^ 128"
    and "list_all (\<lambda>b. ib_amount b \<noteq> 0) available"
    and "tc_outputs c \<noteq> []" "hm_distinct (tc_outputs c)"
    and "\<And>out. out \<in> fst ` set (tc_outputs c) \<Longrightarrow>
      receiver_of address_of (tc_location c) (tc_outputs c) (Some out) \<noteq> None"
    and "length (tc_outputs c) < 2 ^ 32"
  shows "tc_total c' rid = 0 \<and>
    (\<forall>k < length (tc_outputs c).
       received_at rid (sort (map fst (tc_outputs c)) ! k) es =
         balance_sum available div length (tc_outputs c) +
           (if k < balance_sum available mod length (tc_outputs c) then 1 else 0))"
proof -
  let ?n = "length (tc_outputs c)" and ?t = "balance_sum available"
  let ?u = "sum_list (map ib_amount available)"
  have t: "unat ?u = ?t"
    using assms(6)
  proof (induction available)
    case (Cons b bs)
    then show ?case by (simp add: unat_add_fits)
  qed simp
  have len: "unat (of_nat ?n :: u128) = ?n" using assms(11) by (simp add: unat_of_nat_small)
  have n: "0 < ?n" using assms(8) by simp
  let ?per = "?u div of_nat ?n" and ?rem = "?u mod of_nat ?n"
  have per: "unat ?per = ?t div ?n" and rem: "unat ?rem = ?t mod ?n"
    using t len by (simp_all add: unat_div unat_mod)
  from assms(1,4,5) obtain rest idx where
    m: "edict_moves address_of c e rid available = Some (es, rest, idx)"
    and c': "c' = c\<lparr>tc_next_event := idx, tc_inputs := AList.update rid rest (tc_inputs c)\<rparr>"
    by (auto simp: apply_edict_def bind_eq_Some_conv)
  have e: "move_each address_of (tc_location c) rid (tc_outputs c)
      (split_amounts ?per ?rem (sort (map fst (tc_outputs c)))) available (tc_next_event c) =
      Some (es, rest, idx)"
    using m assms(2,3,8) by (simp add: edict_moves_def Let_def)
  have s: "balance_sum rest = 0 \<and> (\<forall>k < length (sort (map fst (tc_outputs c))).
      received_at rid (sort (map fst (tc_outputs c)) ! k) es = unat ?per + (if k < unat ?rem then 1 else 0))"
  proof (rule move_each_split [OF e])
    show "?t = unat ?per * length (sort (map fst (tc_outputs c))) + unat ?rem"
      by (simp add: per rem)
    show "unat ?rem \<le> length (sort (map fst (tc_outputs c)))"
      using n by (simp add: rem less_imp_le)
    show "distinct (sort (map fst (tc_outputs c)))" using assms(9) by (simp add: hm_distinct_def)
    show "receiver_of address_of (tc_location c) (tc_outputs c) (Some out) \<noteq> None"
      if "out \<in> set (sort (map fst (tc_outputs c)))" for out
      using that assms(10) by simp
  qed (use assms(6,7) in simp_all)
  then show ?thesis
    by (simp add: c' tc_total_def hashmap per rem)
qed

definition split_cache :: "nat tx_cache" where
  "split_cache =
     tx_cache_new sample_location [(RuneId 1 0, sample_inputs)] [(2, 99), (0, 98)] (Some 0) 4"

lemma apply_edict_total:
  assumes "location_ok (tc_location c)"
  shows "apply_edict address_of e c \<noteq> None"
proof -
  have each: "move_each address_of (tc_location c) rid outputs dests inputs idx \<noteq> None"
    for rid outputs dests inputs idx
  proof (induction dests arbitrary: inputs idx)
    case (Cons d dests)
    obtain es rest j where "move_balance address_of (tc_location c) (Some (fst d)) rid inputs outputs
        (snd d) idx = Some (es, rest, j)"
      using move_balance_total [OF assms] by (metis not_None_eq prod_cases3)
    with Cons [of rest j] show ?case by (cases d) auto
  qed simp
  have m: "edict_moves address_of c e rid available \<noteq> None" for rid available
    by (rule edict_moves_cases [of address_of c e rid available])
      (simp_all only: move_balance_total [OF assms] each not_False_eq_True)
  show ?thesis
  proof (cases "edict_rune c e")
    case (Some rid)
    note r = this
    show ?thesis
    proof (cases "map_of (tc_inputs c) rid")
      case (Some available)
      obtain es rest idx where "edict_moves address_of c e rid available = Some (es, rest, idx)"
        using m [of rid available] by (metis not_None_eq prod_cases3)
      with r Some show ?thesis by (simp add: apply_edict_def)
    qed (simp add: apply_edict_def r)
  qed (simp add: apply_edict_def)
qed

lemma edict_divides_equally_witness:
  "\<exists>es c'. apply_edict sample_address \<lparr>ed_id = RuneId 1 0, ed_amount = 0, ed_output = 4\<rparr> split_cache =
     Some (es, c') \<and> tc_total c' (RuneId 1 0) = 0 \<and>
   received_at (RuneId 1 0) 0 es = 8 \<and> received_at (RuneId 1 0) 2 es = 7"
proof -
  let ?e = "\<lparr>ed_id = RuneId 1 0, ed_amount = 0, ed_output = 4\<rparr>"
  have "location_ok (tc_location split_cache)"
    by (simp add: split_cache_def tx_cache_new_def location_ok_def sample_location_def lit_def)
  from apply_edict_total [OF this, of sample_address ?e]
  obtain es c' where a: "apply_edict sample_address ?e split_cache = Some (es, c')" by fastforce
  note defs = split_cache_def tx_cache_new_def
  have "tc_total c' (RuneId 1 0) = 0 \<and>
    (\<forall>k < length (tc_outputs split_cache).
       received_at (RuneId 1 0) (sort (map fst (tc_outputs split_cache)) ! k) es =
         balance_sum sample_inputs div length (tc_outputs split_cache) +
           (if k < balance_sum sample_inputs mod length (tc_outputs split_cache) then 1 else 0))"
    by (rule edict_divides_equally [OF a])
      (auto simp: defs edict_rune_def sample_inputs_def hm_distinct_def receiver_of_def sample_address_def)
  moreover have "(15 :: nat) div Suc (Suc 0) = 7" "(15 :: nat) mod Suc (Suc 0) = 1"
    by (simp_all flip: numeral_2_eq_2)
  ultimately show ?thesis using a by (simp add: defs sample_inputs_def all_less_two)
qed

end
