(* ===== verification/Versioned_Table.thy ===== *)
theory Versioned_Table
  imports Prelude
begin

text \<open>
  Tables that keep one row per key and block height, such as \<open>supply_changes\<close> and
  \<open>balance_changes\<close> (\<^verbatim>\<open>migrations/\<close>), and the two statements the program runs on them
  (\<^verbatim>\<open>src/db/mod.rs\<close>): the insertion of a list of changes, each added to the newest row of its
  key (\<open>SELECT DISTINCT ON (key) ... ORDER BY block_height DESC\<close> before
  \<open>INSERT ... ON CONFLICT (key, block_height) DO UPDATE\<close>), and the deletion of a height. The
  key, the height and the way a change is added are parameters. Main facts: afterwards the
  newest row of each changed key is the old one with the change added, every other key is as
  before, the order of the changes does not matter, and deleting the height again gives the
  table back.
\<close>

section \<open>Rows\<close>

fun latest_of :: "('r \<Rightarrow> nat) \<Rightarrow> 'r list \<Rightarrow> 'r option" where
  "latest_of height [] = None"
| "latest_of height (r # rs) =
     (case latest_of height rs of
        None \<Rightarrow> Some r
      | Some q \<Rightarrow> Some (if height r < height q then q else r))"

definition latest :: "('r \<Rightarrow> 'k) \<Rightarrow> ('r \<Rightarrow> nat) \<Rightarrow> 'r list \<Rightarrow> 'k \<Rightarrow> 'r option" where
  "latest key height tbl k = latest_of height (filter (\<lambda>r. key r = k) tbl)"

definition upsert_row :: "('r \<Rightarrow> 'k) \<Rightarrow> ('r \<Rightarrow> nat) \<Rightarrow> 'r \<Rightarrow> 'r list \<Rightarrow> 'r list" where
  "upsert_row key height row tbl =
     (if list_ex (\<lambda>r. key r = key row \<and> height r = height row) tbl
      then map (\<lambda>r. if key r = key row \<and> height r = height row then row else r) tbl
      else tbl @ [row])"

text \<open>
  One statement: the previous rows are read before any row is written, and a statement that
  would write one row twice is an error (\<open>None\<close>).
\<close>

definition insert_changes ::
    "('r \<Rightarrow> 'k) \<Rightarrow> ('r \<Rightarrow> nat) \<Rightarrow> ('c \<Rightarrow> 'k) \<Rightarrow> ('r option \<Rightarrow> 'c \<Rightarrow> 'r) \<Rightarrow> 'c list \<Rightarrow> 'r list \<Rightarrow> 'r list option" where
  "insert_changes key height change_key add changes tbl =
     (let rows = map (\<lambda>c. add (latest key height tbl (change_key c)) c) changes in
      if distinct (map (\<lambda>r. (key r, height r)) rows)
      then Some (fold (upsert_row key height) rows tbl)
      else None)"

fun insert_chunks ::
    "('r \<Rightarrow> 'k) \<Rightarrow> ('r \<Rightarrow> nat) \<Rightarrow> ('c \<Rightarrow> 'k) \<Rightarrow> ('r option \<Rightarrow> 'c \<Rightarrow> 'r) \<Rightarrow> 'c list list \<Rightarrow> 'r list \<Rightarrow> 'r list option" where
  "insert_chunks key height change_key add [] tbl = Some tbl"
| "insert_chunks key height change_key add (cs # css) tbl =
     do {
       tbl \<leftarrow> insert_changes key height change_key add cs tbl;
       insert_chunks key height change_key add css tbl
     }"

definition delete_height :: "('r \<Rightarrow> nat) \<Rightarrow> nat \<Rightarrow> 'r list \<Rightarrow> 'r list" where
  "delete_height height h tbl = filter (\<lambda>r. height r \<noteq> h) tbl"

section \<open>The newest row\<close>

lemma find_SomeD: "find P xs = Some x \<Longrightarrow> P x \<and> x \<in> set xs"
  by (induction xs) (auto split: if_splits)

lemma find_NoneI: "(\<And>x. x \<in> set xs \<Longrightarrow> \<not> P x) \<Longrightarrow> find P xs = None"
  by (induction xs) auto

lemma find_append_case:
  "find P (xs @ ys) = (case find P xs of None \<Rightarrow> find P ys | Some x \<Rightarrow> Some x)"
  by (induction xs) simp_all

lemma latest_of_None: "latest_of height rs = None \<longleftrightarrow> rs = []"
  by (cases rs) (auto split: option.split)

lemma latest_of_in: "latest_of height rs = Some r \<Longrightarrow> r \<in> set rs"
  by (induction rs arbitrary: r) (auto split: option.splits if_splits)

lemma latest_of_ge: "r \<in> set rs \<Longrightarrow> latest_of height rs = Some q \<Longrightarrow> height r \<le> height q"
proof (induction rs arbitrary: q)
  case (Cons x rs)
  then show ?case
    by (cases "latest_of height rs") (auto simp: latest_of_None not_less split: if_splits dest: order_trans less_imp_le)
qed simp

text \<open>Rows that are not above some row do not matter.\<close>

lemma latest_of_filter:
  assumes "r \<in> set rs" "n < height r" "\<forall>x. n < height x \<longrightarrow> P x"
  shows "latest_of height (filter P rs) = latest_of height rs"
  using assms(1,2)
proof (induction rs arbitrary: r)
  case (Cons x rs)
  show ?case
  proof (cases "\<exists>y \<in> set rs. n < height y")
    case True
    then obtain y where y: "y \<in> set rs" "n < height y" by blast
    then obtain q where q: "latest_of height rs = Some q"
      using latest_of_None [of height rs] by (cases "latest_of height rs") auto
    have "\<not> P x \<Longrightarrow> height x < height q"
      using assms(3) latest_of_ge [of y rs height q] y q by (meson le_less_trans less_le_trans not_less)
    with Cons.IH [OF y] q show ?thesis by simp
  next
    case False
    with Cons.prems have x: "n < height x" by auto
    have low: "height q < height x" if "latest_of height rs' = Some q" "set rs' \<subseteq> set rs" for rs' q
      using latest_of_in [OF that(1)] that(2) False x by fastforce
    have "latest_of height (x # rs') = Some x" if "set rs' \<subseteq> set rs" for rs'
      using low [OF _ that] by (cases "latest_of height rs'") fastforce+
    with assms(3) x show ?thesis by (simp del: latest_of.simps)
  qed
qed simp

lemma latest_of_max:
  assumes "row \<in> set rs" "\<And>r. r \<in> set rs \<Longrightarrow> height r < height row \<or> r = row"
  shows "latest_of height rs = Some row"
  using assms
proof (induction rs)
  case (Cons r rs)
  show ?case
  proof (cases "row \<in> set rs")
    case True
    then have "latest_of height rs = Some row" using Cons by simp
    moreover have "height r < height row \<or> r = row" using Cons.prems(2) by simp
    ultimately show ?thesis by auto
  next
    case False
    with Cons.prems(1) have r: "r = row" by simp
    show ?thesis
    proof (cases "latest_of height rs")
      case (Some q)
      then have "q \<in> set rs" by (rule latest_of_in)
      then have "height q < height row" using Cons.prems(2) False by auto
      then show ?thesis by (simp add: Some r)
    qed (simp add: r)
  qed
qed simp

lemma upsert_row_set:
  "set (upsert_row key height row tbl) =
     insert row {r \<in> set tbl. \<not> (key r = key row \<and> height r = height row)}"
  by (auto simp: upsert_row_def list_ex_iff)

lemma latest_upsert:
  assumes "\<And>r. r \<in> set tbl \<Longrightarrow> key r = key row \<Longrightarrow> height r \<le> height row"
  shows "latest key height (upsert_row key height row tbl) (key row) = Some row"
  unfolding latest_def
proof (rule latest_of_max)
  show "row \<in> set (filter (\<lambda>r. key r = key row) (upsert_row key height row tbl))"
    by (simp add: upsert_row_set)
  show "height r < height row \<or> r = row"
    if "r \<in> set (filter (\<lambda>r. key r = key row) (upsert_row key height row tbl))" for r
    using that assms [of r] by (auto simp: upsert_row_set)
qed

lemma filter_map_other:
  "(\<And>r. r \<in> set xs \<Longrightarrow> P (f r) \<longleftrightarrow> P r) \<Longrightarrow> (\<And>r. r \<in> set xs \<Longrightarrow> P r \<Longrightarrow> f r = r) \<Longrightarrow>
   filter P (map f xs) = filter P xs"
  by (induction xs) auto

lemma latest_upsert_other:
  "k \<noteq> key row \<Longrightarrow> latest key height (upsert_row key height row tbl) k = latest key height tbl k"
  unfolding latest_def upsert_row_def by (auto simp: filter_map_other)

lemma latest_fold_upsert:
  assumes "distinct (map key rows)"
    and "\<And>r row. r \<in> set tbl \<Longrightarrow> row \<in> set rows \<Longrightarrow> key r = key row \<Longrightarrow> height r \<le> height row"
  shows "latest key height (fold (upsert_row key height) rows tbl) k =
    (case find (\<lambda>r. key r = k) rows of Some row \<Rightarrow> Some row | None \<Rightarrow> latest key height tbl k)"
  using assms
proof (induction rows arbitrary: tbl)
  case (Cons row rows)
  let ?t = "upsert_row key height row tbl"
  have d: "distinct (map key rows)" and notin: "key row \<notin> key ` set rows" using Cons.prems(1) by simp_all
  have "latest key height (fold (upsert_row key height) rows ?t) k =
      (case find (\<lambda>r. key r = k) rows of Some row \<Rightarrow> Some row | None \<Rightarrow> latest key height ?t k)"
  proof (rule Cons.IH [OF d])
    fix r row' assume "r \<in> set ?t" "row' \<in> set rows" "key r = key row'"
    then show "height r \<le> height row'"
      using Cons.prems(2) notin by (auto simp: upsert_row_set)
  qed
  moreover have "find (\<lambda>r. key r = key row) rows = None"
    using notin by (intro find_NoneI) (metis image_eqI)
  moreover have "latest key height ?t (key row) = Some row"
    using Cons.prems(2) by (intro latest_upsert) simp
  ultimately show ?case
    by (cases "k = key row"; cases "find (\<lambda>r. key r = k) rows") (auto simp: latest_upsert_other)
qed simp

section \<open>A statement and its chunks\<close>

text \<open>What a list of changes does to the newest row of a key.\<close>

definition changed ::
    "('c \<Rightarrow> 'k) \<Rightarrow> ('r option \<Rightarrow> 'c \<Rightarrow> 'r) \<Rightarrow> 'c list \<Rightarrow> ('k \<Rightarrow> 'r option) \<Rightarrow> 'k \<Rightarrow> 'r option" where
  "changed change_key add changes m k =
     (case find (\<lambda>c. change_key c = k) changes of Some c \<Rightarrow> Some (add (m k) c) | None \<Rightarrow> m k)"

text \<open>
  The contract between a table and the changes made to it at one height: a change writes the
  row of its own key at its own height, and no row of the table is above that height.
\<close>

locale height_changes =
  fixes key :: "'r \<Rightarrow> 'k" and height :: "'r \<Rightarrow> nat"
    and change_key :: "'c \<Rightarrow> 'k" and change_height :: "'c \<Rightarrow> nat"
    and add :: "'r option \<Rightarrow> 'c \<Rightarrow> 'r"
  assumes add_key: "key (add p c) = change_key c"
    and add_height: "height (add p c) = change_height c"
begin

lemma insert_changes_latest:
  assumes "distinct (map change_key cs)" "\<And>c. c \<in> set cs \<Longrightarrow> change_height c = h"
    and "\<And>r. r \<in> set tbl \<Longrightarrow> height r \<le> h"
  obtains tbl' where "insert_changes key height change_key add cs tbl = Some tbl'"
    "latest key height tbl' = changed change_key add cs (latest key height tbl)"
    "\<And>r. r \<in> set tbl' \<Longrightarrow> height r \<le> h"
    "delete_height height h tbl' = delete_height height h tbl"
proof -
  let ?rows = "map (\<lambda>c. add (latest key height tbl (change_key c)) c) cs"
  let ?tbl = "fold (upsert_row key height) ?rows tbl"
  have k: "map key ?rows = map change_key cs" by (simp add: add_key)
  have dk: "distinct (map key ?rows)" unfolding k by (rule assms(1))
  have "distinct (map fst (map (\<lambda>r. (key r, height r)) ?rows))" using dk by (simp add: comp_def)
  then have "distinct (map (\<lambda>r. (key r, height r)) ?rows)" by (simp only: distinct_map)
  then have i: "insert_changes key height change_key add cs tbl = Some ?tbl"
    by (simp add: insert_changes_def Let_def comp_def)
  have rows_h: "height row = h" if "row \<in> set ?rows" for row
    using that assms(2) by (auto simp: add_height)
  have "find (\<lambda>r. key r = k) ?rows =
      map_option (\<lambda>c. add (latest key height tbl (change_key c)) c) (find (\<lambda>c. change_key c = k) cs)" for k
    by (induction cs) (simp_all add: add_key)
  then have l: "latest key height ?tbl = changed change_key add cs (latest key height tbl)"
    using latest_fold_upsert [OF dk, of tbl height] rows_h assms(3)
    by (auto simp: fun_eq_iff changed_def split: option.splits dest!: find_SomeD)
  have b: "height r \<le> h" if "r \<in> set (fold (upsert_row key height) rs t)"
      "\<And>x. x \<in> set rs \<Longrightarrow> height x = h" "\<And>x. x \<in> set t \<Longrightarrow> height x \<le> h" for r rs t
    using that by (induction rs arbitrary: t) (auto simp: upsert_row_set, fastforce simp: upsert_row_set)
  have d1: "delete_height height h (upsert_row key height x t) = delete_height height h t"
    if "height x = h" for x t
  proof -
    have "filter (\<lambda>r. height r \<noteq> h) (map (\<lambda>r. if key r = key x \<and> height r = height x then x else r) t) =
        filter (\<lambda>r. height r \<noteq> h) t"
      by (rule filter_map_other) (use that in auto)
    then show ?thesis using that by (simp add: delete_height_def upsert_row_def)
  qed
  have d: "delete_height height h (fold (upsert_row key height) rs t) = delete_height height h t"
    if "\<And>x. x \<in> set rs \<Longrightarrow> height x = h" for rs t
    using that by (induction rs arbitrary: t) (simp_all add: d1)
  show thesis
  proof (rule that [OF i l])
    show "height r \<le> h" if "r \<in> set ?tbl" for r using b [OF that rows_h assms(3)] .
    show "delete_height height h ?tbl = delete_height height h tbl" by (rule d) (rule rows_h)
  qed
qed

lemma insert_chunks_latest:
  assumes "distinct (map change_key (concat css))" "\<And>c. c \<in> set (concat css) \<Longrightarrow> change_height c = h"
    and "\<And>r. r \<in> set tbl \<Longrightarrow> height r \<le> h"
  shows "\<exists>tbl'. insert_chunks key height change_key add css tbl = Some tbl' \<and>
    latest key height tbl' = changed change_key add (concat css) (latest key height tbl) \<and>
    (\<forall>r \<in> set tbl'. height r \<le> h) \<and> delete_height height h tbl' = delete_height height h tbl"
  using assms
proof (induction css arbitrary: tbl)
  case Nil
  then show ?case by (auto simp: changed_def fun_eq_iff)
next
  case (Cons cs css)
  obtain t1 where t1: "insert_changes key height change_key add cs tbl = Some t1"
    "latest key height t1 = changed change_key add cs (latest key height tbl)"
    "\<And>r. r \<in> set t1 \<Longrightarrow> height r \<le> h" "delete_height height h t1 = delete_height height h tbl"
    using Cons.prems by (auto intro: insert_changes_latest [of cs h tbl])
  obtain t2 where t2: "insert_chunks key height change_key add css t1 = Some t2"
    "latest key height t2 = changed change_key add (concat css) (latest key height t1)"
    "\<forall>r \<in> set t2. height r \<le> h" "delete_height height h t2 = delete_height height h t1"
    using Cons.IH [of t1] Cons.prems t1(3) by auto
  have "changed change_key add (concat css) (changed change_key add cs m) k =
      changed change_key add (cs @ concat css) m k" for m k
  proof (cases "find (\<lambda>c. change_key c = k) cs")
    case None
    then have "changed change_key add cs m k = m k" by (simp add: changed_def)
    with None show ?thesis
      by (simp only: changed_def [of _ _ "concat css"] changed_def [of _ _ "cs @ concat css"]
          find_append_case option.case)
  next
    case (Some c)
    then have c: "c \<in> set cs" "change_key c = k" by (auto dest: find_SomeD)
    have "change_key x \<noteq> k" if "x \<in> set (concat css)" for x
      using Cons.prems(1) c that by (auto simp del: set_concat)
    then have "find (\<lambda>c. change_key c = k) (concat css) = None" by (rule find_NoneI)
    with Some show ?thesis by (simp add: changed_def find_append_case)
  qed
  then have "latest key height t2 = changed change_key add (concat (cs # css)) (latest key height tbl)"
    by (simp add: t2(2) t1(2) fun_eq_iff)
  with t1 t2 show ?case by auto
qed

text \<open>The order of the changes does not matter.\<close>

lemma changed_permute:
  assumes "distinct (map change_key cs)" "mset cs = mset ds"
  shows "changed change_key add cs = changed change_key add ds"
proof -
  have s: "set cs = set ds" by (metis assms(2) set_mset_mset)
  have dd: "distinct (map change_key ds)"
    by (metis assms mset_eq_imp_distinct_iff mset_map)
  have "find (\<lambda>c. change_key c = k) cs = find (\<lambda>c. change_key c = k) ds" for k
  proof (cases "find (\<lambda>c. change_key c = k) cs")
    case None
    then have "find (\<lambda>c. change_key c = k) ds = None" by (simp add: find_None_iff s)
    with None show ?thesis by simp
  next
    case (Some c)
    then have c: "c \<in> set ds" "change_key c = k" using s by (auto dest: find_SomeD)
    then obtain c' where c': "find (\<lambda>c. change_key c = k) ds = Some c'"
      by (cases "find (\<lambda>c. change_key c = k) ds") (auto simp: find_None_iff)
    then have "c' \<in> set ds" "change_key c' = k" by (auto dest: find_SomeD)
    with c dd have "c' = c" by (auto simp: distinct_map inj_on_def)
    with Some c' show ?thesis by simp
  qed
  then show ?thesis by (simp add: changed_def fun_eq_iff)
qed

end

end
