(* ===== verification/Database.thy ===== *)
theory Database
  imports Versioned_Table Ledger_Models
begin

text \<open>
  The tables of the Postgres database (\<^verbatim>\<open>migrations/\<close>) and the statements of
  \<^verbatim>\<open>src/db/mod.rs\<close>. A table is a list of rows; a \<open>NUMERIC\<close> column is an unbounded number.
  \<open>None\<close> is a failed statement, on which the program exits, or a panic while reading a row.

  What the order of rows in an answer is, where a query does not say, is the parameter
  \<open>row_order\<close>.
\<close>

section \<open>Tables\<close>

record supply_row =
  su_rune_id :: ustr
  su_block_height :: nat
  su_minted :: nat
  su_total_mints :: nat
  su_burned :: nat
  su_total_burns :: nat
  su_total_operations :: nat

record balance_row =
  br_rune_id :: ustr
  br_block_height :: nat
  br_address :: ustr
  br_balance :: int
  br_total_operations :: nat

record database =
  db_runes :: "db_rune list"
  db_supply :: "supply_row list"
  db_ledger :: "ledger_entry list"
  db_balances :: "balance_row list"
  db_height :: nat

section \<open>Insertions\<close>

text \<open>
  \<open>runes\<close> has unique ids, numbers, names and spaced names; a conflict on the name skips the
  row, any other fails. The column \<open>cenotaph\<close> is not among the inserted ones and takes its
  default.
\<close>

fun insert_rune_rows :: "db_rune list \<Rightarrow> db_rune list \<Rightarrow> db_rune list option" where
  "insert_rune_rows [] tbl = Some tbl"
| "insert_rune_rows (r # rs) tbl =
     (if list_ex (\<lambda>q. dr_name q = dr_name r) tbl then insert_rune_rows rs tbl
      else if list_ex (\<lambda>q. dr_id q = dr_id r \<or> dr_number q = dr_number r \<or>
        dr_spaced_name q = dr_spaced_name r) tbl
      then None
      else insert_rune_rows rs (tbl @ [r\<lparr>dr_cenotaph := False\<rparr>]))"

fun insert_rune_chunks :: "db_rune list list \<Rightarrow> db_rune list \<Rightarrow> db_rune list option" where
  "insert_rune_chunks [] tbl = Some tbl"
| "insert_rune_chunks (rs # rss) tbl =
     do { tbl \<leftarrow> insert_rune_rows rs tbl; insert_rune_chunks rss tbl }"

definition pg_insert_runes :: "db_rune list \<Rightarrow> database \<Rightarrow> database option" where
  "pg_insert_runes rows db =
     do {
       tbl \<leftarrow> insert_rune_chunks (chunks 500 rows) (db_runes db);
       Some (db\<lparr>db_runes := tbl\<rparr>)
     }"

definition supply_add :: "supply_row option \<Rightarrow> supply_change \<Rightarrow> supply_row" where
  "supply_add p c =
     \<lparr>su_rune_id = sc_rune_id c, su_block_height = unat (sc_block_height c),
      su_minted = unwrap_or 0 (map_option su_minted p) + unat (sc_minted c),
      su_total_mints = unwrap_or 0 (map_option su_total_mints p) + unat (sc_total_mints c),
      su_burned = unwrap_or 0 (map_option su_burned p) + unat (sc_burned c),
      su_total_burns = unwrap_or 0 (map_option su_total_burns p) + unat (sc_total_burns c),
      su_total_operations =
        unwrap_or 0 (map_option su_total_operations p) + unat (sc_total_operations c)\<rparr>"

definition pg_insert_supply_changes :: "supply_change list \<Rightarrow> database \<Rightarrow> database option" where
  "pg_insert_supply_changes rows db =
     do {
       tbl \<leftarrow> insert_chunks su_rune_id su_block_height sc_rune_id supply_add (chunks 500 rows)
         (db_supply db);
       Some (db\<lparr>db_supply := tbl\<rparr>)
     }"

definition balance_key :: "balance_row \<Rightarrow> ustr \<times> ustr" where
  "balance_key r = (br_rune_id r, br_address r)"

definition balance_change_key :: "balance_change \<Rightarrow> ustr \<times> ustr" where
  "balance_change_key c = (bc_rune_id c, bc_address c)"

definition balance_add :: "bool \<Rightarrow> balance_row option \<Rightarrow> balance_change \<Rightarrow> balance_row" where
  "balance_add increase p c =
     \<lparr>br_rune_id = bc_rune_id c, br_block_height = unat (bc_block_height c),
      br_address = bc_address c,
      br_balance =
        (let b = unwrap_or 0 (map_option br_balance p)
         in if increase then b + int (unat (bc_balance c)) else b - int (unat (bc_balance c))),
      br_total_operations =
        unwrap_or 0 (map_option br_total_operations p) + unat (bc_total_operations c)\<rparr>"

definition pg_insert_balance_changes ::
    "balance_change list \<Rightarrow> bool \<Rightarrow> database \<Rightarrow> database option" where
  "pg_insert_balance_changes rows increase db =
     do {
       tbl \<leftarrow> insert_chunks balance_key br_block_height balance_change_key (balance_add increase)
         (chunks 500 rows) (db_balances db);
       Some (db\<lparr>db_balances := tbl\<rparr>)
     }"

definition pg_insert_ledger_entries :: "ledger_entry list \<Rightarrow> database \<Rightarrow> database" where
  "pg_insert_ledger_entries rows db =
     db\<lparr>db_ledger := db_ledger db @ concat (chunks 500 rows)\<rparr>"

section \<open>Roll back\<close>

definition pg_roll_back_block :: "u64 \<Rightarrow> database \<Rightarrow> database" where
  "pg_roll_back_block h db =
     db\<lparr>db_balances := delete_height br_block_height (unat h) (db_balances db),
        db_supply := delete_height su_block_height (unat h) (db_supply db),
        db_ledger := delete_height (unat \<circ> le_block_height) (unat h) (db_ledger db),
        db_runes := delete_height (unat \<circ> dr_block_height) (unat h) (db_runes db)\<rparr>"

section \<open>Queries\<close>

text \<open>\<open>MAX\<close> of no rows is \<open>NULL\<close>, which the code cannot read into a number.\<close>

definition pg_get_max_rune_number :: "database \<Rightarrow> u32 option" where
  "pg_get_max_rune_number db =
     (case map dr_number (db_runes db) of [] \<Rightarrow> None | n # ns \<Rightarrow> Some (fold max ns n))"

definition pg_get_block_height :: "database \<Rightarrow> u64 option" where
  "pg_get_block_height db =
     (case map le_block_height (db_ledger db) of [] \<Rightarrow> None | n # ns \<Rightarrow> Some (fold max ns n))"

definition pg_get_last_block_height :: "database \<Rightarrow> u64 option" where
  "pg_get_last_block_height db = Some (of_nat (db_height db))"

definition pg_get_rune_by_id :: "rune_id \<Rightarrow> database \<Rightarrow> db_rune option" where
  "pg_get_rune_by_id i db = find (\<lambda>r. dr_id r = rune_id_to_string i) (db_runes db)"

text \<open>A number of more than 128 bits is read modulo \<open>2 ^ 128\<close> (\<^verbatim>\<open>pg_numeric_u128.rs\<close>).\<close>

definition pg_get_rune_total_mints :: "rune_id \<Rightarrow> database \<Rightarrow> u128 option" where
  "pg_get_rune_total_mints i db =
     map_option (of_nat \<circ> su_total_mints)
       (latest su_rune_id su_block_height (db_supply db) (rune_id_to_string i))"

definition pg_update_block_height :: "u64 \<Rightarrow> database \<Rightarrow> database" where
  "pg_update_block_height h db = db\<lparr>db_height := unat h\<rparr>"

type_synonym rune_balances = "(rune_id, input_balance list) hashmap"

text \<open>The rows of the join, one for each receive entry and each input it belongs to.\<close>

definition input_rows ::
    "(u32 \<times> ustr \<times> u32) list \<Rightarrow> database \<Rightarrow> (u32 \<times> ledger_entry) list" where
  "input_rows outputs db =
     concat (map (\<lambda>l. if le_operation l = OpReceive
       then map (\<lambda>(i, _). (i, l))
         (filter (\<lambda>(i, txid, out). le_tx_id l = txid \<and> le_output l = Some out) outputs)
       else []) (db_ledger db))"

definition add_balance :: "rune_id \<Rightarrow> input_balance \<Rightarrow> rune_balances \<Rightarrow> rune_balances" where
  "add_balance rid b m = hm_upsert rid (\<lambda>bs. bs @ [b]) [b] m"

fun collect_rows ::
    "(u32 \<times> ledger_entry) list \<Rightarrow> (u32, rune_balances) hashmap \<Rightarrow> (u32, rune_balances) hashmap option" where
  "collect_rows [] results = Some results"
| "collect_rows ((i, l) # rows) results =
     do {
       rid \<leftarrow> (case rune_id_from_str (le_rune_id l) of Inl _ \<Rightarrow> None | Inr rid \<Rightarrow> Some rid);
       amount \<leftarrow> le_amount l;
       let b = \<lparr>ib_address = le_address l, ib_amount = amount\<rparr>;
       collect_rows rows (hm_upsert i (add_balance rid b) [(rid, [b])] results)
     }"

text \<open>
  One statement with three parameters for each output; it fails, and the program exits, when
  the list after \<open>VALUES\<close> is empty or the server refuses so many parameters (\<open>bind_limit\<close>, 65535
  in the protocol).
\<close>

definition pg_get_input_rune_balances ::
    "((u32 \<times> ledger_entry) list \<Rightarrow> (u32 \<times> ledger_entry) list) \<Rightarrow> nat \<Rightarrow> (u32 \<times> ustr \<times> u32) list
     \<Rightarrow> database \<Rightarrow> (u32, rune_balances) hashmap option" where
  "pg_get_input_rune_balances row_order bind_limit outputs db =
     (if outputs = [] \<or> 3 * length outputs > bind_limit then None
      else collect_rows (row_order (input_rows outputs db)) [])"

section \<open>The tables as tables of changes\<close>

interpretation supply_tbl: height_changes su_rune_id su_block_height sc_rune_id
    "\<lambda>c. unat (sc_block_height c)" supply_add
  by unfold_locales (simp_all add: supply_add_def)

interpretation balance_tbl: height_changes balance_key br_block_height balance_change_key
    "\<lambda>c. unat (bc_block_height c)" "balance_add increase" for increase
  by unfold_locales (simp_all add: balance_add_def balance_key_def balance_change_key_def)

definition supply_of :: "database \<Rightarrow> ustr \<Rightarrow> supply_row option" where
  "supply_of db = latest su_rune_id su_block_height (db_supply db)"

definition balance_of :: "database \<Rightarrow> ustr \<times> ustr \<Rightarrow> balance_row option" where
  "balance_of db = latest balance_key br_block_height (db_balances db)"

text \<open>No row is above height \<open>h\<close>.\<close>

definition heights_le :: "nat \<Rightarrow> database \<Rightarrow> bool" where
  "heights_le h db \<longleftrightarrow>
     (\<forall>r \<in> set (db_supply db). su_block_height r \<le> h) \<and>
     (\<forall>r \<in> set (db_balances db). br_block_height r \<le> h)"

lemma supply_insert:
  assumes "distinct (map sc_rune_id rows)" "\<And>c. c \<in> set rows \<Longrightarrow> unat (sc_block_height c) = h"
    and "heights_le h db"
  obtains db' where "pg_insert_supply_changes rows db = Some db'"
    "supply_of db' = changed sc_rune_id supply_add rows (supply_of db)"
    "heights_le h db'" "delete_height su_block_height h (db_supply db') = delete_height su_block_height h (db_supply db)"
    "db' = db\<lparr>db_supply := db_supply db'\<rparr>"
proof -
  have c: "concat (chunks 500 rows) = rows" by (rule concat_chunks) simp
  obtain tbl where "insert_chunks su_rune_id su_block_height sc_rune_id supply_add (chunks 500 rows)
      (db_supply db) = Some tbl"
    "latest su_rune_id su_block_height tbl = changed sc_rune_id supply_add rows (supply_of db)"
    "\<forall>r \<in> set tbl. su_block_height r \<le> h"
    "delete_height su_block_height h tbl = delete_height su_block_height h (db_supply db)"
    using supply_tbl.insert_chunks_latest [of "chunks 500 rows" h "db_supply db"] assms
    unfolding c supply_of_def heights_le_def by auto
  then show thesis
    using assms(3) by (intro that [of "db\<lparr>db_supply := tbl\<rparr>"])
      (simp_all add: pg_insert_supply_changes_def supply_of_def heights_le_def)
qed

lemma balance_insert:
  assumes "distinct (map balance_change_key rows)" "\<And>c. c \<in> set rows \<Longrightarrow> unat (bc_block_height c) = h"
    and "heights_le h db"
  obtains db' where "pg_insert_balance_changes rows increase db = Some db'"
    "balance_of db' = changed balance_change_key (balance_add increase) rows (balance_of db)"
    "heights_le h db'" "delete_height br_block_height h (db_balances db') = delete_height br_block_height h (db_balances db)"
    "db' = db\<lparr>db_balances := db_balances db'\<rparr>"
proof -
  have c: "concat (chunks 500 rows) = rows" by (rule concat_chunks) simp
  obtain tbl where "insert_chunks balance_key br_block_height balance_change_key (balance_add increase)
      (chunks 500 rows) (db_balances db) = Some tbl"
    "latest balance_key br_block_height tbl =
      changed balance_change_key (balance_add increase) rows (balance_of db)"
    "\<forall>r \<in> set tbl. br_block_height r \<le> h"
    "delete_height br_block_height h tbl = delete_height br_block_height h (db_balances db)"
    using balance_tbl.insert_chunks_latest [of "chunks 500 rows" h "db_balances db" increase] assms
    unfolding c balance_of_def heights_le_def by auto
  then show thesis
    using assms(3) by (intro that [of "db\<lparr>db_balances := tbl\<rparr>"])
      (simp_all add: pg_insert_balance_changes_def balance_of_def heights_le_def)
qed

lemma ledger_insert: "db_ledger (pg_insert_ledger_entries rows db) = db_ledger db @ rows"
  using concat_chunks [of 500 rows] by (simp add: pg_insert_ledger_entries_def)

lemma insert_rune_rows_delete:
  assumes "insert_rune_rows rs tbl = Some tbl'" "\<And>r. r \<in> set rs \<Longrightarrow> unat (dr_block_height r) = h"
  shows "delete_height (unat \<circ> dr_block_height) h tbl' = delete_height (unat \<circ> dr_block_height) h tbl"
  using assms
proof (induction rs tbl rule: insert_rune_rows.induct)
  case (2 r rs tbl)
  then show ?case by (auto simp: delete_height_def split: if_splits)
qed simp

lemma insert_rune_chunks_delete:
  assumes "insert_rune_chunks rss tbl = Some tbl'" "\<And>r. r \<in> set (concat rss) \<Longrightarrow> unat (dr_block_height r) = h"
  shows "delete_height (unat \<circ> dr_block_height) h tbl' = delete_height (unat \<circ> dr_block_height) h tbl"
  using assms
proof (induction rss tbl rule: insert_rune_chunks.induct)
  case (2 rs rss tbl)
  then obtain t where t: "insert_rune_rows rs tbl = Some t" "insert_rune_chunks rss t = Some tbl'"
    by (auto simp: bind_eq_Some_conv)
  have "delete_height (unat \<circ> dr_block_height) h tbl' = delete_height (unat \<circ> dr_block_height) h t"
    by (rule "2.IH" [OF t]) (use "2.prems"(2) in auto)
  also have "\<dots> = delete_height (unat \<circ> dr_block_height) h tbl"
    by (rule insert_rune_rows_delete [OF t(1)]) (use "2.prems"(2) in auto)
  finally show ?case .
qed simp

end
