(* ===== verification/Db_Cache.thy ===== *)
theory Db_Cache
  imports Database
begin

text \<open>
  The rows that wait to be written (\<^verbatim>\<open>src/db/cache/db_cache.rs\<close>) and \<open>flush\<close>, which writes
  them. Main facts: after a flush the balance of every address is the old one plus what the
  cache adds and minus what it takes, supplies likewise, whatever order the hash maps are
  iterated in; and rolling back the flushed height removes exactly what was written.
\<close>

section \<open>Cache\<close>

type_synonym supply_changes = "(ustr, supply_change) hashmap"
type_synonym balance_changes = "(ustr \<times> ustr, balance_change) hashmap"

record db_cache =
  dc_runes :: "db_rune list"
  dc_ledger :: "ledger_entry list"
  dc_supply :: supply_changes
  dc_increases :: balance_changes
  dc_deductions :: balance_changes

definition db_cache_new :: db_cache where
  "db_cache_new =
     \<lparr>dc_runes = [], dc_ledger = [], dc_supply = [], dc_increases = [], dc_deductions = []\<rparr>"

text \<open>The orders in which the hash maps are iterated.\<close>

record flush_order =
  fo_supply :: "supply_changes \<Rightarrow> supply_changes"
  fo_balance :: "balance_changes \<Rightarrow> balance_changes"

definition flush :: "flush_order \<Rightarrow> db_cache \<Rightarrow> database \<Rightarrow> (db_cache \<times> database) option" where
  "flush fo dc db =
     do {
       db \<leftarrow> (if dc_runes dc \<noteq> [] then pg_insert_runes (dc_runes dc) db else Some db);
       let dc = dc\<lparr>dc_runes := []\<rparr>;
       db \<leftarrow> (if dc_supply dc \<noteq> []
             then pg_insert_supply_changes (map snd (fo_supply fo (dc_supply dc))) db else Some db);
       let dc = dc\<lparr>dc_supply := []\<rparr>;
       let db = (if dc_ledger dc \<noteq> [] then pg_insert_ledger_entries (dc_ledger dc) db else db);
       let dc = dc\<lparr>dc_ledger := []\<rparr>;
       db \<leftarrow> (if dc_increases dc \<noteq> []
             then pg_insert_balance_changes (map snd (fo_balance fo (dc_increases dc))) True db
             else Some db);
       let dc = dc\<lparr>dc_increases := []\<rparr>;
       db \<leftarrow> (if dc_deductions dc \<noteq> []
             then pg_insert_balance_changes (map snd (fo_balance fo (dc_deductions dc))) False db
             else Some db);
       Some (dc\<lparr>dc_deductions := []\<rparr>, db)
     }"

section \<open>Well-formed caches\<close>

definition flush_order_ok :: "flush_order \<Rightarrow> bool" where
  "flush_order_ok fo \<longleftrightarrow> is_iteration (fo_supply fo) \<and> is_iteration (fo_balance fo)"

text \<open>A map of changes at height \<open>h\<close>: distinct keys, each the key of its change.\<close>

definition changes_ok :: "('c \<Rightarrow> 'k) \<Rightarrow> ('c \<Rightarrow> u64) \<Rightarrow> u64 \<Rightarrow> ('k, 'c) hashmap \<Rightarrow> bool" where
  "changes_ok key height h m \<longleftrightarrow>
     hm_distinct m \<and> list_all (\<lambda>(k, c). key c = k \<and> height c = h) m"

definition db_cache_ok :: "u64 \<Rightarrow> db_cache \<Rightarrow> bool" where
  "db_cache_ok h dc \<longleftrightarrow>
     list_all (\<lambda>r. dr_block_height r = h) (dc_runes dc) \<and>
     list_all (\<lambda>l. le_block_height l = h) (dc_ledger dc) \<and>
     changes_ok sc_rune_id sc_block_height h (dc_supply dc) \<and>
     changes_ok balance_change_key bc_block_height h (dc_increases dc) \<and>
     changes_ok balance_change_key bc_block_height h (dc_deductions dc)"

lemma db_cache_ok_new: "db_cache_ok h db_cache_new"
  by (simp add: db_cache_ok_def db_cache_new_def changes_ok_def)

lemma changes_ok_upsert:
  assumes "changes_ok key height h m" "key d = k" "height d = h"
    and "\<And>c. key (f c) = key c \<and> height (f c) = height c"
  shows "changes_ok key height h (hm_upsert k f d m)"
proof -
  have "list_all (\<lambda>(k, c). key c = k \<and> height c = h) (AList.update k v m)"
    if "key v = k" "height v = h" for v
    using assms(1) that by (induction m) (auto simp: changes_ok_def hm_distinct_def)
  moreover have "key c = k \<and> height c = h" if "map_of m k = Some c" for c
    using assms(1) map_of_SomeD [OF that] by (auto simp: changes_ok_def list_all_iff)
  ultimately show ?thesis
    using assms by (auto simp: changes_ok_def hm_upsert_def split: option.split)
qed

lemma changes_iteration:
  assumes "is_iteration it" "changes_ok key height h m"
  shows "distinct (map key (map snd (it m)))" "c \<in> set (map snd (it m)) \<Longrightarrow> height c = h"
    "find (\<lambda>c. key c = k) (map snd (it m)) = map_of m k"
proof -
  have all: "list_all (\<lambda>(k, c). key c = k \<and> height c = h) (it m)"
    using assms set_iteration [OF assms(1), of m] by (auto simp: changes_ok_def list_all_iff)
  have "hm_distinct m" using assms(2) by (simp add: changes_ok_def)
  note d = hm_distinct_iteration [OF assms(1) this] and mo = map_of_iteration [OF assms(1) this]
  have fst: "map key (map snd xs) = map fst xs" and fd: "find (\<lambda>c. key c = k) (map snd xs) = map_of xs k"
    if "list_all (\<lambda>(k, c). key c = k \<and> height c = h) xs" for xs :: "('a \<times> 'b) list"
    using that by (induction xs) auto
  show "distinct (map key (map snd (it m)))" unfolding fst [OF all] using d by (simp add: hm_distinct_def)
  show "c \<in> set (map snd (it m)) \<Longrightarrow> height c = h" using all by (auto simp: list_all_iff)
  show "find (\<lambda>c. key c = k) (map snd (it m)) = map_of m k" using fd [OF all] mo by simp
qed

section \<open>What a flush writes\<close>

definition supply_value :: "(supply_row \<Rightarrow> nat) \<Rightarrow> database \<Rightarrow> ustr \<Rightarrow> nat" where
  "supply_value f db i = unwrap_or 0 (map_option f (supply_of db i))"

definition balance_value :: "database \<Rightarrow> ustr \<times> ustr \<Rightarrow> int" where
  "balance_value db k = unwrap_or 0 (map_option br_balance (balance_of db k))"

definition pending :: "('c \<Rightarrow> u128) \<Rightarrow> ('k, 'c) hashmap \<Rightarrow> 'k \<Rightarrow> nat" where
  "pending f m k = unwrap_or 0 (map_option (unat \<circ> f) (map_of m k))"

lemma changed_map_of:
  assumes "is_iteration it" "changes_ok key height h m"
  shows "changed key add (map snd (it m)) v k =
    (case map_of m k of Some c \<Rightarrow> Some (add (v k) c) | None \<Rightarrow> v k)"
  unfolding changed_def changes_iteration(3) [OF assms] ..

lemma flush_supply_step:
  assumes "is_iteration it" "changes_ok sc_rune_id sc_block_height h m" "heights_le (unat h) db"
  obtains db' where
    "(if m \<noteq> [] then pg_insert_supply_changes (map snd (it m)) db else Some db) = Some db'"
    "\<And>k. supply_of db' k =
      (case map_of m k of Some c \<Rightarrow> Some (supply_add (supply_of db k) c) | None \<Rightarrow> supply_of db k)"
    "heights_le (unat h) db'"
    "delete_height su_block_height (unat h) (db_supply db') = delete_height su_block_height (unat h) (db_supply db)"
    "db' = db\<lparr>db_supply := db_supply db'\<rparr>"
proof (cases "m = []")
  case True
  with assms(3) show thesis by (intro that [of db]) simp_all
next
  case False
  note it = changes_iteration [OF assms(1,2)]
  obtain db' where "pg_insert_supply_changes (map snd (it m)) db = Some db'"
    "supply_of db' = changed sc_rune_id supply_add (map snd (it m)) (supply_of db)"
    "heights_le (unat h) db'"
    "delete_height su_block_height (unat h) (db_supply db') = delete_height su_block_height (unat h) (db_supply db)"
    "db' = db\<lparr>db_supply := db_supply db'\<rparr>"
    using it(1) _ assms(3) by (rule supply_insert) (simp add: it(2))
  with False show thesis
    by (intro that [of db']) (simp_all add: changed_map_of [OF assms(1,2)])
qed

lemma flush_balance_step:
  assumes "is_iteration it" "changes_ok balance_change_key bc_block_height h m" "heights_le (unat h) db"
  obtains db' where
    "(if m \<noteq> [] then pg_insert_balance_changes (map snd (it m)) increase db else Some db) = Some db'"
    "\<And>k. balance_of db' k =
      (case map_of m k of Some c \<Rightarrow> Some (balance_add increase (balance_of db k) c) | None \<Rightarrow> balance_of db k)"
    "heights_le (unat h) db'"
    "delete_height br_block_height (unat h) (db_balances db') = delete_height br_block_height (unat h) (db_balances db)"
    "db' = db\<lparr>db_balances := db_balances db'\<rparr>"
proof (cases "m = []")
  case True
  with assms(3) show thesis by (intro that [of db]) simp_all
next
  case False
  note it = changes_iteration [OF assms(1,2)]
  obtain db' where "pg_insert_balance_changes (map snd (it m)) increase db = Some db'"
    "balance_of db' = changed balance_change_key (balance_add increase) (map snd (it m)) (balance_of db)"
    "heights_le (unat h) db'"
    "delete_height br_block_height (unat h) (db_balances db') = delete_height br_block_height (unat h) (db_balances db)"
    "db' = db\<lparr>db_balances := db_balances db'\<rparr>"
    using it(1) _ assms(3) by (rule balance_insert) (simp add: it(2))
  with False show thesis
    by (intro that [of db']) (simp_all add: changed_map_of [OF assms(1,2)])
qed

section \<open>The contract of a flush\<close>

text \<open>
  The accounts a database stands for, and what a cache says should happen to them.
\<close>

record accounts =
  ac_balance :: "ustr \<times> ustr \<Rightarrow> int"
  ac_minted :: "ustr \<Rightarrow> nat"
  ac_total_mints :: "ustr \<Rightarrow> nat"
  ac_burned :: "ustr \<Rightarrow> nat"
  ac_total_burns :: "ustr \<Rightarrow> nat"
  ac_total_operations :: "ustr \<Rightarrow> nat"
  ac_ledger :: "ledger_entry list"

definition accounts_of :: "database \<Rightarrow> accounts" where
  "accounts_of db =
     \<lparr>ac_balance = balance_value db,
      ac_minted = supply_value su_minted db, ac_total_mints = supply_value su_total_mints db,
      ac_burned = supply_value su_burned db, ac_total_burns = supply_value su_total_burns db,
      ac_total_operations = supply_value su_total_operations db,
      ac_ledger = db_ledger db\<rparr>"

definition post :: "db_cache \<Rightarrow> accounts \<Rightarrow> accounts" where
  "post dc a =
     \<lparr>ac_balance = (\<lambda>k. ac_balance a k + int (pending bc_balance (dc_increases dc) k)
        - int (pending bc_balance (dc_deductions dc) k)),
      ac_minted = (\<lambda>k. ac_minted a k + pending sc_minted (dc_supply dc) k),
      ac_total_mints = (\<lambda>k. ac_total_mints a k + pending sc_total_mints (dc_supply dc) k),
      ac_burned = (\<lambda>k. ac_burned a k + pending sc_burned (dc_supply dc) k),
      ac_total_burns = (\<lambda>k. ac_total_burns a k + pending sc_total_burns (dc_supply dc) k),
      ac_total_operations =
        (\<lambda>k. ac_total_operations a k + pending sc_total_operations (dc_supply dc) k),
      ac_ledger = ac_ledger a @ dc_ledger dc\<rparr>"

lemma heights_le_other [simp]:
  "heights_le h (db\<lparr>db_runes := x\<rparr>) = heights_le h db"
  "heights_le h (pg_insert_ledger_entries ls db) = heights_le h db"
  by (simp_all add: heights_le_def pg_insert_ledger_entries_def)

lemma flush_eq:
  "flush fo dc db =
     do {
       db \<leftarrow> (if dc_runes dc \<noteq> [] then pg_insert_runes (dc_runes dc) db else Some db);
       db \<leftarrow> (if dc_supply dc \<noteq> []
             then pg_insert_supply_changes (map snd (fo_supply fo (dc_supply dc))) db else Some db);
       db \<leftarrow> (if dc_increases dc \<noteq> []
             then pg_insert_balance_changes (map snd (fo_balance fo (dc_increases dc))) True
               (if dc_ledger dc \<noteq> [] then pg_insert_ledger_entries (dc_ledger dc) db else db)
             else Some (if dc_ledger dc \<noteq> [] then pg_insert_ledger_entries (dc_ledger dc) db else db));
       db \<leftarrow> (if dc_deductions dc \<noteq> []
             then pg_insert_balance_changes (map snd (fo_balance fo (dc_deductions dc))) False db
             else Some db);
       Some (db_cache_new, db)
     }"
  by (cases dc) (simp only: flush_def Let_def db_cache_new_def db_cache.simps)

lemma flush_cases:
  assumes "flush_order_ok fo" "db_cache_ok h dc" "heights_le (unat h) db"
    and runes: "insert_rune_chunks (chunks 500 (dc_runes dc)) (db_runes db) = Some tbl"
  obtains db' where "flush fo dc db = Some (db_cache_new, db')"
    "\<And>k. supply_of db' k = (case map_of (dc_supply dc) k of
       Some c \<Rightarrow> Some (supply_add (supply_of db k) c) | None \<Rightarrow> supply_of db k)"
    "\<And>k. balance_of db' k =
      (let b = (case map_of (dc_increases dc) k of
         Some c \<Rightarrow> Some (balance_add True (balance_of db k) c) | None \<Rightarrow> balance_of db k)
       in case map_of (dc_deductions dc) k of Some c \<Rightarrow> Some (balance_add False b c) | None \<Rightarrow> b)"
    "db_ledger db' = db_ledger db @ dc_ledger dc" "heights_le (unat h) db'"
    "db_runes db' = tbl" "db_height db' = db_height db"
    "delete_height su_block_height (unat h) (db_supply db') =
      delete_height su_block_height (unat h) (db_supply db)"
    "delete_height br_block_height (unat h) (db_balances db') =
      delete_height br_block_height (unat h) (db_balances db)"
proof -
  let ?d0 = "db\<lparr>db_runes := tbl\<rparr>"
  have fo: "is_iteration (fo_supply fo)" "is_iteration (fo_balance fo)"
    and dc: "changes_ok sc_rune_id sc_block_height h (dc_supply dc)"
      "changes_ok balance_change_key bc_block_height h (dc_increases dc)"
      "changes_ok balance_change_key bc_block_height h (dc_deductions dc)"
    using assms(1,2) by (simp_all add: flush_order_ok_def db_cache_ok_def)
  have d0: "(if dc_runes dc \<noteq> [] then pg_insert_runes (dc_runes dc) db else Some db) = Some ?d0"
    using runes by (auto simp: pg_insert_runes_def)
  have h0: "heights_le (unat h) ?d0" using assms(3) by simp
  obtain d1 where d1: "(if dc_supply dc \<noteq> []
      then pg_insert_supply_changes (map snd (fo_supply fo (dc_supply dc))) ?d0 else Some ?d0) = Some d1"
    "\<And>k. supply_of d1 k = (case map_of (dc_supply dc) k of
       Some c \<Rightarrow> Some (supply_add (supply_of ?d0 k) c) | None \<Rightarrow> supply_of ?d0 k)"
    "heights_le (unat h) d1"
    "delete_height su_block_height (unat h) (db_supply d1) =
      delete_height su_block_height (unat h) (db_supply ?d0)"
    "d1 = ?d0\<lparr>db_supply := db_supply d1\<rparr>"
    by (rule flush_supply_step [OF fo(1) dc(1) h0]) blast
  define d2 where "d2 = (if dc_ledger dc \<noteq> [] then pg_insert_ledger_entries (dc_ledger dc) d1 else d1)"
  have d2': "d2 = d1\<lparr>db_ledger := db_ledger d1 @ dc_ledger dc\<rparr>"
    using ledger_insert [of "dc_ledger dc" d1]
    by (auto simp: d2_def pg_insert_ledger_entries_def)
  have h2: "heights_le (unat h) d2" using d1(3) by (simp add: d2_def)
  obtain d3 where d3: "(if dc_increases dc \<noteq> []
      then pg_insert_balance_changes (map snd (fo_balance fo (dc_increases dc))) True d2 else Some d2) = Some d3"
    "\<And>k. balance_of d3 k = (case map_of (dc_increases dc) k of
       Some c \<Rightarrow> Some (balance_add True (balance_of d2 k) c) | None \<Rightarrow> balance_of d2 k)"
    "heights_le (unat h) d3"
    "delete_height br_block_height (unat h) (db_balances d3) =
      delete_height br_block_height (unat h) (db_balances d2)"
    "d3 = d2\<lparr>db_balances := db_balances d3\<rparr>"
    by (rule flush_balance_step [OF fo(2) dc(2) h2]) blast
  obtain d4 where d4: "(if dc_deductions dc \<noteq> []
      then pg_insert_balance_changes (map snd (fo_balance fo (dc_deductions dc))) False d3 else Some d3) = Some d4"
    "\<And>k. balance_of d4 k = (case map_of (dc_deductions dc) k of
       Some c \<Rightarrow> Some (balance_add False (balance_of d3 k) c) | None \<Rightarrow> balance_of d3 k)"
    "heights_le (unat h) d4"
    "delete_height br_block_height (unat h) (db_balances d4) =
      delete_height br_block_height (unat h) (db_balances d3)"
    "d4 = d3\<lparr>db_balances := db_balances d4\<rparr>"
    by (rule flush_balance_step [OF fo(2) dc(3) d3(3)]) blast
  have f: "flush fo dc db = Some (db_cache_new, d4)"
    by (simp only: flush_eq d0 bind.bind_lunit d1(1) d2_def [symmetric] d3(1) d4(1))
  have b2: "balance_of d2 = balance_of db"
    by (subst d2', subst d1(5)) (simp add: balance_of_def fun_eq_iff)
  have s1: "supply_of ?d0 = supply_of db" by (simp add: supply_of_def fun_eq_iff)
  have s4: "db_supply d4 = db_supply d1" by (subst d4(5), subst d3(5)) (simp add: d2')
  have l4: "db_ledger d4 = db_ledger db @ dc_ledger dc"
    by (subst d4(5), subst d3(5)) (simp add: d2', subst d1(5), simp)
  have r4: "db_runes d4 = tbl \<and> db_height d4 = db_height db"
    by (subst (1 2) d4(5), subst (1 2) d3(5)) (simp add: d2', subst (1 2) d1(5), simp)
  have b24: "db_balances d2 = db_balances db" by (simp add: d2', subst d1(5), simp)
  show thesis
  proof (rule that [OF f])
    show "supply_of d4 k = (case map_of (dc_supply dc) k of
       Some c \<Rightarrow> Some (supply_add (supply_of db k) c) | None \<Rightarrow> supply_of db k)" for k
    proof -
      have "supply_of d4 k = supply_of d1 k" by (simp add: supply_of_def s4)
      then show ?thesis by (simp only: d1(2) s1)
    qed
    show "balance_of d4 k =
      (let b = (case map_of (dc_increases dc) k of
         Some c \<Rightarrow> Some (balance_add True (balance_of db k) c) | None \<Rightarrow> balance_of db k)
       in case map_of (dc_deductions dc) k of Some c \<Rightarrow> Some (balance_add False b c) | None \<Rightarrow> b)" for k
      by (simp only: d4(2) d3(2) b2 Let_def)
    show "delete_height su_block_height (unat h) (db_supply d4) =
        delete_height su_block_height (unat h) (db_supply db)"
      by (simp add: s4 d1(4))
    show "delete_height br_block_height (unat h) (db_balances d4) =
        delete_height br_block_height (unat h) (db_balances db)"
      by (simp only: d4(4) d3(4) b24)
  qed (simp_all only: l4 r4 d4(3))
qed

lemma flush_None:
  assumes "insert_rune_chunks (chunks 500 (dc_runes dc)) (db_runes db) = None"
  shows "flush fo dc db = None"
  using assms by (auto simp: flush_def pg_insert_runes_def)

lemma flush_Some:
  assumes "flush_order_ok fo" "db_cache_ok h dc" "heights_le (unat h) db"
    and "flush fo dc db = Some (dc', db')"
  shows "dc' = db_cache_new" "accounts_of db' = post dc (accounts_of db)" "heights_le (unat h) db'"
    "db_ledger db' = db_ledger db @ dc_ledger dc"
    "insert_rune_chunks (chunks 500 (dc_runes dc)) (db_runes db) = Some (db_runes db')"
    "pg_roll_back_block h db' = pg_roll_back_block h db"
proof -
  obtain tbl where tbl: "insert_rune_chunks (chunks 500 (dc_runes dc)) (db_runes db) = Some tbl"
    using assms(4) flush_None [of dc db fo] by fastforce
  obtain db'' where db'': "flush fo dc db = Some (db_cache_new, db'')"
    and s: "\<And>k. supply_of db'' k = (case map_of (dc_supply dc) k of
       Some c \<Rightarrow> Some (supply_add (supply_of db k) c) | None \<Rightarrow> supply_of db k)"
    and b: "\<And>k. balance_of db'' k =
      (let b = (case map_of (dc_increases dc) k of
         Some c \<Rightarrow> Some (balance_add True (balance_of db k) c) | None \<Rightarrow> balance_of db k)
       in case map_of (dc_deductions dc) k of Some c \<Rightarrow> Some (balance_add False b c) | None \<Rightarrow> b)"
    and l: "db_ledger db'' = db_ledger db @ dc_ledger dc" and h: "heights_le (unat h) db''"
    and t: "db_runes db'' = tbl" "db_height db'' = db_height db"
    and d: "delete_height su_block_height (unat h) (db_supply db'') =
      delete_height su_block_height (unat h) (db_supply db)"
    "delete_height br_block_height (unat h) (db_balances db'') =
      delete_height br_block_height (unat h) (db_balances db)"
    by (rule flush_cases [OF assms(1-3) tbl]) (rule that, assumption+)
  have db: "dc' = db_cache_new" "db' = db''" using assms(4) db'' by simp_all
  have "balance_value db'' k = balance_value db k + int (pending bc_balance (dc_increases dc) k)
      - int (pending bc_balance (dc_deductions dc) k)" for k
    by (auto simp: balance_value_def pending_def b Let_def balance_add_def split: option.split)
  moreover have "supply_value su_minted db'' k = supply_value su_minted db k + pending sc_minted (dc_supply dc) k"
    "supply_value su_total_mints db'' k = supply_value su_total_mints db k + pending sc_total_mints (dc_supply dc) k"
    "supply_value su_burned db'' k = supply_value su_burned db k + pending sc_burned (dc_supply dc) k"
    "supply_value su_total_burns db'' k = supply_value su_total_burns db k + pending sc_total_burns (dc_supply dc) k"
    "supply_value su_total_operations db'' k =
      supply_value su_total_operations db k + pending sc_total_operations (dc_supply dc) k"
    for k
    by (auto simp: supply_value_def pending_def s supply_add_def split: option.split)
  ultimately show "accounts_of db' = post dc (accounts_of db)"
    by (simp add: db accounts_of_def post_def l fun_eq_iff)
  have r: "delete_height (unat \<circ> dr_block_height) (unat h) tbl =
      delete_height (unat \<circ> dr_block_height) (unat h) (db_runes db)"
    using assms(2) by (intro insert_rune_chunks_delete [OF tbl])
      (auto simp: concat_chunks db_cache_ok_def list_all_iff simp del: set_concat)
  have "delete_height (unat \<circ> le_block_height) (unat h) (dc_ledger dc) = []"
    using assms(2) by (auto simp: delete_height_def db_cache_ok_def list_all_iff filter_empty_conv)
  then show "pg_roll_back_block h db' = pg_roll_back_block h db"
    using db l t d r by (simp add: pg_roll_back_block_def delete_height_def)
  show "dc' = db_cache_new" "heights_le (unat h) db'" "db_ledger db' = db_ledger db @ dc_ledger dc"
    "insert_rune_chunks (chunks 500 (dc_runes dc)) (db_runes db) = Some (db_runes db')"
    using db h l t tbl by simp_all
qed

text \<open>
  C11. A flush implements its contract: it empties the cache, and the accounts of the database
  become the old ones with the changes of the cache posted to them, whatever the order in which
  the hash maps are iterated and however the rows are cut into statements. It can fail only in
  the insertion of the runes.
\<close>

theorem flush_refines:
  assumes "flush_order_ok fo" "db_cache_ok h dc" "heights_le (unat h) db"
  shows "case flush fo dc db of
      Some (dc', db') \<Rightarrow> dc' = db_cache_new \<and> accounts_of db' = post dc (accounts_of db) \<and>
        heights_le (unat h) db'
    | None \<Rightarrow> pg_insert_runes (dc_runes dc) db = None"
proof (cases "insert_rune_chunks (chunks 500 (dc_runes dc)) (db_runes db)")
  case None
  then show ?thesis by (simp add: flush_None pg_insert_runes_def)
next
  case (Some tbl)
  obtain db' where "flush fo dc db = Some (db_cache_new, db')"
    by (rule flush_cases [OF assms Some])
  with flush_Some [OF assms this] show ?thesis by simp
qed

text \<open>
  C16. Rolling a block back undoes its flush: after writing the rows of height \<open>h\<close>, deleting
  that height leaves exactly what deleting it before would have left, which is the database
  itself when it held no row of that height.
\<close>

theorem flush_roll_back:
  assumes "flush_order_ok fo" "db_cache_ok h dc" "heights_le (unat h) db"
    and "flush fo dc db = Some (dc', db')"
  shows "pg_roll_back_block h db' = pg_roll_back_block h db"
  by (rule flush_Some(6) [OF assms])

section \<open>Witnesses\<close>

definition sample_rows :: db_cache where
  "sample_rows = db_cache_new
     \<lparr>dc_supply := [([97], supply_from_mint [97] 5 10), ([98], supply_from_burn [98] 5 3)],
      dc_increases := [(([97], [99]), balance_from_operation [97] 5 [99] 10)],
      dc_deductions := [(([98], [99]), balance_from_operation [98] 5 [99] 3)]\<rparr>"

definition sample_database :: database where
  "sample_database =
     \<lparr>db_runes = [], db_supply = [], db_ledger = [],
      db_balances = [\<lparr>br_rune_id = [98], br_block_height = 4, br_address = [99],
        br_balance = 7, br_total_operations = 1\<rparr>],
      db_height = 4\<rparr>"

definition sample_order :: flush_order where
  "sample_order = \<lparr>fo_supply = rev, fo_balance = rev\<rparr>"

lemma sample_flush_ok:
  "flush_order_ok sample_order" "db_cache_ok 5 sample_rows" "heights_le (unat (5 :: u64)) sample_database"
  by (simp_all add: sample_order_def flush_order_ok_def is_iteration_rev sample_rows_def
      db_cache_ok_def db_cache_new_def changes_ok_def hm_distinct_def supply_from_mint_def
      supply_from_burn_def balance_from_operation_def balance_change_key_def sample_database_def heights_le_def)

lemma sample_flush: "flush sample_order sample_rows sample_database \<noteq> None"
proof -
  have "insert_rune_chunks (chunks 500 (dc_runes sample_rows)) (db_runes sample_database) = Some []"
    by (simp add: sample_rows_def db_cache_new_def sample_database_def)
  then show ?thesis by (rule flush_cases [OF sample_flush_ok]) simp
qed

lemma flush_refines_witness:
  "\<exists>db'. flush sample_order sample_rows sample_database = Some (db_cache_new, db') \<and>
     ac_balance (accounts_of db') ([98], [99]) = 4 \<and> ac_minted (accounts_of db') [97] = 10"
proof -
  obtain dc' db' where f: "flush sample_order sample_rows sample_database = Some (dc', db')"
    using sample_flush by auto
  from flush_refines [OF sample_flush_ok] f
  have "dc' = db_cache_new" "accounts_of db' = post sample_rows (accounts_of sample_database)" by simp_all
  moreover have "ac_balance (post sample_rows (accounts_of sample_database)) ([98], [99]) = 4"
    "ac_minted (post sample_rows (accounts_of sample_database)) [97] = 10"
    by (simp_all add: post_def accounts_of_def sample_rows_def db_cache_new_def pending_def
        balance_value_def balance_of_def latest_def balance_key_def supply_value_def supply_of_def
        sample_database_def supply_from_mint_def supply_from_burn_def balance_from_operation_def)
  ultimately show ?thesis using f by simp
qed

lemma flush_roll_back_witness:
  "\<exists>dc' db'. flush sample_order sample_rows sample_database = Some (dc', db') \<and>
     pg_roll_back_block 5 db' = sample_database"
proof -
  obtain dc' db' where f: "flush sample_order sample_rows sample_database = Some (dc', db')"
    using sample_flush by auto
  from flush_roll_back [OF sample_flush_ok f] f show ?thesis
    by (simp add: pg_roll_back_block_def sample_database_def delete_height_def)
qed

end
