(* ===== verification/Varint.thy ===== *)
theory Varint
  imports Prelude
begin

unbundle bit_operations_syntax

text \<open>
  The variable-length integers of a runestone payload
  (\<^verbatim>\<open>crates/ordinals/src/varint.rs\<close>): \<open>encode_to_vec\<close> writes seven bits per byte, low bits
  first, and sets the top bit of every byte but the last; \<open>decode\<close> reads one integer from the
  front of a buffer and returns it with the number of bytes read. The main facts: decoding an
  encoding returns the integer and ignores what follows, and an encoding has 1 to 19 bytes.
\<close>

section \<open>Encoder and decoder\<close>

datatype varint_error = Overlong | Overflow | Unterminated

function encode_to_vec :: "u128 \<Rightarrow> u8 list \<Rightarrow> u8 list" where
  "encode_to_vec n v =
     (if drop_bit 7 n > 0
      then encode_to_vec (drop_bit 7 n) (v @ [ucast n OR 128])
      else v @ [ucast n])"
  by pat_completeness auto
termination
proof (relation "measure (\<lambda>(n, v). unat n)", goal_cases)
  case 1
  show ?case by simp
next
  case (2 n v)
  then have "n \<noteq> 0" by auto
  then have "0 < unat n" by (simp add: unat_gt_0)
  then have "unat n div 128 < unat n" by simp
  then show ?case by (simp add: drop_bit_eq_div [of 7 n] unat_div)
qed

declare encode_to_vec.simps [simp del]

fun decode_from :: "nat \<Rightarrow> u128 \<Rightarrow> u8 list \<Rightarrow> varint_error + (u128 \<times> nat)" where
  "decode_from i n [] = Inl Unterminated"
| "decode_from i n (byte # bytes) =
     (if i > 18 then Inl Overlong
      else let value = ucast byte AND (127 :: u128) in
        if i = 18 \<and> value AND 124 \<noteq> 0 then Inl Overflow
        else let n' = n OR push_bit (7 * i) value in
          if byte AND 128 = 0 then Inr (n', i + 1)
          else decode_from (i + 1) n' bytes)"

definition decode :: "u8 list \<Rightarrow> varint_error + (u128 \<times> nat)" where
  "decode buffer = decode_from 0 0 buffer"

definition encode :: "u128 \<Rightarrow> u8 list" where
  "encode n = encode_to_vec n []"

definition varint_error_fmt :: "varint_error \<Rightarrow> ustr" where
  "varint_error_fmt e =
     (case e of
        Overlong \<Rightarrow> lit ''too long''
      | Overflow \<Rightarrow> lit ''overflow''
      | Unterminated \<Rightarrow> lit ''unterminated'')"

section \<open>Bits of a group\<close>

lemma encode_to_vec_append: "encode_to_vec n v = v @ encode n"
proof -
  have "encode_to_vec n (u @ v) = u @ encode_to_vec n v" for u v
  proof (induction n v rule: encode_to_vec.induct)
    case (1 n v)
    then show ?case
      by (auto simp: encode_to_vec.simps [of n "u @ v"] encode_to_vec.simps [of n v])
  qed
  from this [of v "[]"] show ?thesis by (simp add: encode_def)
qed

lemma encode_unfold:
  "encode n = (if drop_bit 7 n > 0 then (ucast n OR 128) # encode (drop_bit 7 n) else [ucast n])"
  by (subst encode_def, subst encode_to_vec.simps) (simp add: encode_to_vec_append)

lemma bit_127: "bit (127 :: 'a::len word) n \<longleftrightarrow> n < 7 \<and> n < LENGTH('a)"
proof -
  have "(127 :: 'a word) = mask 7" by (simp add: mask_eq_exp_minus_1)
  then show ?thesis by (simp only: bit_mask_iff possible_bit_word) auto
qed

lemma bit_128: "bit (128 :: 8 word) n \<longleftrightarrow> n = 7"
proof -
  have "(128 :: 8 word) = 2 ^ 7" by simp
  then show ?thesis by (simp only: bit_exp_iff possible_bit_word) auto
qed

lemma bit_124: "bit (124 :: u128) n \<Longrightarrow> 2 \<le> n"
proof -
  assume a: "bit (124 :: u128) n"
  have "(124 :: u128) = push_bit 2 31" by simp
  with a show ?thesis by (simp only: bit_push_bit_iff)
qed

lemma group_value:
  fixes n :: u128
  shows "ucast (ucast n OR 128 :: u8) AND (127 :: u128) = take_bit 7 n"
  by (rule bit_eqI) (auto simp: bit_simps bit_127 bit_128 simp del: bit_numeral_word_iff)

lemma group_value':
  fixes n :: u128
  shows "ucast (ucast n :: u8) AND (127 :: u128) = take_bit 7 n"
  by (rule bit_eqI) (auto simp: bit_simps bit_127 simp del: bit_numeral_word_iff)

lemma group_continues: "(ucast (n :: u128) OR 128 :: u8) AND 128 \<noteq> 0"
proof -
  have "bit ((ucast n OR 128 :: u8) AND 128) 7" by (simp add: bit_and_iff bit_or_iff bit_128)
  then show ?thesis by force
qed

lemma group_stops:
  fixes n :: u128
  assumes "drop_bit 7 n = 0"
  shows "(ucast n :: u8) AND 128 = 0"
proof -
  have "\<not> bit (drop_bit 7 n) 0" using assms by simp
  then have "\<not> bit n 7" by (simp add: bit_drop_bit_eq)
  then show ?thesis 
    by (intro bit_eqI) (auto simp: bit_simps bit_128 simp del: bit_numeral_word_iff)
qed

lemma group_join:
  fixes N :: u128
  shows "take_bit k N OR push_bit k (take_bit 7 (drop_bit k N)) = take_bit (k + 7) N"
  by (rule bit_eqI) (auto simp: bit_simps)

lemma last_group_small:
  fixes N :: u128
  shows "take_bit 7 (drop_bit 126 N) AND 124 = 0"
    by (intro bit_eqI) (auto simp: bit_simps simp del: bit_numeral_word_iff dest: bit_imp_le_length dest!: bit_124)

section \<open>Round trip\<close>

lemma decode_from_encode:
  assumes "i \<le> 18" and "n = drop_bit (7 * i) (N :: u128)"
  shows "decode_from i (take_bit (7 * i) N) (encode n @ rest) = Inr (N, i + length (encode n))"
  using assms
proof (induction "length (encode n)" arbitrary: i n rule: less_induct)
  case less
  have overflow: "i = 18 \<Longrightarrow> take_bit 7 n AND 124 = 0"
    using less.prems(2) last_group_small [of N] by simp
  have join: "take_bit (7 * i) N OR push_bit (7 * i) (take_bit 7 n) = take_bit (7 * (i + 1)) N"
    using group_join [of "7 * i" N] less.prems(2) by (simp add: add.commute)
  have next_n: "drop_bit 7 n = drop_bit (7 * (i + 1)) N"
    using less.prems(2) by (simp add: add.commute)
  show ?case
  proof (cases "drop_bit 7 n > 0")
    case True
    then have e: "encode n = (ucast n OR 128) # encode (drop_bit 7 n)"
      by (simp add: encode_unfold [of n])
    have "i + 1 \<le> 18"
    proof (rule ccontr)
      assume "\<not> i + 1 \<le> 18"
      with less.prems(1) have "i = 18" by simp
      with next_n have "drop_bit 7 n = drop_bit 133 N" by simp
      also have "\<dots> = 0" by (rule bit_eqI) (auto simp: bit_simps dest: bit_imp_le_length)
      finally show False using True by simp
    qed
    with less.hyps [of "drop_bit 7 n" "i + 1"] next_n e
    have "decode_from (i + 1) (take_bit (7 * (i + 1)) N) (encode (drop_bit 7 n) @ rest) =
        Inr (N, i + 1 + length (encode (drop_bit 7 n)))" by simp
    then show ?thesis
      using less.prems(1) overflow
      by (simp add: e group_value group_continues join Let_def)
  next
    case False
    then have z: "drop_bit 7 n = 0" by (simp add: word_gt_0)
    then have e: "encode n = [ucast n]" by (simp add: encode_unfold [of n])
    have "take_bit (7 * (i + 1)) N = N"
      using z next_n by (metis bits_ident add.left_neutral push_bit_of_0)
    then show ?thesis
      using less.prems(1) overflow
      by (simp add: e group_value' group_stops [OF z] join Let_def)
  qed
qed

lemma decode_encode [codec]: "decode (encode n @ rest) = Inr (n, length (encode n))"
  using decode_from_encode [of 0 n n rest] by (simp add: decode_def)

lemma encode_nonempty [simp]: "encode n \<noteq> []"
  by (simp add: encode_unfold [of n])

lemma decode_from_length:
  "decode_from i n bytes = Inr (m, k) \<Longrightarrow> i < k \<and> k \<le> i + length bytes \<and> k \<le> 19"
proof (induction i n bytes rule: decode_from.induct)
  case (2 i n byte bytes)
  then show ?case by (fastforce simp: Let_def split: if_splits)
qed simp

lemma decode_length: "decode b = Inr (m, k) \<Longrightarrow> 0 < k \<and> k \<le> length b \<and> k \<le> 19"
  using decode_from_length [of 0 0 b m k] by (simp add: decode_def)

lemma encode_length: "length (encode n) \<le> 19"
  using decode_encode [of n "[]"] decode_length by fastforce

lemma decode_prefix:
  "decode_from i n bytes = Inr (m, k) \<Longrightarrow> decode_from i n (take (k - i) bytes @ rest) = Inr (m, k)"
proof (induction i n bytes rule: decode_from.induct)
  case (2 i n byte bytes)
  from decode_from_length [OF "2.prems"] have k: "k - i = Suc (k - Suc i)" by arith
  from 2 show ?case unfolding k by (auto simp: Let_def split: if_splits)
qed simp

section \<open>Properties\<close>

text \<open>
  C31. Decoding what \<open>encode\<close> wrote gives the integer and the length of its encoding, whatever
  bytes follow; an encoding has 1 to 19 bytes.
\<close>

theorem varint_round_trip:
  "decode (encode n @ rest) = Inr (n, length (encode n)) \<and>
   1 \<le> length (encode n) \<and> length (encode n) \<le> 19"
  using encode_nonempty [of n] by (simp add: decode_encode encode_length Suc_le_eq)

end
