(* ===== verification/Tag_Fields.thy ===== *)
theory Tag_Fields
  imports Varint Artifact
begin

unbundle bit_operations_syntax

text \<open>
  The tagged fields and the flags of a runestone message
  (\<^verbatim>\<open>crates/ordinals/src/runestone/tag.rs\<close>, \<^verbatim>\<open>crates/ordinals/src/runestone/flag.rs\<close>).
  The fields are a hash map from tags to queues; \<open>values_of\<close> is the abstract view of it that
  the proofs use, the queue of each tag, empty when the tag is absent, and every operation
  is shown to act on that view.
\<close>

section \<open>Tags\<close>

datatype tag =
    Body | Flags | RuneTag | Premine | Cap | Amount | HeightStart | HeightEnd | OffsetStart
  | OffsetEnd | Mint | Pointer | CenotaphTag | Divisibility | Spacers | Symbol | Nop

fun tag_n :: "tag \<Rightarrow> u128" where
  "tag_n Body = 0"
| "tag_n Flags = 2"
| "tag_n RuneTag = 4"
| "tag_n Premine = 6"
| "tag_n Cap = 8"
| "tag_n Amount = 10"
| "tag_n HeightStart = 12"
| "tag_n HeightEnd = 14"
| "tag_n OffsetStart = 16"
| "tag_n OffsetEnd = 18"
| "tag_n Mint = 20"
| "tag_n Pointer = 22"
| "tag_n CenotaphTag = 126"
| "tag_n Divisibility = 1"
| "tag_n Spacers = 3"
| "tag_n Symbol = 5"
| "tag_n Nop = 127"

type_synonym fields = "(u128, u128 list) hashmap"

text \<open>
  \<open>tag_take t n f flds\<close> is \<open>t.take(flds, |[v1, .., vn]| f)\<close>: the closure gets the first
  \<open>n\<close> values, and only when it accepts them are they removed.
\<close>

definition tag_take :: "tag \<Rightarrow> nat \<Rightarrow> (u128 list \<Rightarrow> 'a option) \<Rightarrow> fields \<Rightarrow> 'a option \<times> fields" where
  "tag_take t n f flds =
     (case map_of flds (tag_n t) of
        None \<Rightarrow> (None, flds)
      | Some field \<Rightarrow>
          if length field < n then (None, flds)
          else
            (case f (take n field) of
               None \<Rightarrow> (None, flds)
             | Some v \<Rightarrow>
                 let field' = drop n field in
                 (Some v,
                  if field' = [] then AList.delete (tag_n t) flds
                  else AList.update (tag_n t) field' flds)))"

text \<open>The closure of one argument.\<close>

definition take1 :: "(u128 \<Rightarrow> 'a option) \<Rightarrow> u128 list \<Rightarrow> 'a option" where
  "take1 f vs = f (vs ! 0)"

definition take2 :: "(u128 \<Rightarrow> u128 \<Rightarrow> 'a option) \<Rightarrow> u128 list \<Rightarrow> 'a option" where
  "take2 f vs = f (vs ! 0) (vs ! 1)"

definition tag_encode :: "tag \<Rightarrow> u128 list \<Rightarrow> u8 list \<Rightarrow> u8 list" where
  "tag_encode t vs payload =
     fold (\<lambda>v p. encode_to_vec v (encode_to_vec (tag_n t) p)) vs payload"

definition tag_encode_option :: "tag \<Rightarrow> u128 option \<Rightarrow> u8 list \<Rightarrow> u8 list" where
  "tag_encode_option t v payload =
     (case v of None \<Rightarrow> payload | Some x \<Rightarrow> tag_encode t [x] payload)"

section \<open>Flags\<close>

datatype flag = FlagEtching | FlagTerms | FlagTurbo | FlagCenotaph

fun flag_bit :: "flag \<Rightarrow> nat" where
  "flag_bit FlagEtching = 0"
| "flag_bit FlagTerms = 1"
| "flag_bit FlagTurbo = 2"
| "flag_bit FlagCenotaph = 127"

definition flag_mask :: "flag \<Rightarrow> u128" where
  "flag_mask f = push_bit (flag_bit f) 1"

definition flag_take :: "flag \<Rightarrow> u128 \<Rightarrow> bool \<times> u128" where
  "flag_take f flags =
     (let mask = flag_mask f; set = flags AND mask \<noteq> 0 in (set, flags AND NOT mask))"

definition flag_set :: "flag \<Rightarrow> u128 \<Rightarrow> u128" where
  "flag_set f flags = flags OR flag_mask f"

lemma flag_bit_less: "flag_bit f < 128"
  by (cases f) simp_all

lemma flag_take_bits: "flag_take f flags = (bit flags (flag_bit f), unset_bit (flag_bit f) flags)"
  using flag_bit_less [of f]
  by (simp add: flag_take_def flag_mask_def unset_bit_eq_and_not bit_iff_and_push_bit_not_eq_0 Let_def)

lemma flag_set_bits: "flag_set f flags = set_bit (flag_bit f) flags"
  by (simp add: flag_set_def flag_mask_def set_bit_eq_or)

section \<open>The queues of the tags\<close>

definition values_of :: "fields \<Rightarrow> u128 \<Rightarrow> u128 list" where
  "values_of flds k = unwrap_or [] (map_of flds k)"

definition fields_ok :: "fields \<Rightarrow> bool" where
  "fields_ok flds = (\<forall>k. map_of flds k \<noteq> Some [])"

definition push_field :: "u128 \<Rightarrow> u128 \<Rightarrow> fields \<Rightarrow> fields" where
  "push_field k v flds = hm_upsert k (\<lambda>q. q @ [v]) [v] flds"

lemma values_of_Nil [simp]: "values_of [] k = []"
  by (simp add: values_of_def)

lemma fields_ok_Nil [simp]: "fields_ok []"
  by (simp add: fields_ok_def)

lemma values_of_push [simp]:
  "values_of (push_field k v flds) j =
     (if j = k then values_of flds k @ [v] else values_of flds j)"
  by (simp add: values_of_def push_field_def hashmap split: option.split)

lemma fields_ok_push [simp]: "fields_ok flds \<Longrightarrow> fields_ok (push_field k v flds)"
  by (simp add: fields_ok_def push_field_def hashmap split: option.split)

lemma fields_keys: "fields_ok flds \<Longrightarrow> k \<in> fst ` set flds \<longleftrightarrow> values_of flds k \<noteq> []"
  by (auto simp: values_of_def fields_ok_def dom_map_of_conv_image_fst [symmetric] unwrap_or_def
      split: option.splits)

lemma tag_take_spec:
  assumes "0 < n" "fields_ok flds" "tag_take t n f flds = (v, flds')"
  shows "v = (if length (values_of flds (tag_n t)) < n then None
      else f (take n (values_of flds (tag_n t))))"
    and "fields_ok flds'"
    and "values_of flds' = (if v = None then values_of flds
      else (values_of flds)(tag_n t := drop n (values_of flds (tag_n t))))"
  using assms
  by (auto simp: tag_take_def values_of_def fields_ok_def Let_def delete_conv' update_conv' fun_eq_iff
      split: option.splits if_splits)

lemma tag_encode_append:
  "tag_encode t vs payload = payload @ concat (map (\<lambda>v. encode (tag_n t) @ encode v) vs)"
  by (induction vs arbitrary: payload) (simp_all add: tag_encode_def encode_to_vec_append)

lemma tag_encode_option_append:
  "tag_encode_option t v payload =
     payload @ (case v of None \<Rightarrow> [] | Some x \<Rightarrow> encode (tag_n t) @ encode x)"
  by (simp add: tag_encode_option_def tag_encode_append split: option.split)

end
