(* ===== verification/Message.thy ===== *)
theory Message
  imports Tag_Fields
begin

text \<open>
  From a transaction to the message of its runestone (\<^verbatim>\<open>crates/ordinals/src/runestone.rs\<close>,
  functions \<open>payload\<close> and \<open>integers\<close>, and \<^verbatim>\<open>runestone/message.rs\<close>): the payload is the
  concatenation of the data pushes of the first output that starts with \<open>OP_RETURN\<close> and the
  protocol identifier, the integers are its varints, the message their tagged fields and the
  edicts after the body tag. Main facts: the integers of a concatenation of encodings are the
  encoded integers, and the fields and edicts of a message written by the encoder are the
  ones that were written.

  The iterator \<open>Script::instructions\<close> belongs to the \<^verbatim>\<open>bitcoin\<close> crate and is the parameter
  \<open>instructions\<close> of the definitions.
\<close>

section \<open>Payload\<close>

type_synonym opcode = u8

datatype instruction = Op opcode | PushBytes "u8 list"

datatype script_item = ItemOk instruction | ItemErr

definition OP_RETURN :: opcode where
  "OP_RETURN = 0x6A"

text \<open>\<open>OP_PUSHNUM_13\<close>\<close>

definition MAGIC_NUMBER :: opcode where
  "MAGIC_NUMBER = 0x5D"

datatype payload = Valid "u8 list" | Invalid flaw

fun collect_pushes :: "script_item list \<Rightarrow> u8 list \<Rightarrow> payload" where
  "collect_pushes [] payload = Valid payload"
| "collect_pushes (r # rs) payload =
     (case r of
        ItemOk (PushBytes push) \<Rightarrow> collect_pushes rs (payload @ push)
      | ItemOk (Op _) \<Rightarrow> Invalid Opcode
      | ItemErr \<Rightarrow> Invalid InvalidScript)"

fun payload_of :: "('s \<Rightarrow> script_item list) \<Rightarrow> 's tx_out list \<Rightarrow> payload option" where
  "payload_of instructions [] = None"
| "payload_of instructions (out # outs) =
     (case instructions (out_script out) of
        [] \<Rightarrow> payload_of instructions outs
      | i1 # rest1 \<Rightarrow>
          if i1 \<noteq> ItemOk (Op OP_RETURN) then payload_of instructions outs
          else
            (case rest1 of
               [] \<Rightarrow> payload_of instructions outs
             | i2 # rest2 \<Rightarrow>
                 if i2 \<noteq> ItemOk (Op MAGIC_NUMBER) then payload_of instructions outs
                 else Some (collect_pushes rest2 [])))"

text \<open>\<open>i\<close> is the position in the payload; \<open>decode\<close> never reads past the end.\<close>

function integers_loop :: "u8 list \<Rightarrow> nat \<Rightarrow> u128 list \<Rightarrow> varint_error + u128 list" where
  "integers_loop payload i integers =
     (if i < length payload
      then
        (case decode (drop i payload) of
           Inl e \<Rightarrow> Inl e
         | Inr (integer, len) \<Rightarrow> integers_loop payload (i + len) (integers @ [integer]))
      else Inr integers)"
  by pat_completeness auto
termination
  by (relation "measure (\<lambda>(p, i, _). length p - i)") (auto dest: decode_length)

declare integers_loop.simps [simp del]

definition integers_of :: "u8 list \<Rightarrow> varint_error + u128 list" where
  "integers_of payload = integers_loop payload 0 []"

section \<open>Message\<close>

record message =
  msg_flaw :: "flaw option"
  msg_edicts :: "edict list"
  msg_fields :: fields

definition get_or_insert :: "'a \<Rightarrow> 'a option \<Rightarrow> 'a option" where
  "get_or_insert a x = (case x of None \<Rightarrow> Some a | Some b \<Rightarrow> Some b)"

text \<open>The chunks of four integers after the body tag; \<open>None\<close> is a panic.\<close>

fun body_loop ::
    "'s transaction \<Rightarrow> rune_id \<Rightarrow> edict list \<Rightarrow> flaw option \<Rightarrow> u128 list
     \<Rightarrow> (flaw option \<times> edict list) option" where
  "body_loop tx i edicts flaw (c0 # c1 # c2 # c3 # rest) =
     (case rune_id_next i c0 c1 of
        None \<Rightarrow> Some (get_or_insert EdictRuneId flaw, edicts)
      | Some nxt \<Rightarrow>
          do {
            e \<leftarrow> edict_from_integers tx nxt c2 c3;
            (case e of
               None \<Rightarrow> Some (get_or_insert EdictOutput flaw, edicts)
             | Some edict \<Rightarrow> body_loop tx nxt (edicts @ [edict]) flaw rest)
          })"
| "body_loop tx i edicts flaw [] = Some (flaw, edicts)"
| "body_loop tx i edicts flaw chunk = Some (get_or_insert TrailingIntegers flaw, edicts)"

fun message_loop :: "'s transaction \<Rightarrow> fields \<Rightarrow> u128 list \<Rightarrow> message option" where
  "message_loop tx flds [] = Some \<lparr>msg_flaw = None, msg_edicts = [], msg_fields = flds\<rparr>"
| "message_loop tx flds (t # rest) =
     (if tag_n Body = t
      then do {
        (flaw, edicts) \<leftarrow> body_loop tx rune_id_default [] None rest;
        Some \<lparr>msg_flaw = flaw, msg_edicts = edicts, msg_fields = flds\<rparr>
      }
      else
        (case rest of
           [] \<Rightarrow> Some \<lparr>msg_flaw = Some TruncatedField, msg_edicts = [], msg_fields = flds\<rparr>
         | value # rest' \<Rightarrow> message_loop tx (push_field t value flds) rest'))"

definition from_integers :: "'s transaction \<Rightarrow> u128 list \<Rightarrow> message option" where
  "from_integers tx payload = message_loop tx [] payload"

section \<open>Integers of an encoding\<close>

definition encode_all :: "u128 list \<Rightarrow> u8 list" where
  "encode_all ns = concat (map encode ns)"

lemma integers_loop_encode:
  "integers_loop (pre @ encode_all ns) (length pre) acc = Inr (acc @ ns)"
proof (induction ns arbitrary: pre acc)
  case Nil
  show ?case by (simp add: encode_all_def integers_loop.simps)
next
  case (Cons n ns)
  let ?p = "pre @ encode n @ encode_all ns"
  have e: "encode_all (n # ns) = encode n @ encode_all ns" by (simp add: encode_all_def)
  have "integers_loop ?p (length pre) acc = integers_loop ?p (length pre + length (encode n)) (acc @ [n])"
    by (subst integers_loop.simps) (simp add: decode_encode)
  also have "\<dots> = Inr (acc @ n # ns)"
    using Cons.IH [of "pre @ encode n" "acc @ [n]"] by simp
  finally show ?case by (simp add: e)
qed

lemma integers_of_encode [codec]: "integers_of (encode_all ns) = Inr ns"
  using integers_loop_encode [of "[]" ns "[]"] by (simp add: integers_of_def)

lemma collect_pushes_data:
  "collect_pushes (map (ItemOk \<circ> PushBytes) pushes) payload = Valid (payload @ concat pushes)"
  by (induction pushes arbitrary: payload) simp_all

lemma payload_of_skip:
  "payload_of instructions pre = None \<Longrightarrow>
   payload_of instructions (pre @ outs) = payload_of instructions outs"
  by (induction pre) (auto split: list.splits if_splits)

section \<open>Messages of the encoder\<close>

lemma message_loop_fields:
  assumes "list_all (\<lambda>p. fst p \<noteq> 0) pairs"
  shows "message_loop tx flds (concat (map (\<lambda>(t, v). [t, v]) pairs) @ rest) =
    message_loop tx (fold (\<lambda>(t, v). push_field t v) pairs flds) rest"
  using assms by (induction pairs arbitrary: flds) auto

lemma values_of_fold:
  "values_of (fold (\<lambda>(t, v). push_field t v) pairs flds) k =
     values_of flds k @ map snd (filter (\<lambda>p. fst p = k) pairs)"
  by (induction pairs arbitrary: flds) (auto split: prod.splits)

lemma fields_ok_fold:
  "fields_ok flds \<Longrightarrow> fields_ok (fold (\<lambda>(t, v). push_field t v) pairs flds)"
  by (induction pairs arbitrary: flds) (auto split: prod.splits)

lemma message_loop_ok:
  "message_loop tx flds ns = Some m \<Longrightarrow> fields_ok flds \<Longrightarrow> fields_ok (msg_fields m)"
proof (induction tx flds ns rule: message_loop.induct)
  case (2 tx flds t rest)
  then show ?case by (cases rest) (auto split: if_splits bind_splits)
qed auto

section \<open>What a parsed body satisfies\<close>

text \<open>The edicts the encoder writes and the parser accepts.\<close>

definition edict_ok :: "'s transaction \<Rightarrow> edict \<Rightarrow> bool" where
  "edict_ok tx e = (rune_id_valid (ed_id e) \<and> unat (ed_output e) \<le> length (tx_output tx))"

text \<open>The integers of a list of edicts, each identifier as its difference from the last.\<close>

fun edict_integers :: "rune_id \<Rightarrow> edict list \<Rightarrow> u128 list option" where
  "edict_integers previous [] = Some []"
| "edict_integers previous (e # es) =
     do {
       (d, t) \<leftarrow> rune_id_delta previous (ed_id e);
       ns \<leftarrow> edict_integers (ed_id e) es;
       Some (d # t # ed_amount e # ucast (ed_output e) # ns)
     }"

lemma edict_integers_sorted:
  "sorted (previous # map ed_id es) \<Longrightarrow> edict_integers previous es \<noteq> None"
proof (induction es arbitrary: previous)
  case (Cons e es)
  then have "rune_id_delta previous (ed_id e) \<noteq> None"
    by (simp add: rune_id_delta_None not_less)
  moreover have "edict_integers (ed_id e) es \<noteq> None" using Cons by simp
  ultimately show ?case by auto
qed simp

lemma body_loop_edicts:
  assumes "edict_integers previous es = Some ns" "list_all (edict_ok tx) es"
    "length (tx_output tx) < 2 ^ 32"
  shows "body_loop tx previous acc flaw ns = Some (flaw, acc @ es)"
  using assms
proof (induction es arbitrary: previous ns acc)
  case (Cons e es)
  from Cons.prems(1) obtain d t ms where dt: "rune_id_delta previous (ed_id e) = Some (d, t)"
    and ms: "edict_integers (ed_id e) es = Some ms"
    and ns: "ns = d # t # ed_amount e # ucast (ed_output e) # ms"
    by (auto simp: bind_eq_Some_conv)
  from Cons.prems(2) have ok: "rune_id_valid (ed_id e)" "unat (ed_output e) \<le> length (tx_output tx)"
    and oks: "list_all (edict_ok tx) es"
    by (simp_all add: edict_ok_def [of tx e])
  show ?case
    by (simp add: ns rune_id_next_delta [OF dt ok(1)] edict_from_integers_ok [OF Cons.prems(3) ok(2)]
        Cons.IH [OF ms oks Cons.prems(3)])
qed simp

lemma body_loop_sound:
  assumes "body_loop tx i acc flaw ns = Some (None, es)"
  shows "\<exists>es'. es = acc @ es' \<and> edict_integers i es' = Some ns \<and> list_all (edict_ok tx) es'
    \<and> sorted (i # map ed_id es') \<and> flaw = None"
  using assms
proof (induction tx i acc flaw ns rule: body_loop.induct)
  case (1 tx i acc flaw c0 c1 c2 c3 rest)
  from "1.prems" obtain nxt e where n: "rune_id_next i c0 c1 = Some nxt"
    and e: "edict_from_integers tx nxt c2 c3 = Some (Some e)"
    and b: "body_loop tx nxt (acc @ [e]) flaw rest = Some (None, es)"
    by (auto simp: get_or_insert_def split: option.splits bind_splits)
  note es = edict_from_integers_Some [OF e]
  from "1.IH" [OF n e refl b] obtain es' where r: "es = acc @ e # es'" "flaw = None"
    and i: "edict_integers nxt es' = Some rest" and l: "list_all (edict_ok tx) es'"
    and s: "sorted (nxt # map ed_id es')" by auto
  have d: "rune_id_delta i nxt = Some (c0, c1)" by (rule rune_id_delta_next [OF n])
  then have "i \<le> nxt" by (metis not_less option.distinct(1) rune_id_delta_None)
  moreover have "ucast (ed_output e) = c3" using es(3) by (metis word_of_unat of_nat_unat)
  ultimately show ?case
    using r i l s d es rune_id_next_valid [OF n] by (auto simp: edict_ok_def [of tx e])
qed (auto simp: get_or_insert_def split: option.splits)

end
