(* ===== verification/Decipher.thy ===== *)
theory Decipher
  imports Message
begin

text \<open>
  \<open>Runestone::decipher\<close> (\<^verbatim>\<open>crates/ordinals/src/runestone.rs\<close>): the artifact of a transaction.
  The order in which the tags are taken from the fields is the order of the code; the lemmas
  show that it does not matter, because each tag reads its own queue only. Main facts: every
  runestone that comes out is well formed for its transaction, every cenotaph names its flaw,
  and the only panic needs \<open>2 ^ 32\<close> outputs.
\<close>

section \<open>Taking the fields\<close>

definition take_flags :: "fields \<Rightarrow> u128 \<times> fields" where
  "take_flags flds =
     (let (v, flds) = tag_take Flags 1 (take1 Some) flds in (unwrap_or 0 v, flds))"

definition divisibility_field :: "u128 \<Rightarrow> u8 option" where
  "divisibility_field v =
     do { d \<leftarrow> try_from v; if d \<le> MAX_DIVISIBILITY then Some d else None }"

definition spacers_field :: "u128 \<Rightarrow> u32 option" where
  "spacers_field v = do { s \<leftarrow> try_from v; if s \<le> MAX_SPACERS then Some s else None }"

definition symbol_field :: "u128 \<Rightarrow> uchar option" where
  "symbol_field v = do { s \<leftarrow> try_from v; char_from_u32 s }"

definition mint_field :: "u128 \<Rightarrow> u128 \<Rightarrow> rune_id option" where
  "mint_field b t = do { b' \<leftarrow> try_from b; t' \<leftarrow> try_from t; rune_id_new b' t' }"

definition pointer_field :: "'s transaction \<Rightarrow> u128 \<Rightarrow> u32 option" where
  "pointer_field tx v =
     do {
       p \<leftarrow> try_from v;
       if (ucast p :: u64) < of_nat (length (tx_output tx)) then Some p else None
     }"

definition take_terms :: "fields \<Rightarrow> terms \<times> fields" where
  "take_terms flds =
     (let (cap, flds) = tag_take Cap 1 (take1 Some) flds;
          (height_start, flds) = tag_take HeightStart 1 (take1 try_from) flds;
          (height_end, flds) = tag_take HeightEnd 1 (take1 try_from) flds;
          (amount, flds) = tag_take Amount 1 (take1 Some) flds;
          (offset_start, flds) = tag_take OffsetStart 1 (take1 try_from) flds;
          (offset_end, flds) = tag_take OffsetEnd 1 (take1 try_from) flds
      in (\<lparr>tm_amount = amount, tm_cap = cap, tm_height = (height_start, height_end),
           tm_offset = (offset_start, offset_end)\<rparr>, flds))"

definition take_etching :: "u128 \<Rightarrow> fields \<Rightarrow> etching option \<times> u128 \<times> fields" where
  "take_etching flags flds =
     (let (etching, flags) = flag_take FlagEtching flags in
      if etching
      then
        let (divisibility, flds) = tag_take Divisibility 1 (take1 divisibility_field) flds;
            (premine, flds) = tag_take Premine 1 (take1 Some) flds;
            (rune, flds) = tag_take RuneTag 1 (take1 (Some \<circ> Rune)) flds;
            (spacers, flds) = tag_take Spacers 1 (take1 spacers_field) flds;
            (symbol, flds) = tag_take Symbol 1 (take1 symbol_field) flds;
            (has_terms, flags) = flag_take FlagTerms flags;
            (terms, flds) =
              (if has_terms
               then let (t, flds) = take_terms flds in (Some t, flds)
               else (None, flds));
            (turbo, flags) = flag_take FlagTurbo flags
        in (Some \<lparr>et_divisibility = divisibility, et_premine = premine, et_rune = rune,
              et_spacers = spacers, et_symbol = symbol, et_terms = terms, et_turbo = turbo\<rparr>,
            flags, flds)
      else (None, flags, flds))"

section \<open>Deciphering\<close>

definition even_tag :: "u128 \<Rightarrow> bool" where
  "even_tag t = (t mod 2 = 0)"

definition message_artifact :: "'s transaction \<Rightarrow> message \<Rightarrow> artifact" where
  "message_artifact tx m =
     (let flaw = msg_flaw m;
          (flags, flds) = take_flags (msg_fields m);
          (etching, flags, flds) = take_etching flags flds;
          (mint, flds) = tag_take Mint 2 (take2 mint_field) flds;
          (pointer, flds) = tag_take Pointer 1 (take1 (pointer_field tx)) flds;
          flaw =
            (if unwrap_or False (map_option (\<lambda>e. etching_supply e = None) etching)
             then get_or_insert SupplyOverflow flaw else flaw);
          flaw = (if flags \<noteq> 0 then get_or_insert UnrecognizedFlag flaw else flaw);
          flaw =
            (if list_ex (\<lambda>(t, _). even_tag t) flds
             then get_or_insert UnrecognizedEvenTag flaw else flaw)
      in case flaw of
           Some f \<Rightarrow>
             Cenotaph \<lparr>cn_etching = Option.bind etching et_rune, cn_flaw = Some f, cn_mint = mint\<rparr>
         | None \<Rightarrow>
             Runestone \<lparr>rs_edicts = msg_edicts m, rs_etching = etching, rs_mint = mint,
               rs_pointer = pointer\<rparr>)"

text \<open>The outer \<open>None\<close> is a panic, the inner one a transaction without a runestone.\<close>

definition decipher :: "('s \<Rightarrow> script_item list) \<Rightarrow> 's transaction \<Rightarrow> artifact option option" where
  "decipher instructions tx =
     (case payload_of instructions (tx_output tx) of
        None \<Rightarrow> Some None
      | Some (Invalid flaw) \<Rightarrow>
          Some (Some (Cenotaph \<lparr>cn_etching = None, cn_flaw = Some flaw, cn_mint = None\<rparr>))
      | Some (Valid payload) \<Rightarrow>
          (case integers_of payload of
             Inl _ \<Rightarrow>
               Some (Some (Cenotaph \<lparr>cn_etching = None, cn_flaw = Some FlawVarint, cn_mint = None\<rparr>))
           | Inr integers \<Rightarrow>
               do { m \<leftarrow> from_integers tx integers; Some (Some (message_artifact tx m)) }))"

section \<open>Each tag reads its own queue\<close>

definition field_value :: "tag \<Rightarrow> nat \<Rightarrow> (u128 list \<Rightarrow> 'a option) \<Rightarrow> (u128 \<Rightarrow> u128 list) \<Rightarrow> 'a option" where
  "field_value t n f q = (if length (q (tag_n t)) < n then None else f (take n (q (tag_n t))))"

lemma fst_tag_take [simp]:
  "0 < n \<Longrightarrow> fst (tag_take t n f flds) = field_value t n f (values_of flds)"
  by (auto simp: tag_take_def field_value_def values_of_def Let_def split: option.splits)

lemma values_snd_tag_take [simp]:
  "0 < n \<Longrightarrow> values_of (snd (tag_take t n f flds)) k =
     (if k = tag_n t \<and> field_value t n f (values_of flds) \<noteq> None
      then drop n (values_of flds k) else values_of flds k)"
  by (auto simp: tag_take_def field_value_def values_of_def Let_def delete_conv' update_conv'
      split: option.splits)

lemma ok_snd_tag_take [simp]:
  "fields_ok flds \<Longrightarrow> fields_ok (snd (tag_take t n f flds))"
  by (auto simp: tag_take_def fields_ok_def Let_def delete_conv' update_conv'
      split: option.splits)

lemma field_value_cong:
  "q (tag_n t) = r (tag_n t) \<Longrightarrow> field_value t n f q = field_value t n f r"
  by (simp add: field_value_def)

definition terms_spec :: "(u128 \<Rightarrow> u128 list) \<Rightarrow> terms" where
  "terms_spec q =
     \<lparr>tm_amount = field_value Amount (Suc 0) (take1 Some) q,
      tm_cap = field_value Cap (Suc 0) (take1 Some) q,
      tm_height = (field_value HeightStart (Suc 0) (take1 try_from) q,
        field_value HeightEnd (Suc 0) (take1 try_from) q),
      tm_offset = (field_value OffsetStart (Suc 0) (take1 try_from) q,
        field_value OffsetEnd (Suc 0) (take1 try_from) q)\<rparr>"

definition etching_spec :: "u128 \<Rightarrow> (u128 \<Rightarrow> u128 list) \<Rightarrow> etching option" where
  "etching_spec flags q =
     (if bit flags 0
      then Some
        \<lparr>et_divisibility = field_value Divisibility (Suc 0) (take1 divisibility_field) q,
         et_premine = field_value Premine (Suc 0) (take1 Some) q,
         et_rune = field_value RuneTag (Suc 0) (take1 (Some \<circ> Rune)) q,
         et_spacers = field_value Spacers (Suc 0) (take1 spacers_field) q,
         et_symbol = field_value Symbol (Suc 0) (take1 symbol_field) q,
         et_terms = (if bit flags 1 then Some (terms_spec q) else None),
         et_turbo = bit flags 2\<rparr>
      else None)"

lemma fst_take_terms: "fst (take_terms flds) = terms_spec (values_of flds)"
  by (simp add: take_terms_def terms_spec_def split_beta Let_def cong: field_value_cong)

lemma fst_take_etching: "fst (take_etching flags flds) = etching_spec flags (values_of flds)"
  by (simp add: take_etching_def etching_spec_def fst_take_terms split_beta Let_def flag_take_bits
      bit_unset_bit_iff terms_spec_def cong: field_value_cong)

definition etching_tags :: "u128 set" where
  "etching_tags = tag_n ` {Divisibility, Premine, RuneTag, Spacers, Symbol, Cap, HeightStart,
     HeightEnd, Amount, OffsetStart, OffsetEnd}"

lemma values_take_terms:
  "k \<notin> etching_tags \<Longrightarrow> values_of (snd (take_terms flds)) k = values_of flds k"
  by (simp add: etching_tags_def take_terms_def split_beta Let_def)

lemma values_take_etching:
  "k \<notin> etching_tags \<Longrightarrow> values_of (snd (snd (take_etching flags flds))) k = values_of flds k"
  by (simp add: take_etching_def split_beta Let_def values_take_terms)
    (simp add: etching_tags_def)

lemma ok_take_terms: "fields_ok flds \<Longrightarrow> fields_ok (snd (take_terms flds))"
  by (simp add: take_terms_def split_beta Let_def)

lemma ok_take_etching: "fields_ok flds \<Longrightarrow> fields_ok (snd (snd (take_etching flags flds)))"
  by (simp add: take_etching_def split_beta Let_def ok_take_terms)

lemma flags_take_etching:
  "fst (snd (take_etching flags flds)) =
     (if bit flags 0 then unset_bit 2 (unset_bit 1 (unset_bit 0 flags)) else unset_bit 0 flags)"
  by (simp add: take_etching_def split_beta Let_def flag_take_bits)

definition message_flags :: "message \<Rightarrow> u128" where
  "message_flags m =
     unwrap_or 0 (field_value Flags (Suc 0) (take1 Some) (values_of (msg_fields m)))"

text \<open>What the message says, flawed or not.\<close>

definition runestone_spec :: "'s transaction \<Rightarrow> message \<Rightarrow> runestone" where
  "runestone_spec tx m =
     (let q = values_of (msg_fields m)
      in \<lparr>rs_edicts = msg_edicts m, rs_etching = etching_spec (message_flags m) q,
          rs_mint = field_value Mint 2 (take2 mint_field) q,
          rs_pointer = field_value Pointer (Suc 0) (take1 (pointer_field tx)) q\<rparr>)"

definition rest_fields :: "'s transaction \<Rightarrow> message \<Rightarrow> fields" where
  "rest_fields tx m =
     (let (flags, flds) = take_flags (msg_fields m);
          flds = snd (snd (take_etching flags flds));
          flds = snd (tag_take Mint 2 (take2 mint_field) flds)
      in snd (tag_take Pointer 1 (take1 (pointer_field tx)) flds))"

definition rest_flags :: "message \<Rightarrow> u128" where
  "rest_flags m =
     (let flags = message_flags m in
      if bit flags 0 then unset_bit 2 (unset_bit 1 (unset_bit 0 flags)) else unset_bit 0 flags)"

text \<open>The flaws of a message, the first one that applies.\<close>

definition flaw_spec :: "'s transaction \<Rightarrow> message \<Rightarrow> flaw option" where
  "flaw_spec tx m =
     (if msg_flaw m \<noteq> None then msg_flaw m
      else if (\<exists>e. rs_etching (runestone_spec tx m) = Some e \<and> etching_supply e = None)
      then Some SupplyOverflow
      else if rest_flags m \<noteq> 0 then Some UnrecognizedFlag
      else if (\<exists>k. even_tag k \<and> values_of (rest_fields tx m) k \<noteq> [])
      then Some UnrecognizedEvenTag
      else None)"

lemma fst_take_flags: "fst (take_flags (msg_fields m)) = message_flags m"
  by (simp add: take_flags_def split_beta Let_def message_flags_def)

lemma values_take_flags:
  "k \<noteq> 2 \<Longrightarrow> values_of (snd (take_flags flds)) k = values_of flds k"
  by (simp add: take_flags_def split_beta Let_def)

lemma ok_rest_fields: "fields_ok (msg_fields m) \<Longrightarrow> fields_ok (rest_fields tx m)"
  by (simp add: rest_fields_def take_flags_def split_beta Let_def ok_take_etching)

lemma etching_spec_cong:
  "(\<And>k. k \<in> etching_tags \<Longrightarrow> q k = r k) \<Longrightarrow> etching_spec flags q = etching_spec flags r"
  by (simp add: etching_tags_def etching_spec_def terms_spec_def cong: field_value_cong)

lemma even_key:
  "fields_ok flds \<Longrightarrow>
   list_ex (\<lambda>(t, _). even_tag t) flds \<longleftrightarrow> (\<exists>k. even_tag k \<and> values_of flds k \<noteq> [])"
  by (force simp: list_ex_iff fields_keys [symmetric])

lemma message_artifact_eq:
  assumes "fields_ok (msg_fields m)"
  shows "message_artifact tx m =
    (case flaw_spec tx m of
       None \<Rightarrow> Runestone (runestone_spec tx m)
     | Some f \<Rightarrow>
         Cenotaph \<lparr>cn_etching = Option.bind (rs_etching (runestone_spec tx m)) et_rune,
           cn_flaw = Some f, cn_mint = rs_mint (runestone_spec tx m)\<rparr>)"
proof -
  let ?flds1 = "snd (take_flags (msg_fields m))"
  let ?flds2 = "snd (snd (take_etching (message_flags m) ?flds1))"
  have e: "etching_spec (message_flags m) (values_of ?flds1) =
      etching_spec (message_flags m) (values_of (msg_fields m))"
    by (rule etching_spec_cong) (auto simp: values_take_flags etching_tags_def)
  have q2: "values_of ?flds2 20 = values_of (msg_fields m) 20"
      "values_of ?flds2 22 = values_of (msg_fields m) 22"
    by (simp_all add: values_take_etching values_take_flags etching_tags_def)
  have r: "snd (tag_take Pointer 1 (take1 (pointer_field tx))
      (snd (tag_take Mint 2 (take2 mint_field) ?flds2))) = rest_fields tx m"
    by (simp add: rest_fields_def split_beta Let_def fst_take_flags)
  have m: "field_value Mint 2 (take2 mint_field) (values_of ?flds2) = rs_mint (runestone_spec tx m)"
    by (simp add: runestone_spec_def Let_def q2 field_value_def)
  have p: "field_value Pointer 1 (take1 (pointer_field tx))
      (values_of (snd (tag_take Mint 2 (take2 mint_field) ?flds2))) = rs_pointer (runestone_spec tx m)"
    by (simp add: runestone_spec_def Let_def q2 field_value_def)
  have ed: "msg_edicts m = rs_edicts (runestone_spec tx m)"
    and et: "etching_spec (message_flags m) (values_of (msg_fields m)) = rs_etching (runestone_spec tx m)"
    by (simp_all add: runestone_spec_def Let_def)
  have fl: "fst (snd (take_etching (message_flags m) ?flds1)) = rest_flags m"
    by (simp add: flags_take_etching rest_flags_def Let_def)
  show ?thesis
    unfolding message_artifact_def Let_def split_beta fst_take_flags fst_take_etching e r fl
      even_key [OF ok_rest_fields [OF assms]] fst_tag_take [OF zero_less_one] m p ed et
    by (auto simp: flaw_spec_def get_or_insert_def m unwrap_or_def split: option.splits)
qed

section \<open>What comes out\<close>

text \<open>A runestone that fits its transaction.\<close>

definition etching_ok :: "etching \<Rightarrow> bool" where
  "etching_ok e \<longleftrightarrow>
     pred_option (\<lambda>d. d \<le> MAX_DIVISIBILITY) (et_divisibility e) \<and>
     pred_option (\<lambda>s. s \<le> MAX_SPACERS) (et_spacers e) \<and>
     pred_option (\<lambda>c. c < 2 ^ 32 \<and> char_from_u32 (of_nat c) = Some c) (et_symbol e) \<and>
     supply_nat e < 2 ^ 128"

definition runestone_ok :: "'s transaction \<Rightarrow> runestone \<Rightarrow> bool" where
  "runestone_ok tx r \<longleftrightarrow>
     list_all (edict_ok tx) (rs_edicts r) \<and>
     pred_option etching_ok (rs_etching r) \<and>
     pred_option rune_id_valid (rs_mint r) \<and>
     pred_option (\<lambda>p. unat p < length (tx_output tx)) (rs_pointer r)"

lemma field_value_Some:
  "field_value t n f q = Some v \<Longrightarrow> \<exists>vs. f vs = Some v"
  by (auto simp: field_value_def split: if_splits)

lemma message_loop_edicts:
  assumes "message_loop tx flds ns = Some m" "msg_flaw m = None"
  shows "list_all (edict_ok tx) (msg_edicts m) \<and> sorted (map ed_id (msg_edicts m))"
  using assms
proof (induction tx flds ns rule: message_loop.induct)
  case (2 tx flds t rest)
  show ?case
  proof (cases "tag_n Body = t")
    case True
    with "2.prems" obtain es where "body_loop tx rune_id_default [] None rest = Some (None, es)"
      and "msg_edicts m = es" by (auto simp: bind_eq_Some_conv)
    then show ?thesis using body_loop_sound by fastforce
  next
    case False
    with "2.prems" obtain v rest' where "rest = v # rest'" by (cases rest) auto
    with False 2 show ?thesis by auto
  qed
qed auto

lemma symbol_field_ok:
  assumes "symbol_field v = Some c"
  shows "c < 4294967296 \<and> char_from_u32 (of_nat c) = Some c"
proof
  from assms obtain w where w: "char_from_u32 w = Some c" by (auto simp: symbol_field_def bind_eq_Some_conv)
  then have c: "c = unat w" by (rule char_from_u32_Some)
  then show "c < 4294967296"
    using unsigned_less [of w] by simp
  show "char_from_u32 (of_nat c) = Some c" using w by (simp add: c)
qed

lemma etching_spec_ok:
  assumes "etching_spec flags q = Some e" "etching_supply e \<noteq> None"
  shows "etching_ok e"
proof -
  have "pred_option (\<lambda>d. d \<le> MAX_DIVISIBILITY) (et_divisibility e)"
    using assms(1)
    by (auto simp: etching_spec_def take1_def divisibility_field_def bind_eq_Some_conv pred_option_def
        split: if_splits dest!: field_value_Some)
  moreover have "pred_option (\<lambda>s. s \<le> MAX_SPACERS) (et_spacers e)"
    using assms(1)
    by (auto simp: etching_spec_def take1_def spacers_field_def bind_eq_Some_conv pred_option_def
        split: if_splits dest!: field_value_Some)
  moreover have "pred_option (\<lambda>c. c < 2 ^ 32 \<and> char_from_u32 (of_nat c) = Some c) (et_symbol e)"
    using assms(1)
    by (auto simp: etching_spec_def take1_def pred_option_def
        split: if_splits dest!: field_value_Some symbol_field_ok)
  moreover have "supply_nat e < 2 ^ 128"
    using assms(2) by (auto simp: etching_supply_value split: if_splits)
  ultimately show ?thesis by (simp add: etching_ok_def)
qed

lemma runestone_spec_ok:
  assumes "from_integers tx ns = Some m" "flaw_spec tx m = None"
    and "length (tx_output tx) < 2 ^ 64"
  shows "runestone_ok tx (runestone_spec tx m)"
proof -
  let ?r = "runestone_spec tx m"
  from assms(2) have "msg_flaw m = None" and total: "\<And>e. rs_etching ?r = Some e \<Longrightarrow> etching_supply e \<noteq> None"
    by (auto simp: flaw_spec_def split: if_splits)
  with assms(1) have "list_all (edict_ok tx) (rs_edicts ?r)"
    by (auto simp: from_integers_def runestone_spec_def Let_def dest: message_loop_edicts)
  moreover have "pred_option etching_ok (rs_etching ?r)"
    using etching_spec_ok total by (auto simp: pred_option_def runestone_spec_def Let_def)
  moreover have "pred_option rune_id_valid (rs_mint ?r)"
    by (auto simp: runestone_spec_def Let_def pred_option_def take2_def mint_field_def
        bind_eq_Some_conv rune_id_new_Some dest!: field_value_Some)
  moreover have "pred_option (\<lambda>p. unat p < length (tx_output tx)) (rs_pointer ?r)"
    using assms(3)
    by (auto simp: runestone_spec_def Let_def pred_option_def take1_def pointer_field_def
        bind_eq_Some_conv word_less_nat_alt unat_of_nat_small unat_ucast_up
        split: if_splits dest!: field_value_Some)
  ultimately show ?thesis by (simp add: runestone_ok_def)
qed

lemma from_integers_ok: "from_integers tx ns = Some m \<Longrightarrow> fields_ok (msg_fields m)"
  unfolding from_integers_def by (erule message_loop_ok) simp

lemma decipher_cases:
  assumes "decipher instructions tx = Some (Some a)"
  obtains f where "f = FlawVarint \<or> payload_of instructions (tx_output tx) = Some (Invalid f)"
      "a = Cenotaph \<lparr>cn_etching = None, cn_flaw = Some f, cn_mint = None\<rparr>"
    | p ns m where "payload_of instructions (tx_output tx) = Some (Valid p)" "integers_of p = Inr ns"
      "from_integers tx ns = Some m" "fields_ok (msg_fields m)" "a = message_artifact tx m"
  using assms
  by (auto simp: decipher_def bind_eq_Some_conv split: option.splits payload.splits sum.splits
      dest: from_integers_ok)

lemma decipher_runestone:
  assumes "decipher instructions tx = Some (Some (Runestone r))"
  obtains p ns m where "payload_of instructions (tx_output tx) = Some (Valid p)" "integers_of p = Inr ns"
    "from_integers tx ns = Some m" "flaw_spec tx m = None" "r = runestone_spec tx m"
  using assms by (auto elim!: decipher_cases simp: message_artifact_eq split: option.splits)

lemma body_loop_total:
  "length (tx_output tx) < 2 ^ 32 \<Longrightarrow> body_loop tx i es f ns \<noteq> None"
proof (induction tx i es f ns rule: body_loop.induct)
  case (1 tx i es f c0 c1 c2 c3 rest)
  show ?case
  proof (cases "rune_id_next i c0 c1")
    case (Some nxt)
    obtain r where "edict_from_integers tx nxt c2 c3 = Some r"
      using edict_from_integers_total [OF "1.prems"] by blast
    with Some 1 show ?thesis by (cases r) auto
  qed simp
qed simp_all

lemma message_loop_total:
  "length (tx_output tx) < 2 ^ 32 \<Longrightarrow> message_loop tx flds ns \<noteq> None"
proof (induction tx flds ns rule: message_loop.induct)
  case (2 tx flds t rest)
  show ?case
    using 2 body_loop_total [of tx rune_id_default "[]" None rest] by (auto split: list.splits)
qed simp

lemma decipher_runestone_ok:
  assumes "decipher instructions tx = Some (Some (Runestone r))" "length (tx_output tx) < 2 ^ 32"
  shows "runestone_ok tx r" and "sorted (map ed_id (rs_edicts r))"
proof -
  from assms(1) obtain ns m where m: "from_integers tx ns = Some m" "flaw_spec tx m = None"
    and r: "r = runestone_spec tx m" by (elim decipher_runestone)
  then have "msg_flaw m = None" by (auto simp: flaw_spec_def split: if_splits)
  with m(1) show "sorted (map ed_id (rs_edicts r))"
    by (auto simp: from_integers_def r runestone_spec_def Let_def dest: message_loop_edicts)
  show "runestone_ok tx r"
    unfolding r using assms(2) by (intro runestone_spec_ok [OF m]) simp
qed

section \<open>The first runestone output\<close>

text \<open>The script starts with the two opcodes of a runestone; \<open>items\<close> is what follows.\<close>

abbreviation runestone_script :: "script_item list \<Rightarrow> script_item list \<Rightarrow> bool" where
  "runestone_script script items \<equiv> script = ItemOk (Op 0x6A) # ItemOk (Op 0x5D) # items"

lemma payload_of_out:
  "runestone_script (instructions (out_script out)) items \<Longrightarrow>
   payload_of instructions (out # outs) = Some (collect_pushes items [])"
  "\<forall>items. \<not> runestone_script (instructions (out_script out)) items \<Longrightarrow>
   payload_of instructions (out # outs) = payload_of instructions outs"
  by (auto simp: OP_RETURN_def MAGIC_NUMBER_def split: list.split)

lemma payload_of_None:
  "payload_of instructions outs = None \<longleftrightarrow>
   (\<forall>out \<in> set outs. \<forall>items. \<not> runestone_script (instructions (out_script out)) items)"
proof (induction outs)
  case (Cons out outs)
  show ?case
  proof (cases "\<exists>items. runestone_script (instructions (out_script out)) items")
    case True
    then obtain items where "runestone_script (instructions (out_script out)) items" by blast
    with payload_of_out(1) [of instructions out items outs] show ?thesis by (simp del: payload_of.simps)
  next
    case False
    with payload_of_out(2) [of instructions out outs] Cons show ?thesis by (simp del: payload_of.simps)
  qed
qed simp

lemma payload_of_first:
  assumes "outs = pre @ out # post"
    and "\<forall>o' \<in> set pre. \<forall>items. \<not> runestone_script (instructions (out_script o')) items"
    and "runestone_script (instructions (out_script out)) items"
  shows "payload_of instructions outs = Some (collect_pushes items [])"
  using payload_of_skip [of instructions pre "out # post"] assms(2) payload_of_out(1) [of instructions out items post] assms(3)
  by (simp add: assms(1) payload_of_None del: payload_of.simps)

lemma collect_pushes_other:
  "\<forall>b. x \<noteq> ItemOk (PushBytes b) \<Longrightarrow>
   collect_pushes (map (ItemOk \<circ> PushBytes) pushes @ x # rest) payload =
     Invalid (if x = ItemErr then InvalidScript else Opcode)"
  by (induction pushes arbitrary: payload) (auto split: script_item.split instruction.split)

lemma decipher_nothing: "decipher instructions tx = Some None \<longleftrightarrow> payload_of instructions (tx_output tx) = None"
  by (auto simp: decipher_def bind_eq_Some_conv split: option.splits payload.splits sum.splits)

section \<open>Properties\<close>

text \<open>
  C13. A runestone that \<open>decipher\<close> returns fits its transaction: every edict output is at most
  the number of outputs, the pointer names an output, rune ids are valid, divisibility and
  spacers are within their limits, the symbol is a character and the supply stays below
  \<open>2 ^ 128\<close>; the edicts are sorted by rune id.
\<close>

theorem decipher_sound:
  assumes "decipher instructions tx = Some (Some (Runestone r))"
    and "length (tx_output tx) < 2 ^ 32"
  shows "runestone_ok tx r \<and> sorted (map ed_id (rs_edicts r))"
  using decipher_runestone_ok [OF assms] by simp

text \<open>
  C14. Deciphering never panics on a transaction with fewer than \<open>2 ^ 32\<close> outputs. It returns
  nothing exactly when no output script starts with the opcodes \<open>0x6A\<close> and \<open>0x5D\<close>. Otherwise the
  first such output decides: an instruction after the two that is no push gives a cenotaph flawed by
  the opcode or the script error, pushes that are no varints one flawed so, and everything else is
  read from the fields of the message, the runestone as \<open>runestone_spec\<close> has it if \<open>flaw_spec\<close> finds
  no flaw and a cenotaph with the first flaw, the mint and the name of the etching otherwise.
\<close>

theorem decipher_total:
  assumes "length (tx_output tx) < 2 ^ 32"
  shows "decipher instructions tx \<noteq> None \<and>
    (decipher instructions tx = Some None \<longleftrightarrow>
      (\<forall>out \<in> set (tx_output tx). \<forall>items. \<not> runestone_script (instructions (out_script out)) items)) \<and>
    (\<forall>pre out post items. tx_output tx = pre @ out # post \<longrightarrow>
      (\<forall>o' \<in> set pre. \<forall>items. \<not> runestone_script (instructions (out_script o')) items) \<longrightarrow>
      runestone_script (instructions (out_script out)) items \<longrightarrow>
      (\<forall>pushes x rest. items = map (ItemOk \<circ> PushBytes) pushes @ x # rest \<longrightarrow> (\<forall>b. x \<noteq> ItemOk (PushBytes b)) \<longrightarrow>
        decipher instructions tx = Some (Some (Cenotaph \<lparr>cn_etching = None,
          cn_flaw = Some (if x = ItemErr then InvalidScript else Opcode), cn_mint = None\<rparr>))) \<and>
      (\<forall>pushes. items = map (ItemOk \<circ> PushBytes) pushes \<longrightarrow>
        (case integers_of (concat pushes) of
           Inl e \<Rightarrow> decipher instructions tx =
             Some (Some (Cenotaph \<lparr>cn_etching = None, cn_flaw = Some FlawVarint, cn_mint = None\<rparr>))
         | Inr ns \<Rightarrow> (\<exists>m. from_integers tx ns = Some m \<and> decipher instructions tx = Some (Some
             (case flaw_spec tx m of
                None \<Rightarrow> Runestone (runestone_spec tx m)
              | Some f \<Rightarrow> Cenotaph \<lparr>cn_etching = Option.bind (rs_etching (runestone_spec tx m)) et_rune,
                  cn_flaw = Some f, cn_mint = rs_mint (runestone_spec tx m)\<rparr>))))))"
proof (intro conjI allI impI)
  have total: "from_integers tx ns \<noteq> None" for ns
    using message_loop_total [OF assms] by (simp add: from_integers_def)
  have "from_integers tx ns = Some (the (from_integers tx ns))" for ns using total [of ns] by auto
  then obtain M where "from_integers tx ns = Some (M ns)" for ns by (rule that)
  then show "decipher instructions tx \<noteq> None"
    by (simp add: decipher_def split: option.split payload.split sum.split)
  show "decipher instructions tx = Some None \<longleftrightarrow>
      (\<forall>out \<in> set (tx_output tx). \<forall>items. \<not> runestone_script (instructions (out_script out)) items)"
    by (auto simp: decipher_nothing payload_of_None)
  fix pre out post items
  assume first: "tx_output tx = pre @ out # post"
    "\<forall>o' \<in> set pre. \<forall>items. \<not> runestone_script (instructions (out_script o')) items"
    "runestone_script (instructions (out_script out)) items"
  note p = payload_of_first [OF first]
  {
    fix pushes x rest
    assume "items = map (ItemOk \<circ> PushBytes) pushes @ x # rest" "\<forall>b. x \<noteq> ItemOk (PushBytes b)"
    with p show "decipher instructions tx = Some (Some (Cenotaph \<lparr>cn_etching = None,
          cn_flaw = Some (if x = ItemErr then InvalidScript else Opcode), cn_mint = None\<rparr>))"
      by (simp add: decipher_def collect_pushes_other)
  next
    fix pushes
    assume items: "items = map (ItemOk \<circ> PushBytes) pushes"
    then have v: "payload_of instructions (tx_output tx) = Some (Valid (concat pushes))"
      by (simp add: p collect_pushes_data)
    show "case integers_of (concat pushes) of
           Inl e \<Rightarrow> decipher instructions tx =
             Some (Some (Cenotaph \<lparr>cn_etching = None, cn_flaw = Some FlawVarint, cn_mint = None\<rparr>))
         | Inr ns \<Rightarrow> (\<exists>m. from_integers tx ns = Some m \<and> decipher instructions tx = Some (Some
             (case flaw_spec tx m of
                None \<Rightarrow> Runestone (runestone_spec tx m)
              | Some f \<Rightarrow> Cenotaph \<lparr>cn_etching = Option.bind (rs_etching (runestone_spec tx m)) et_rune,
                  cn_flaw = Some f, cn_mint = rs_mint (runestone_spec tx m)\<rparr>)))"
    proof (cases "integers_of (concat pushes)")
      case (Inl e)
      then show ?thesis by (simp add: decipher_def v)
    next
      case (Inr ns)
      with total [of ns] obtain m where m: "from_integers tx ns = Some m" by blast
      then show ?thesis
        by (simp add: Inr decipher_def v message_artifact_eq [OF from_integers_ok [OF m]])
    qed
  }
qed

end
