(* ===== verification/Index_Cache.thy ===== *)
theory Index_Cache
  imports Transaction_Cache Db_Cache Decipher
begin

text \<open>
  The state the indexer keeps across transactions and blocks
  (\<^verbatim>\<open>src/db/cache/index_cache.rs\<close>, and from \<^verbatim>\<open>src/db/cache/utils.rs\<close> the two functions on
  output caches). The operations take the database transaction they work on as a second
  state. \<open>None\<close> is a panic or a failed statement.

  \<open>LruCache\<close> belongs to the \<^verbatim>\<open>lru\<close> crate: its operations are parameters over an abstract
  state, and \<open>lru_ok\<close> says what the code relies on.
\<close>

section \<open>Parameters\<close>

text \<open>
  \<open>lru_modify\<close> is a write through \<open>get_mut\<close>, \<open>None\<close> where there is nothing to write to;
  \<open>lru_put\<close> is \<open>put\<close> and \<open>push\<close>.
\<close>

record ('k, 'v, 'l) lru_ops =
  lru_new :: "nat \<Rightarrow> 'l"
  lru_get :: "'k \<Rightarrow> 'l \<Rightarrow> 'v option \<times> 'l"
  lru_modify :: "'k \<Rightarrow> ('v \<Rightarrow> 'v) \<Rightarrow> 'l \<Rightarrow> 'l option"
  lru_put :: "'k \<Rightarrow> 'v \<Rightarrow> 'l \<Rightarrow> 'l"

text \<open>
  A cache holds what was last written under a key, or nothing: a \<open>put\<close> may evict any other
  key, nothing else changes what is held.
\<close>

definition lru_ok :: "('k, 'v, 'l) lru_ops \<Rightarrow> ('l \<Rightarrow> 'k \<Rightarrow> 'v option) \<Rightarrow> bool" where
  "lru_ok ops held \<longleftrightarrow>
     (\<forall>n k. 0 < n \<longrightarrow> held (lru_new ops n) k = None) \<and>
     (\<forall>k l. fst (lru_get ops k l) = held l k \<and> held (snd (lru_get ops k l)) = held l) \<and>
     (\<forall>k f l. case lru_modify ops k f l of
        None \<Rightarrow> held l k = None
      | Some l' \<Rightarrow> held l k \<noteq> None \<and> held l' = (held l)(k := map_option f (held l k))) \<and>
     (\<forall>k v l k'. held (lru_put ops k v l) k' =
        (if k' = k then Some v else held l k') \<or> (k' \<noteq> k \<and> held (lru_put ops k v l) k' = None))"

type_synonym output_key = "ustr \<times> u32"
type_synonym block_outputs = "(output_key, rune_balances) hashmap"

text \<open>
  Everything the code takes from elsewhere: the parser of scripts, the caches, the orders of
  iteration of its hash maps and of the rows of a query, and the number of parameters that a
  statement may have.
\<close>

record ('s, 'lr, 'lm, 'lo) index_env =
  ie_instructions :: "'s \<Rightarrow> script_item list"
  ie_is_op_return :: "'s \<Rightarrow> bool"
  ie_address_of :: "'s \<Rightarrow> network \<Rightarrow> ustr option"
  ie_valid_time :: "u32 \<Rightarrow> bool"
  ie_runes :: "(rune_id, db_rune, 'lr) lru_ops"
  ie_mints :: "(rune_id, u128, 'lm) lru_ops"
  ie_outputs :: "(output_key, rune_balances, 'lo) lru_ops"
  ie_input_order :: "input_runes \<Rightarrow> input_runes"
  ie_balance_order :: "rune_balances \<Rightarrow> rune_balances"
  ie_block_order :: "block_outputs \<Rightarrow> block_outputs"
  ie_flush_order :: flush_order
  ie_row_order :: "(u32 \<times> ledger_entry) list \<Rightarrow> (u32 \<times> ledger_entry) list"
  ie_bind_limit :: nat

record ('s, 'lr, 'lm, 'lo) index_cache =
  ic_network :: network
  ic_next_number :: u32
  ic_runes :: 'lr
  ic_mints :: 'lm
  ic_outputs :: 'lo
  ic_block_outputs :: block_outputs
  ic_tx :: "'s tx_cache"
  ic_db :: db_cache

section \<open>Inputs and outputs of a transaction\<close>

record tx_in =
  ti_hash :: ustr
  ti_vout :: u32

text \<open>
  The search for the balances of every input, from input number \<open>i\<close> on: in the outputs of
  the block, then in the cache, and what neither holds is left for the database.
\<close>

fun find_inputs ::
    "(output_key, rune_balances, 'lo) lru_ops \<Rightarrow> block_outputs \<Rightarrow> nat \<Rightarrow> tx_in list \<Rightarrow> 'lo
     \<Rightarrow> ((u32, rune_balances) hashmap \<times> (u32 \<times> ustr \<times> u32) list \<times> 'lo) option" where
  "find_inputs ops block_outputs i [] cache = Some ([], [], cache)"
| "find_inputs ops block_outputs i (inp # inps) cache =
     do {
       t \<leftarrow> slice_from 2 (ti_hash inp);
       let k = (t, ti_vout inp);
       (case map_of block_outputs k of
          Some balances \<Rightarrow>
            do {
              (found, misses, cache) \<leftarrow> find_inputs ops block_outputs (i + 1) inps cache;
              Some ((of_nat i, balances) # found, misses, cache)
            }
        | None \<Rightarrow>
            (let (hit, cache) = lru_get ops k cache in
             do {
               (found, misses, cache) \<leftarrow> find_inputs ops block_outputs (i + 1) inps cache;
               Some (case hit of
                   Some balances \<Rightarrow> ((of_nat i, balances) # found, misses, cache)
                 | None \<Rightarrow> (found, (of_nat i, t, ti_vout inp) # misses, cache))
             }))
     }"

definition merge_input :: "rune_balances \<Rightarrow> input_runes \<Rightarrow> input_runes" where
  "merge_input balances m = fold (\<lambda>(rid, bs). hm_upsert rid (\<lambda>q. q @ bs) bs) balances m"

definition input_rune_balances_from_tx_inputs ::
    "('s, 'lr, 'lm, 'lo) index_env \<Rightarrow> tx_in list \<Rightarrow> block_outputs \<Rightarrow> 'lo \<Rightarrow> database
     \<Rightarrow> (input_runes \<times> 'lo) option" where
  "input_rune_balances_from_tx_inputs env inputs block_outputs cache db =
     do {
       (found, misses, cache) \<leftarrow> find_inputs (ie_outputs env) block_outputs 0 inputs cache;
       indexed \<leftarrow>
         (if misses \<noteq> [] then
            do {
              balances \<leftarrow> pg_get_input_rune_balances (ie_row_order env) (ie_bind_limit env) misses db;
              Some (fold (\<lambda>(k, v). AList.update k v) balances found)
            }
          else Some found);
       let keys = sort (map fst indexed);
       Some (fold (\<lambda>k. merge_input (ie_balance_order env (the (map_of indexed k)))) keys [], cache)
     }"

definition extend_balances :: "rune_balances \<Rightarrow> rune_balances \<Rightarrow> rune_balances" where
  "extend_balances new m = fold (\<lambda>(rid, bs). hm_upsert rid (\<lambda>v. v @ bs) bs) new m"

definition move_block_output_cache_to_output_cache ::
    "('s, 'lr, 'lm, 'lo) index_env \<Rightarrow> block_outputs \<Rightarrow> 'lo \<Rightarrow> block_outputs \<times> 'lo" where
  "move_block_output_cache_to_output_cache env block_outputs cache =
     ([], fold (\<lambda>(k, m) cache.
       case lru_modify (ie_outputs env) k (extend_balances (ie_balance_order env m)) cache of
         Some cache \<Rightarrow> cache
       | None \<Rightarrow> lru_put (ie_outputs env) k m cache) (ie_block_order env block_outputs) cache)"

section \<open>Recording ledger entries\<close>

definition bump_operations :: "supply_change \<Rightarrow> supply_change" where
  "bump_operations c = c\<lparr>sc_total_operations := sc_total_operations c + 1\<rparr>"

definition bump_mint :: "u128 \<Rightarrow> supply_change \<Rightarrow> supply_change" where
  "bump_mint amount c =
     c\<lparr>sc_minted := sc_minted c + amount, sc_total_mints := sc_total_mints c + 1,
       sc_total_operations := sc_total_operations c + 1\<rparr>"

definition bump_burn :: "u128 \<Rightarrow> supply_change \<Rightarrow> supply_change" where
  "bump_burn amount c =
     c\<lparr>sc_burned := sc_burned c + amount, sc_total_burns := sc_total_burns c + 1,
       sc_total_operations := sc_total_operations c + 1\<rparr>"

definition add_operation :: "ledger_entry \<Rightarrow> db_cache \<Rightarrow> db_cache" where
  "add_operation e dc =
     dc\<lparr>dc_supply := hm_upsert (le_rune_id e) bump_operations
       (supply_from_operation (le_rune_id e) (le_block_height e)) (dc_supply dc)\<rparr>"

definition add_balance_change :: "ledger_entry \<Rightarrow> ustr \<Rightarrow> u128 \<Rightarrow> balance_changes \<Rightarrow> balance_changes" where
  "add_balance_change e address amount m =
     hm_upsert (le_rune_id e, address) (\<lambda>c. c\<lparr>bc_balance := bc_balance c + amount\<rparr>)
       (balance_from_operation (le_rune_id e) (le_block_height e) address amount) m"

definition add_block_output ::
    "output_key \<Rightarrow> rune_id \<Rightarrow> input_balance \<Rightarrow> block_outputs \<Rightarrow> block_outputs" where
  "add_block_output k rid balance m =
     hm_upsert k (hm_upsert rid (\<lambda>v. v @ [balance]) [balance]) [(rid, [balance])] m"

text \<open>The default of \<open>or_insert\<close> is evaluated in any case, and with it \<open>amount.unwrap()\<close>.\<close>

definition add_ledger_entry :: "ledger_entry \<Rightarrow> db_cache \<times> block_outputs \<Rightarrow> (db_cache \<times> block_outputs) option" where
  "add_ledger_entry e s =
     (case s of (dc, outs) \<Rightarrow>
       (case le_operation e of
          OpEtching \<Rightarrow> Some (add_operation e dc, outs)
        | OpMint \<Rightarrow>
            do {
              amount \<leftarrow> le_amount e;
              Some (dc\<lparr>dc_supply := hm_upsert (le_rune_id e) (bump_mint amount)
                (supply_from_mint (le_rune_id e) (le_block_height e) amount) (dc_supply dc)\<rparr>, outs)
            }
        | OpBurn \<Rightarrow>
            do {
              amount \<leftarrow> le_amount e;
              Some (dc\<lparr>dc_supply := hm_upsert (le_rune_id e) (bump_burn amount)
                (supply_from_burn (le_rune_id e) (le_block_height e) amount) (dc_supply dc)\<rparr>, outs)
            }
        | OpSend \<Rightarrow>
            (let dc = add_operation e dc in
             case le_address e of
               None \<Rightarrow> Some (dc, outs)
             | Some address \<Rightarrow>
                 do {
                   amount \<leftarrow> le_amount e;
                   Some (dc\<lparr>dc_deductions := add_balance_change e address amount (dc_deductions dc)\<rparr>, outs)
                 })
        | OpReceive \<Rightarrow>
            (let dc = add_operation e dc in
             case le_address e of
               None \<Rightarrow> Some (dc, outs)
             | Some address \<Rightarrow>
                 do {
                   amount \<leftarrow> le_amount e;
                   let dc = dc\<lparr>dc_increases := add_balance_change e address amount (dc_increases dc)\<rparr>;
                   out \<leftarrow> le_output e;
                   rid \<leftarrow> (case rune_id_from_str (le_rune_id e) of Inl _ \<Rightarrow> None | Inr rid \<Rightarrow> Some rid);
                   let balance = \<lparr>ib_address = le_address e, ib_amount = amount\<rparr>;
                   Some (dc, add_block_output (le_tx_id e, out) rid balance outs)
                 })))"

fun add_each_entry :: "ledger_entry list \<Rightarrow> db_cache \<times> block_outputs \<Rightarrow> (db_cache \<times> block_outputs) option" where
  "add_each_entry [] s = Some s"
| "add_each_entry (e # es) s = do { s \<leftarrow> add_ledger_entry e s; add_each_entry es s }"

definition add_ledger_entries_to_db_cache ::
    "ledger_entry list \<Rightarrow> ('s, 'lr, 'lm, 'lo) index_cache \<Rightarrow> ('s, 'lr, 'lm, 'lo) index_cache option" where
  "add_ledger_entries_to_db_cache es ic =
     do {
       let dc = (ic_db ic)\<lparr>dc_ledger := dc_ledger (ic_db ic) @ es\<rparr>;
       (dc, outs) \<leftarrow> add_each_entry es (dc, ic_block_outputs ic);
       Some (ic\<lparr>ic_db := dc, ic_block_outputs := outs\<rparr>)
     }"

section \<open>Runes and their mints\<close>

type_synonym ('s, 'lr, 'lm, 'lo) index_state = "('s, 'lr, 'lm, 'lo) index_cache \<times> database"

definition is_zero_id :: "rune_id \<Rightarrow> bool" where
  "is_zero_id rid \<longleftrightarrow> rid_block rid = 0 \<and> rid_tx rid = 0"

definition flush_index ::
    "('s, 'lr, 'lm, 'lo) index_env \<Rightarrow> ('s, 'lr, 'lm, 'lo) index_state \<Rightarrow> ('s, 'lr, 'lm, 'lo) index_state option" where
  "flush_index env s =
     (case s of (ic, db) \<Rightarrow>
       do {
         (dc, db) \<leftarrow> flush (ie_flush_order env) (ic_db ic) db;
         Some (ic\<lparr>ic_db := dc\<rparr>, db)
       })"

definition get_cached_rune_by_rune_id ::
    "('s, 'lr, 'lm, 'lo) index_env \<Rightarrow> rune_id \<Rightarrow> ('s, 'lr, 'lm, 'lo) index_state
     \<Rightarrow> (db_rune option \<times> ('s, 'lr, 'lm, 'lo) index_state) option" where
  "get_cached_rune_by_rune_id env rid s =
     (case s of (ic, db) \<Rightarrow>
       if is_zero_id rid then Some (tc_etching (ic_tx ic), (ic, db))
       else
         (let (hit, runes) = lru_get (ie_runes env) rid (ic_runes ic);
              ic = ic\<lparr>ic_runes := runes\<rparr>
          in case hit of
               Some r \<Rightarrow> Some (Some r, (ic, db))
             | None \<Rightarrow>
                 do {
                   (ic, db) \<leftarrow> flush_index env (ic, db);
                   Some (case pg_get_rune_by_id rid db of
                       None \<Rightarrow> (None, (ic, db))
                     | Some r \<Rightarrow>
                         (Some r, (ic\<lparr>ic_runes := lru_put (ie_runes env) rid r (ic_runes ic)\<rparr>, db)))
                 }))"

definition get_cached_rune_total_mints ::
    "('s, 'lr, 'lm, 'lo) index_env \<Rightarrow> rune_id \<Rightarrow> ('s, 'lr, 'lm, 'lo) index_state
     \<Rightarrow> (u128 option \<times> ('s, 'lr, 'lm, 'lo) index_state) option" where
  "get_cached_rune_total_mints env rid s =
     (case s of (ic, db) \<Rightarrow>
       if is_zero_id rid \<and> tc_etching (ic_tx ic) = None then Some (None, (ic, db))
       else
         do {
           real_id \<leftarrow>
             (if is_zero_id rid
              then (case rune_id_from_str (dr_id (the (tc_etching (ic_tx ic)))) of
                  Inl _ \<Rightarrow> None | Inr i \<Rightarrow> Some i)
              else Some rid);
           let (hit, mints) = lru_get (ie_mints env) real_id (ic_mints ic);
           let ic = ic\<lparr>ic_mints := mints\<rparr>;
           (case hit of
              Some n \<Rightarrow> Some (Some n, (ic, db))
            | None \<Rightarrow>
                do {
                  (ic, db) \<leftarrow> flush_index env (ic, db);
                  Some (case pg_get_rune_total_mints rid db of
                      None \<Rightarrow> (None, (ic, db))
                    | Some n \<Rightarrow>
                        (Some n, (ic\<lparr>ic_mints := lru_put (ie_mints env) rid n (ic_mints ic)\<rparr>, db)))
                })
         })"

definition count_mint ::
    "('s, 'lr, 'lm, 'lo) index_env \<Rightarrow> rune_id \<Rightarrow> ('s, 'lr, 'lm, 'lo) index_cache \<Rightarrow> ('s, 'lr, 'lm, 'lo) index_cache" where
  "count_mint env rid ic =
     ic\<lparr>ic_mints :=
       (case lru_modify (ie_mints env) rid (\<lambda>n. n + 1) (ic_mints ic) of
          Some mints \<Rightarrow> mints
        | None \<Rightarrow> lru_put (ie_mints env) rid 1 (ic_mints ic))\<rparr>"

section \<open>Operations\<close>

definition index_cache_new ::
    "('s, 'lr, 'lm, 'lo) index_env \<Rightarrow> network \<Rightarrow> nat \<Rightarrow> database \<Rightarrow> ('s, 'lr, 'lm, 'lo) index_cache option" where
  "index_cache_new env n lru_cache_size db =
     (if lru_cache_size = 0 then None
      else do {
        number \<leftarrow> pg_get_max_rune_number db;
        Some \<lparr>ic_network = n, ic_next_number = number + 1,
          ic_runes = lru_new (ie_runes env) lru_cache_size,
          ic_mints = lru_new (ie_mints env) lru_cache_size,
          ic_outputs = lru_new (ie_outputs env) lru_cache_size,
          ic_block_outputs = [],
          ic_tx = tx_cache_new
            \<lparr>tl_network = n, tl_block_hash = [], tl_block_height = 1, tl_timestamp = 0,
             tl_tx_index = 0, tl_tx_id = []\<rparr> [] [] None 0,
          ic_db = db_cache_new\<rparr>
      })"

definition reset_max_rune_number ::
    "('s, 'lr, 'lm, 'lo) index_state \<Rightarrow> ('s, 'lr, 'lm, 'lo) index_state option" where
  "reset_max_rune_number s =
     (case s of (ic, db) \<Rightarrow>
       do {
         number \<leftarrow> pg_get_max_rune_number db;
         Some (ic\<lparr>ic_next_number := number + 1\<rparr>, db)
       })"

definition begin_transaction ::
    "('s, 'lr, 'lm, 'lo) index_env \<Rightarrow> tx_location \<Rightarrow> tx_in list \<Rightarrow> (u32, 's) hashmap \<Rightarrow> u32 option \<Rightarrow> u32
     \<Rightarrow> ('s, 'lr, 'lm, 'lo) index_state \<Rightarrow> ('s, 'lr, 'lm, 'lo) index_state option" where
  "begin_transaction env l inputs eligible_outputs first_eligible_output total_outputs s =
     (case s of (ic, db) \<Rightarrow>
       do {
         (input_runes, outputs) \<leftarrow>
           input_rune_balances_from_tx_inputs env inputs (ic_block_outputs ic) (ic_outputs ic) db;
         Some (ic\<lparr>ic_outputs := outputs,
           ic_tx := tx_cache_new l input_runes eligible_outputs first_eligible_output total_outputs\<rparr>, db)
       })"

definition end_transaction ::
    "('s, 'lr, 'lm, 'lo) index_env \<Rightarrow> ('s, 'lr, 'lm, 'lo) index_state \<Rightarrow> ('s, 'lr, 'lm, 'lo) index_state option" where
  "end_transaction env s =
     (case s of (ic, db) \<Rightarrow>
       do {
         (es, tx) \<leftarrow> allocate_remaining_balances (ie_address_of env) (ie_input_order env) (ic_tx ic);
         ic \<leftarrow> add_ledger_entries_to_db_cache es (ic\<lparr>ic_tx := tx\<rparr>);
         Some (ic, db)
       })"

definition end_block ::
    "('s, 'lr, 'lm, 'lo) index_env \<Rightarrow> ('s, 'lr, 'lm, 'lo) index_cache \<Rightarrow> ('s, 'lr, 'lm, 'lo) index_cache" where
  "end_block env ic =
     (let (block_outputs, outputs) =
        move_block_output_cache_to_output_cache env (ic_block_outputs ic) (ic_outputs ic)
      in ic\<lparr>ic_block_outputs := block_outputs, ic_outputs := outputs\<rparr>)"

definition index_runestone ::
    "runestone \<Rightarrow> ('s, 'lr, 'lm, 'lo) index_state \<Rightarrow> ('s, 'lr, 'lm, 'lo) index_state" where
  "index_runestone rs s =
     (case s of (ic, db) \<Rightarrow>
       case rs_pointer rs of
         None \<Rightarrow> (ic, db)
       | Some p \<Rightarrow> (ic\<lparr>ic_tx := (ic_tx ic)\<lparr>tc_pointer := Some p\<rparr>\<rparr>, db))"

definition index_cenotaph ::
    "('s, 'lr, 'lm, 'lo) index_env \<Rightarrow> ('s, 'lr, 'lm, 'lo) index_state \<Rightarrow> ('s, 'lr, 'lm, 'lo) index_state option" where
  "index_cenotaph env s =
     (case s of (ic, db) \<Rightarrow>
       do {
         (es, tx) \<leftarrow> apply_cenotaph_input_burn (ie_input_order env) (ic_tx ic);
         ic \<leftarrow> add_ledger_entries_to_db_cache es (ic\<lparr>ic_tx := tx\<rparr>);
         Some (ic, db)
       })"

text \<open>What both kinds of etching do with their row and entry.\<close>

definition record_etching ::
    "('s, 'lr, 'lm, 'lo) index_env \<Rightarrow> (rune_id \<times> db_rune \<times> ledger_entry) \<times> 's tx_cache
     \<Rightarrow> ('s, 'lr, 'lm, 'lo) index_cache \<Rightarrow> ('s, 'lr, 'lm, 'lo) index_cache option" where
  "record_etching env result ic =
     (case result of ((rid, r, entry), tx) \<Rightarrow>
       do {
         let dc = (ic_db ic)\<lparr>dc_runes := dc_runes (ic_db ic) @ [r]\<rparr>;
         let ic = ic\<lparr>ic_tx := tx, ic_db := dc, ic_runes := lru_put (ie_runes env) rid r (ic_runes ic)\<rparr>;
         ic \<leftarrow> add_ledger_entries_to_db_cache [entry] ic;
         Some (ic\<lparr>ic_next_number := ic_next_number ic + 1\<rparr>)
       })"

definition index_etching ::
    "('s, 'lr, 'lm, 'lo) index_env \<Rightarrow> etching \<Rightarrow> ('s, 'lr, 'lm, 'lo) index_state
     \<Rightarrow> ('s, 'lr, 'lm, 'lo) index_state option" where
  "index_etching env e s =
     (case s of (ic, db) \<Rightarrow>
       do {
         result \<leftarrow> apply_etching e (ic_next_number ic) (ic_tx ic);
         ic \<leftarrow> record_etching env result ic;
         Some (ic, db)
       })"

definition index_cenotaph_etching ::
    "('s, 'lr, 'lm, 'lo) index_env \<Rightarrow> rune \<Rightarrow> ('s, 'lr, 'lm, 'lo) index_state
     \<Rightarrow> ('s, 'lr, 'lm, 'lo) index_state option" where
  "index_cenotaph_etching env name s =
     (case s of (ic, db) \<Rightarrow>
       do {
         result \<leftarrow> apply_cenotaph_etching name (ic_next_number ic) (ic_tx ic);
         ic \<leftarrow> record_etching env result ic;
         Some (ic, db)
       })"

text \<open>A mint and a cenotaph mint differ in the operation on the transaction only.\<close>

definition mint_with ::
    "('s, 'lr, 'lm, 'lo) index_env
     \<Rightarrow> (rune_id \<Rightarrow> u128 \<Rightarrow> db_rune \<Rightarrow> 's tx_cache \<Rightarrow> (ledger_entry option \<times> 's tx_cache) option)
     \<Rightarrow> rune_id \<Rightarrow> ('s, 'lr, 'lm, 'lo) index_state \<Rightarrow> ('s, 'lr, 'lm, 'lo) index_state option" where
  "mint_with env mint rid s =
     do {
       (rune, s) \<leftarrow> get_cached_rune_by_rune_id env rid s;
       (case rune of
          None \<Rightarrow> Some s
        | Some r \<Rightarrow>
            do {
              (mints, (ic, db)) \<leftarrow> get_cached_rune_total_mints env rid s;
              (entry, tx) \<leftarrow> mint rid (unwrap_or 0 mints) r (ic_tx ic);
              let ic = ic\<lparr>ic_tx := tx\<rparr>;
              (case entry of
                 None \<Rightarrow> Some (ic, db)
               | Some e \<Rightarrow>
                   do {
                     ic \<leftarrow> add_ledger_entries_to_db_cache [e] ic;
                     Some (count_mint env rid ic, db)
                   })
            })
     }"

definition index_mint ::
    "('s, 'lr, 'lm, 'lo) index_env \<Rightarrow> rune_id \<Rightarrow> ('s, 'lr, 'lm, 'lo) index_state
     \<Rightarrow> ('s, 'lr, 'lm, 'lo) index_state option" where
  "index_mint env = mint_with env apply_mint"

definition index_cenotaph_mint ::
    "('s, 'lr, 'lm, 'lo) index_env \<Rightarrow> rune_id \<Rightarrow> ('s, 'lr, 'lm, 'lo) index_state
     \<Rightarrow> ('s, 'lr, 'lm, 'lo) index_state option" where
  "index_cenotaph_mint env = mint_with env apply_cenotaph_mint"

text \<open>The log message for each entry unwraps its amount.\<close>

definition index_edict ::
    "('s, 'lr, 'lm, 'lo) index_env \<Rightarrow> edict \<Rightarrow> ('s, 'lr, 'lm, 'lo) index_state
     \<Rightarrow> ('s, 'lr, 'lm, 'lo) index_state option" where
  "index_edict env e s =
     do {
       (rune, (ic, db)) \<leftarrow> get_cached_rune_by_rune_id env (ed_id e) s;
       (case rune of
          None \<Rightarrow> Some (ic, db)
        | Some r \<Rightarrow>
            do {
              (es, tx) \<leftarrow> apply_edict (ie_address_of env) e (ic_tx ic);
              if list_ex (\<lambda>x. le_amount x = None) es then None
              else do {
                ic \<leftarrow> add_ledger_entries_to_db_cache es (ic\<lparr>ic_tx := tx\<rparr>);
                Some (ic, db)
              }
            })
     }"

end
