(* ===== verification/Index.thy ===== *)
theory Index
  imports Index_Cache
begin

text \<open>
  Indexing and rolling back blocks (\<^verbatim>\<open>src/db/index.rs\<close>). A block and its transactions are the
  fields of the \<^verbatim>\<open>chainhook\<close> types that the code reads, output scripts already decoded. All
  statements of a block run in one database transaction, so a panic (\<open>None\<close>) leaves the
  database as it was.
\<close>

section \<open>Blocks\<close>

record 's tx_data =
  td_txid :: ustr
  td_index :: u32
  td_inputs :: "tx_in list"
  td_outputs :: "(u64 \<times> 's) list"

record 's block_data =
  bd_hash :: ustr
  bd_height :: u64
  bd_timestamp :: u32
  bd_txs :: "'s tx_data list"

fun get_rune_genesis_block_height :: "network \<Rightarrow> u64 option" where
  "get_rune_genesis_block_height Bitcoin = Some 840000"
| "get_rune_genesis_block_height (Testnet V3) = Some 2539948"
| "get_rune_genesis_block_height (Testnet V4) = Some 1"
| "get_rune_genesis_block_height Signet = None"
| "get_rune_genesis_block_height Regtest = Some 1"
| "get_rune_genesis_block_height _ = None"

section \<open>Outputs\<close>

fun scan_outputs ::
    "('s \<Rightarrow> bool) \<Rightarrow> nat \<Rightarrow> (u64 \<times> 's) list
     \<Rightarrow> 's tx_out list \<times> (u32, 's) hashmap \<times> u32 option
     \<Rightarrow> 's tx_out list \<times> (u32, 's) hashmap \<times> u32 option" where
  "scan_outputs is_op_return i [] s = s"
| "scan_outputs is_op_return i ((value, script) # rest) (outputs, eligible, first) =
     (let (eligible, first) =
        (if \<not> is_op_return script
         then (AList.update (of_nat i) script eligible,
           (if first = None then Some (of_nat i) else first))
         else (eligible, first))
      in scan_outputs is_op_return (i + 1) rest
        (outputs @ [\<lparr>out_value = value, out_script = script\<rparr>], eligible, first))"

text \<open>
  \<open>LockTime::from_time\<close> of the \<^verbatim>\<open>bitcoin\<close> crate refuses some timestamps (\<open>ie_valid_time\<close>), and
  the code unwraps it. The transaction has no inputs and its id is not read.
\<close>

definition bitcoin_tx_from_chainhook_tx ::
    "('s, 'lr, 'lm, 'lo) index_env \<Rightarrow> 's block_data \<Rightarrow> 's tx_data
     \<Rightarrow> ('s transaction \<times> (u32, 's) hashmap \<times> u32 option \<times> u32) option" where
  "bitcoin_tx_from_chainhook_tx env b t =
     (let (outputs, eligible, first) = scan_outputs (ie_is_op_return env) 0 (td_outputs t) ([], [], None)
      in if \<not> ie_valid_time env (bd_timestamp b) then None
         else Some (\<lparr>tx_id = td_txid t, tx_input = [], tx_output = outputs\<rparr>, eligible, first,
           of_nat (length (td_outputs t))))"

section \<open>A transaction\<close>

fun index_edicts ::
    "('s, 'lr, 'lm, 'lo) index_env \<Rightarrow> edict list \<Rightarrow> ('s, 'lr, 'lm, 'lo) index_state
     \<Rightarrow> ('s, 'lr, 'lm, 'lo) index_state option" where
  "index_edicts env [] s = Some s"
| "index_edicts env (e # es) s = do { s \<leftarrow> index_edict env e s; index_edicts env es s }"

definition index_artifact ::
    "('s, 'lr, 'lm, 'lo) index_env \<Rightarrow> artifact \<Rightarrow> ('s, 'lr, 'lm, 'lo) index_state
     \<Rightarrow> ('s, 'lr, 'lm, 'lo) index_state option" where
  "index_artifact env a s =
     (case a of
        Runestone rs \<Rightarrow>
          do {
            let s = index_runestone rs s;
            s \<leftarrow> (case rs_etching rs of Some e \<Rightarrow> index_etching env e s | None \<Rightarrow> Some s);
            s \<leftarrow> (case rs_mint rs of Some rid \<Rightarrow> index_mint env rid s | None \<Rightarrow> Some s);
            index_edicts env (rs_edicts rs) s
          }
      | Cenotaph cn \<Rightarrow>
          do {
            s \<leftarrow> index_cenotaph env s;
            s \<leftarrow> (case cn_etching cn of Some r \<Rightarrow> index_cenotaph_etching env r s | None \<Rightarrow> Some s);
            (case cn_mint cn of Some rid \<Rightarrow> index_cenotaph_mint env rid s | None \<Rightarrow> Some s)
          })"

definition index_tx ::
    "('s, 'lr, 'lm, 'lo) index_env \<Rightarrow> 's block_data \<Rightarrow> 's tx_data \<Rightarrow> ('s, 'lr, 'lm, 'lo) index_state
     \<Rightarrow> ('s, 'lr, 'lm, 'lo) index_state option" where
  "index_tx env b t s =
     do {
       (transaction, eligible_outputs, first_eligible_output, total_outputs) \<leftarrow>
         bitcoin_tx_from_chainhook_tx env b t;
       let l = \<lparr>tl_network = ic_network (fst s), tl_block_hash = bd_hash b,
         tl_block_height = bd_height b, tl_timestamp = bd_timestamp b,
         tl_tx_index = td_index t, tl_tx_id = td_txid t\<rparr>;
       s \<leftarrow> begin_transaction env l (td_inputs t) eligible_outputs first_eligible_output total_outputs s;
       found \<leftarrow> decipher (ie_instructions env) transaction;
       s \<leftarrow> (case found of Some a \<Rightarrow> index_artifact env a s | None \<Rightarrow> Some s);
       end_transaction env s
     }"

fun index_txs ::
    "('s, 'lr, 'lm, 'lo) index_env \<Rightarrow> 's block_data \<Rightarrow> 's tx_data list \<Rightarrow> ('s, 'lr, 'lm, 'lo) index_state
     \<Rightarrow> ('s, 'lr, 'lm, 'lo) index_state option" where
  "index_txs env b [] s = Some s"
| "index_txs env b (t # ts) s = do { s \<leftarrow> index_tx env b t s; index_txs env b ts s }"

section \<open>A block\<close>

text \<open>
  The third component of the result are the transaction ids sent to the mempool service, where
  there is one.
\<close>

definition index_block ::
    "('s, 'lr, 'lm, 'lo) index_env \<Rightarrow> bool \<Rightarrow> 's block_data \<Rightarrow> ('s, 'lr, 'lm, 'lo) index_state
     \<Rightarrow> (('s, 'lr, 'lm, 'lo) index_state \<times> ustr list) option" where
  "index_block env notify b s =
     do {
       s \<leftarrow> reset_max_rune_number s;
       (ic, db) \<leftarrow> index_txs env b (bd_txs b) s;
       let ic = end_block env ic;
       let db = pg_update_block_height (bd_height b) db;
       s \<leftarrow> flush_index env (ic, db);
       Some (s, if notify then map td_txid (bd_txs b) else [])
     }"

definition roll_back_block :: "u64 \<Rightarrow> database \<Rightarrow> database" where
  "roll_back_block h db = pg_roll_back_block h db"

end
