(* ===== verification/Ledger_Shape.thy ===== *)
theory Ledger_Shape
  imports Transaction_Cache
begin

text \<open>
  The shape of the ledger entries a transaction produces: every entry carries the place of its
  transaction, an amount unless it is an etching, an address when balance moves, and a
  printed rune id. Main facts: the operations of \<^verbatim>\<open>transaction_cache.rs\<close> produce such entries
  only and stay at their location, and none of them fails there.
\<close>

definition entry_of :: "tx_location \<Rightarrow> ledger_entry \<Rightarrow> bool" where
  "entry_of l e \<longleftrightarrow>
     le_block_hash e = drop 2 (tl_block_hash l) \<and> le_block_height e = tl_block_height l \<and>
     le_tx_index e = tl_tx_index l \<and> le_tx_id e = drop 2 (tl_tx_id l) \<and>
     le_timestamp e = tl_timestamp l \<and>
     (\<exists>rid. le_rune_id e = rune_id_to_string rid) \<and>
     (le_operation e = OpEtching \<or> le_amount e \<noteq> None) \<and>
     (le_operation e = OpReceive \<longrightarrow> le_address e \<noteq> None \<and> le_output e \<noteq> None \<and> le_amount e \<noteq> Some 0) \<and>
     (le_operation e = OpSend \<longrightarrow> le_address e \<noteq> None \<and> le_output e \<noteq> None \<and> le_receiver e \<noteq> None) \<and>
     (le_operation e \<noteq> OpSend \<longrightarrow> le_receiver e = None)"

abbreviation entries_of :: "tx_location \<Rightarrow> ledger_entry list \<Rightarrow> bool" where
  "entries_of l \<equiv> list_all (entry_of l)"

lemma new_entry_shape:
  assumes "new_entry l amount rid out address receiver op idx = Some (e, j)"
    and "op = OpEtching \<or> amount \<noteq> None"
    and "op = OpReceive \<Longrightarrow> address \<noteq> None \<and> out \<noteq> None \<and> amount \<noteq> Some 0"
    and "op = OpSend \<Longrightarrow> address \<noteq> None \<and> out \<noteq> None \<and> receiver \<noteq> None"
    and "op \<noteq> OpSend \<Longrightarrow> receiver = None"
  shows "entry_of l e"
  using assms
  by (auto simp: new_entry_def ledger_from_values_def entry_of_def bind_eq_Some_conv
      slice_from_def split: if_splits)

text \<open>Entries that move balance, out of inputs or away.\<close>

definition move_of :: "tx_location \<Rightarrow> ledger_entry \<Rightarrow> bool" where
  "move_of l e \<longleftrightarrow> entry_of l e \<and> le_operation e \<noteq> OpEtching \<and> le_operation e \<noteq> OpMint"

abbreviation moves_of :: "tx_location \<Rightarrow> ledger_entry list \<Rightarrow> bool" where
  "moves_of l \<equiv> list_all (move_of l)"

lemma moves_entries: "moves_of l es \<Longrightarrow> entries_of l es"
  by (simp add: list_all_iff move_of_def)

lemma new_entry_operation: "new_entry l amount rid out address receiver op idx = Some (e, j) \<Longrightarrow>
    le_operation e = op \<and> le_rune_id e = rune_id_to_string rid"
  by (auto simp: new_entry_def ledger_from_values_def bind_eq_Some_conv)

lemma new_entry_move:
  assumes "new_entry l amount rid out address receiver op idx = Some (e, j)"
    and "amount \<noteq> None" "op \<noteq> OpEtching" "op \<noteq> OpMint"
    and "op = OpReceive \<Longrightarrow> address \<noteq> None \<and> out \<noteq> None \<and> amount \<noteq> Some 0"
    and "op = OpSend \<Longrightarrow> address \<noteq> None \<and> out \<noteq> None \<and> receiver \<noteq> None"
    and "op \<noteq> OpSend \<Longrightarrow> receiver = None"
  shows "move_of l e"
  using new_entry_shape [OF assms(1)] new_entry_operation [OF assms(1)] assms(2-7) by (simp add: move_of_def)

lemma sender_entries_shape:
  assumes "sender_entries l rid out receiver op ss idx = Some (es, j)"
    and "op = OpBurn \<and> receiver = None \<or> op = OpSend \<and> out \<noteq> None \<and> receiver \<noteq> None"
  shows "moves_of l es"
  using assms
proof (induction l rid out receiver op ss idx arbitrary: es rule: sender_entries.induct)
  case (2 l rid out receiver op taken sender ss idx)
  then obtain e k fs where e: "new_entry l (Some taken) rid out (Some sender) receiver op idx = Some (e, k)"
    and fs: "sender_entries l rid out receiver op ss k = Some (fs, j)" and es: "es = e # fs"
    by (auto simp: bind_eq_Some_conv)
  have "move_of l e" by (rule new_entry_move [OF e]) (use "2.prems"(2) in auto)
  moreover have "moves_of l fs" by (rule "2.IH" [OF e refl fs "2.prems"(2)])
  ultimately show ?case by (simp add: es)
qed simp

lemma move_balance_shape:
  assumes "move_balance address_of l out rid inputs outputs amount idx = Some (es, rest, j)"
  shows "moves_of l es"
proof -
  let ?r = "receiver_of address_of l outputs out"
  obtain sent senders rest' where t: "take_inputs amount 0 [] inputs = (sent, senders, rest')"
    by (metis prod_cases3)
  from assms obtain rs k ss where
    rs: "(if ?r \<noteq> None \<and> sent > 0
       then do { (e, idx) \<leftarrow> new_entry l (Some sent) rid out ?r None OpReceive idx; Some ([e], idx) }
       else Some ([], idx)) = Some (rs, k)"
    and ss: "sender_entries l rid out ?r (if ?r \<noteq> None then OpSend else OpBurn) senders k = Some (ss, j)"
    and es: "es = rs @ ss"
    by (auto simp: move_balance_def Let_def t bind_eq_Some_conv split: if_splits)
  have out: "?r \<noteq> None \<Longrightarrow> out \<noteq> None" by (auto simp: receiver_of_def split: option.splits)
  have "moves_of l rs"
  proof (cases "?r \<noteq> None \<and> sent > 0")
    case True
    with rs obtain e where e: "new_entry l (Some sent) rid out ?r None OpReceive idx = Some (e, k)"
      and "rs = [e]" by (auto simp: bind_eq_Some_conv)
    with new_entry_move [OF e] True out show ?thesis by auto
  next
    case False
    with rs show ?thesis by auto
  qed
  moreover have "moves_of l ss" by (rule sender_entries_shape [OF ss]) (use out in auto)
  ultimately show ?thesis by (simp add: es)
qed

section \<open>The loops\<close>

lemma burn_balances_shape: "burn_balances l rid bs idx = Some (es, j) \<Longrightarrow> moves_of l es"
proof (induction bs arbitrary: idx es)
  case (Cons b bs)
  then obtain e k fs where e: "new_entry l (Some (ib_amount b)) rid None (ib_address b) None OpBurn idx = Some (e, k)"
    and fs: "burn_balances l rid bs k = Some (fs, j)" and es: "es = e # fs"
    by (auto simp: bind_eq_Some_conv)
  from new_entry_move [OF e] Cons.IH [OF fs] show ?case by (simp add: es)
qed simp

lemma burn_runes_shape: "burn_runes l rs idx = Some (es, j) \<Longrightarrow> moves_of l es"
proof (induction rs arbitrary: idx es)
  case (Cons r rs)
  then obtain fs k gs where "burn_balances l (fst r) (snd r) idx = Some (fs, k)"
    "burn_runes l rs k = Some (gs, j)" "es = fs @ gs"
    by (cases r) (auto simp: bind_eq_Some_conv)
  with Cons.IH burn_balances_shape show ?case by auto
qed simp

lemma allocate_runes_shape:
  "allocate_runes address_of c rs idx = Some (es, j) \<Longrightarrow> moves_of (tc_location c) es"
proof (induction rs arbitrary: idx es)
  case (Cons r rs)
  then obtain fs rest k gs where "move_balance address_of (tc_location c) (tc_pointer c) (fst r) (snd r)
      (tc_outputs c) 0 idx = Some (fs, rest, k)"
    "allocate_runes address_of c rs k = Some (gs, j)" "es = fs @ gs"
    by (cases r) (auto simp: bind_eq_Some_conv)
  with Cons.IH move_balance_shape show ?case by auto
qed simp

lemma move_each_shape:
  "move_each address_of l rid outputs dests inputs idx = Some (es, rest, j) \<Longrightarrow> moves_of l es"
proof (induction dests arbitrary: inputs idx es)
  case (Cons d dests)
  then obtain fs inputs' k gs where "move_balance address_of l (Some (fst d)) rid inputs outputs (snd d) idx =
      Some (fs, inputs', k)"
    "move_each address_of l rid outputs dests inputs' k = Some (gs, rest, j)" "es = fs @ gs"
    by (cases d) (auto simp: bind_eq_Some_conv)
  with Cons.IH move_balance_shape show ?case by auto
qed simp

lemma edict_moves_shape:
  assumes "edict_moves address_of c e rid available = Some (es, rest, j)"
  shows "moves_of (tc_location c) es"
  by (rule edict_moves_cases [of address_of c e rid available])
    (use assms move_balance_shape move_each_shape in \<open>metis\<close>)+

section \<open>The operations\<close>

lemma add_input_runes_location [simp]:
  "tc_location (add_input_runes rid b c) = tc_location c"
  "tc_next_event (add_input_runes rid b c) = tc_next_event c"
  by (simp_all add: add_input_runes_def)

lemma rune_from_etching_place:
  "rune_from_etching e number l = Some r \<Longrightarrow> dr_block_height r = tl_block_height l \<and> dr_number r = number"
  by (auto simp: rune_from_etching_def bind_eq_Some_conv Let_def)

lemma rune_from_cenotaph_place:
  "rune_from_cenotaph name number l = Some r \<Longrightarrow>
   dr_block_height r = tl_block_height l \<and> dr_number r = number"
  by (auto simp: rune_from_cenotaph_def bind_eq_Some_conv)

lemma apply_etching_shape:
  assumes "apply_etching e number c = Some ((rid, r, entry), c')"
  shows "entry_of (tc_location c) entry \<and> tc_location c' = tc_location c \<and>
    rune_from_etching e number (tc_location c) = Some r \<and> rid = location_rune_id (tc_location c) \<and>
    tc_etching c' = Some r"
proof -
  let ?c = "case et_premine e of
      Some premine \<Rightarrow> add_input_runes (location_rune_id (tc_location c))
        \<lparr>ib_address = None, ib_amount = premine\<rparr> (c\<lparr>tc_etching := Some r\<rparr>)
    | None \<Rightarrow> c\<lparr>tc_etching := Some r\<rparr>"
  have c: "tc_location ?c = tc_location c" "tc_etching ?c = Some r"
    by (simp_all add: add_input_runes_def split: option.split)
  from assms obtain k where r: "rune_from_etching e number (tc_location c) = Some r"
    and e: "new_entry (tc_location ?c) None rid None None None OpEtching (tc_next_event ?c) = Some (entry, k)"
    and rid: "rid = location_rune_id (tc_location c)" and c': "c' = ?c\<lparr>tc_next_event := k\<rparr>"
    unfolding apply_etching_def Let_def bind_eq_Some_conv by (auto simp only: prod.case bind_eq_Some_conv prod.inject option.inject)
  have "entry_of (tc_location c) entry" using new_entry_shape [OF e] c by simp
  with r rid c c' show ?thesis by simp
qed

lemma apply_cenotaph_etching_shape:
  assumes "apply_cenotaph_etching name number c = Some ((rid, r, entry), c')"
  shows "entry_of (tc_location c) entry \<and> tc_location c' = tc_location c \<and>
    rune_from_cenotaph name number (tc_location c) = Some r \<and> rid = location_rune_id (tc_location c) \<and>
    tc_etching c' = Some r"
proof -
  from assms obtain k where "rune_from_cenotaph name number (tc_location c) = Some r"
    and e: "new_entry (tc_location c) None rid None None None OpEtching (tc_next_event c) = Some (entry, k)"
    and "rid = location_rune_id (tc_location c)"
    and "c' = c\<lparr>tc_etching := Some r, tc_next_event := k\<rparr>"
    by (auto simp: apply_cenotaph_etching_def bind_eq_Some_conv Let_def)
  with new_entry_shape [OF e] show ?thesis by simp
qed

lemma apply_mint_shape:
  assumes "apply_mint rid n r c = Some (e, c')"
  shows "entries_of (tc_location c) (opt_list e) \<and> tc_location c' = tc_location c \<and> tc_etching c' = tc_etching c"
proof (cases "is_rune_mintable r n (tc_location c)")
  case True
  with assms obtain amount entry k where "e = Some entry"
    and en: "new_entry (tc_location c) (Some amount) rid None None None OpMint (tc_next_event c) = Some (entry, k)"
    and "c' = add_input_runes rid \<lparr>ib_address = None, ib_amount = amount\<rparr> c\<lparr>tc_next_event := k\<rparr>"
    by (auto simp: apply_mint_def bind_eq_Some_conv Let_def)
  with new_entry_shape [OF en] show ?thesis by (simp add: add_input_runes_def)
next
  case False
  with assms show ?thesis by (auto simp: apply_mint_def)
qed

lemma apply_cenotaph_mint_shape:
  assumes "apply_cenotaph_mint rid n r c = Some (e, c')"
  shows "entries_of (tc_location c) (opt_list e) \<and> tc_location c' = tc_location c \<and> tc_etching c' = tc_etching c"
proof (cases "is_rune_mintable r n (tc_location c)")
  case True
  with assms obtain amount entry k where "e = Some entry"
    and en: "new_entry (tc_location c) (Some amount) rid None None None OpBurn (tc_next_event c) = Some (entry, k)"
    and "c' = c\<lparr>tc_next_event := k\<rparr>"
    by (auto simp: apply_cenotaph_mint_def bind_eq_Some_conv Let_def)
  with new_entry_shape [OF en] show ?thesis by simp
next
  case False
  with assms show ?thesis by (auto simp: apply_cenotaph_mint_def)
qed

lemma apply_edict_shape:
  assumes "apply_edict address_of e c = Some (es, c')"
  shows "entries_of (tc_location c) es" "tc_location c' = tc_location c" "moves_of (tc_location c) es"
  using assms
  by (auto simp: apply_edict_def bind_eq_Some_conv split: option.splits dest: edict_moves_shape intro: moves_entries)

lemma burn_shape:
  assumes "apply_cenotaph_input_burn it c = Some (es, c')"
  shows "entries_of (tc_location c) es" "tc_location c' = tc_location c" "moves_of (tc_location c) es"
  using assms by (auto simp: apply_cenotaph_input_burn_def bind_eq_Some_conv dest: burn_runes_shape intro: moves_entries)

lemma allocate_shape:
  assumes "allocate_remaining_balances address_of it c = Some (es, c')"
  shows "entries_of (tc_location c) es" "tc_location c' = tc_location c" "moves_of (tc_location c) es"
  using assms by (auto simp: allocate_remaining_balances_def bind_eq_Some_conv dest: allocate_runes_shape intro: moves_entries)

lemma run_action_shape:
  assumes "run_action address_of it a c = Some (es, c')"
  shows "entries_of (tc_location c) es \<and> tc_location c' = tc_location c"
proof (cases a)
  case (DoMint rid m r)
  with assms obtain e where e: "apply_mint rid m r c = Some (e, c')" and es: "es = opt_list e" by auto
  from apply_mint_shape [OF e] show ?thesis by (simp only: es)
next
  case (DoCenotaphMint rid m r)
  with assms obtain e where e: "apply_cenotaph_mint rid m r c = Some (e, c')" and es: "es = opt_list e" by auto
  from apply_cenotaph_mint_shape [OF e] show ?thesis by (simp only: es)
next
  case (DoEdict e)
  with assms show ?thesis using apply_edict_shape [of address_of e c es c'] by simp
next
  case DoBurnInputs
  with assms show ?thesis using burn_shape [of it c es c'] by simp
next
  case DoAllocate
  with assms show ?thesis using allocate_shape [of address_of it c es c'] by simp
next
  case (DoEtching e number)
  with assms obtain rid r entry where "apply_etching e number c = Some ((rid, r, entry), c')" "es = [entry]" by auto
  with apply_etching_shape show ?thesis by fastforce
next
  case (DoCenotaphEtching name number)
  with assms obtain rid r entry where "apply_cenotaph_etching name number c = Some ((rid, r, entry), c')" "es = [entry]"
    by auto
  with apply_cenotaph_etching_shape show ?thesis by fastforce
qed

section \<open>No operation fails\<close>

lemma burn_runes_total:
  assumes "location_ok l"
  shows "burn_runes l rs idx \<noteq> None"
proof -
  have each: "burn_balances l rid bs idx \<noteq> None" for rid bs idx
  proof (induction bs arbitrary: idx)
    case (Cons b bs)
    obtain e j where "new_entry l (Some (ib_amount b)) rid None (ib_address b) None OpBurn idx = Some (e, j)"
      using new_entry_total [OF assms] by fastforce
    with Cons [of j] show ?case by auto
  qed simp
  show ?thesis
  proof (induction rs arbitrary: idx)
    case (Cons r rs)
    obtain es j where "burn_balances l (fst r) (snd r) idx = Some (es, j)" using each by fastforce
    with Cons [of j] show ?case by (cases r) auto
  qed simp
qed

lemma allocate_runes_total:
  assumes "location_ok (tc_location c)"
  shows "allocate_runes address_of c rs idx \<noteq> None"
proof (induction rs arbitrary: idx)
  case (Cons r rs)
  obtain es rest j where "move_balance address_of (tc_location c) (tc_pointer c) (fst r) (snd r) (tc_outputs c) 0 idx =
      Some (es, rest, j)"
    using move_balance_total [OF assms] by (metis not_None_eq prod_cases3)
  with Cons [of j] show ?case by (cases r) auto
qed simp

lemma run_action_total:
  assumes "location_ok (tc_location c)"
  shows "run_action address_of it a c \<noteq> None"
proof -
  have entry: "\<exists>e j. new_entry (tc_location c) amount rid out address receiver op idx = Some (e, j)"
    for amount rid out address receiver op idx
    using new_entry_total [OF assms] by fastforce
  show ?thesis
  proof (cases a)
    case (DoEtching e number)
    obtain r where "rune_from_etching e number (tc_location c) = Some r"
      using rune_from_etching_total [OF assms] by blast
    moreover obtain x j where "new_entry (tc_location c) None (location_rune_id (tc_location c)) None None None
        OpEtching (tc_next_event c) = Some (x, j)"
      using entry by blast
    ultimately show ?thesis
      by (cases "et_premine e") (simp_all add: DoEtching apply_etching_def Let_def)
  next
    case (DoCenotaphEtching name number)
    obtain r where "rune_from_cenotaph name number (tc_location c) = Some r"
      using rune_from_cenotaph_total [OF assms] by blast
    moreover obtain x j where "new_entry (tc_location c) None (location_rune_id (tc_location c)) None None None
        OpEtching (tc_next_event c) = Some (x, j)"
      using entry by blast
    ultimately show ?thesis by (simp add: DoCenotaphEtching apply_cenotaph_etching_def Let_def)
  next
    case (DoMint rid m r)
    show ?thesis
    proof (cases "is_rune_mintable r m (tc_location c)")
      case True
      then obtain amount where "dr_terms_amount r = Some amount"
        by (auto simp: is_rune_mintable_def split: if_splits)
      moreover obtain x j where "new_entry (tc_location c) (Some amount) rid None None None OpMint
          (tc_next_event c) = Some (x, j)"
        using entry by blast
      ultimately show ?thesis using True by (simp add: DoMint apply_mint_def Let_def)
    qed (simp add: DoMint apply_mint_def)
  next
    case (DoCenotaphMint rid m r)
    show ?thesis
    proof (cases "is_rune_mintable r m (tc_location c)")
      case True
      then obtain amount where "dr_terms_amount r = Some amount"
        by (auto simp: is_rune_mintable_def split: if_splits)
      moreover obtain x j where "new_entry (tc_location c) (Some amount) rid None None None OpBurn
          (tc_next_event c) = Some (x, j)"
        using entry by blast
      ultimately show ?thesis using True by (simp add: DoCenotaphMint apply_cenotaph_mint_def Let_def)
    qed (simp add: DoCenotaphMint apply_cenotaph_mint_def)
  next
    case (DoEdict e)
    then show ?thesis using apply_edict_total [OF assms] by simp
  next
    case DoBurnInputs
    obtain es j where "burn_runes (tc_location c) (it (tc_inputs c)) (tc_next_event c) = Some (es, j)"
      using burn_runes_total [OF assms] by fastforce
    then show ?thesis by (simp add: DoBurnInputs apply_cenotaph_input_burn_def)
  next
    case DoAllocate
    obtain es j where "allocate_runes address_of c (it (tc_inputs c)) (tc_next_event c) = Some (es, j)"
      using allocate_runes_total [OF assms] by fastforce
    then show ?thesis by (simp add: DoAllocate allocate_remaining_balances_def)
  qed
qed

section \<open>Properties\<close>

text \<open>
  C9. The operations on a transaction are safe and their entries well typed: where the block hash
  and the transaction id carry their two characters of prefix, no sequence of operations
  panics, and every entry it makes carries the place of the transaction, a printed rune id, an
  amount unless it is an etching, an address and an output with a positive amount when it is a
  receipt, a sender, an output and a receiver when it is a transfer, and no receiver otherwise.
\<close>

theorem transaction_entries_well_typed:
  assumes "location_ok (tc_location c)"
  shows "\<exists>es c'. run_steps (run_action address_of it) actions c = Some (es, c') \<and>
    list_all (entry_of (tc_location c)) es \<and> tc_location c' = tc_location c"
  using assms
proof (induction actions arbitrary: c)
  case (Cons a as)
  obtain es c1 where a: "run_action address_of it a c = Some (es, c1)"
    using run_action_total [OF Cons.prems] by fastforce
  with run_action_shape [OF a] Cons.IH [of c1] Cons.prems show ?case by fastforce
qed simp

lemma transaction_entries_well_typed_witness:
  "\<exists>es c'. run_steps (run_action sample_address rev) [DoEdict \<lparr>ed_id = RuneId 1 0, ed_amount = 8, ed_output = 2\<rparr>, DoAllocate]
     sample_cache = Some (es, c') \<and> list_all (entry_of sample_location) es"
proof -
  have "location_ok (tc_location sample_cache)" and "tc_location sample_cache = sample_location"
    by (simp_all add: sample_cache_def tx_cache_new_def sample_location_def location_ok_def lit_def)
  with transaction_entries_well_typed [of sample_cache sample_address rev
      "[DoEdict \<lparr>ed_id = RuneId 1 0, ed_amount = 8, ed_output = 2\<rparr>, DoAllocate]"] show ?thesis
    by fastforce
qed

end
