(* ===== verification/Ledger_Books.thy ===== *)
theory Ledger_Books
  imports Index_Cache Ledger_Shape
begin

text \<open>
  The ledger as the book of original entry: what each account should hold according to it, and
  that the cache of pending changes and the tables written from it agree with the ledger
  entries they stand for. Sums are compared as long as they stay below \<open>2 ^ 128\<close>, the width
  of a pending change.
\<close>

section \<open>Sums over the ledger\<close>

definition tally :: "('k \<Rightarrow> ledger_entry \<Rightarrow> nat) \<Rightarrow> ledger_entry list \<Rightarrow> 'k \<Rightarrow> nat" where
  "tally g ls k = sum_list (map (g k) ls)"

lemma tally_simps [simp]:
  "tally g [] k = 0" "tally g (e # ls) k = g k e + tally g ls k"
  "tally g (ls @ ms) k = tally g ls k + tally g ms k"
  by (simp_all add: tally_def)

definition entry_amount :: "ledger_entry \<Rightarrow> nat" where
  "entry_amount e = unat (unwrap_or 0 (le_amount e))"

definition credit_of :: "ustr \<times> ustr \<Rightarrow> ledger_entry \<Rightarrow> nat" where
  "credit_of k e =
     (if le_operation e = OpReceive \<and> le_rune_id e = fst k \<and> le_address e = Some (snd k)
      then entry_amount e else 0)"

definition debit_of :: "ustr \<times> ustr \<Rightarrow> ledger_entry \<Rightarrow> nat" where
  "debit_of k e =
     (if le_operation e = OpSend \<and> le_rune_id e = fst k \<and> le_address e = Some (snd k)
      then entry_amount e else 0)"

definition minted_of :: "ustr \<Rightarrow> ledger_entry \<Rightarrow> nat" where
  "minted_of i e = (if le_operation e = OpMint \<and> le_rune_id e = i then entry_amount e else 0)"

definition mints_of :: "ustr \<Rightarrow> ledger_entry \<Rightarrow> nat" where
  "mints_of i e = (if le_operation e = OpMint \<and> le_rune_id e = i then 1 else 0)"

definition burned_of :: "ustr \<Rightarrow> ledger_entry \<Rightarrow> nat" where
  "burned_of i e = (if le_operation e = OpBurn \<and> le_rune_id e = i then entry_amount e else 0)"

definition burns_of :: "ustr \<Rightarrow> ledger_entry \<Rightarrow> nat" where
  "burns_of i e = (if le_operation e = OpBurn \<and> le_rune_id e = i then 1 else 0)"

definition operations_of :: "ustr \<Rightarrow> ledger_entry \<Rightarrow> nat" where
  "operations_of i e = (if le_rune_id e = i then 1 else 0)"

lemmas book_defs = credit_of_def debit_of_def minted_of_def mints_of_def burned_of_def
  burns_of_def operations_of_def entry_amount_def

section \<open>Pending changes\<close>

text \<open>The changes of a map say what the entries \<open>ls\<close> say, where that fits the width.\<close>

definition posted ::
    "('c \<Rightarrow> u128) \<Rightarrow> ('k \<Rightarrow> ledger_entry \<Rightarrow> nat) \<Rightarrow> ('k, 'c) hashmap \<Rightarrow> ledger_entry list \<Rightarrow> bool" where
  "posted f g m ls \<longleftrightarrow> (\<forall>k. tally g ls k < 2 ^ 128 \<longrightarrow> pending f m k = tally g ls k)"

lemma posted_Nil: "posted f g [] []"
  by (simp add: posted_def pending_def)

lemma posted_upsert:
  assumes "posted f g m ls" "\<And>c. f (u c) = f c + a" "f d = a"
    and "\<And>k'. g k' e = (if k' = k then unat a else 0)"
  shows "posted f g (hm_upsert k u d m) (ls @ [e])"
  unfolding posted_def
proof (intro allI impI)
  fix k' assume b: "tally g (ls @ [e]) k' < 2 ^ 128"
  then have p: "pending f m k' = tally g ls k'" using assms(1) by (simp add: posted_def)
  show "pending f (hm_upsert k u d m) k' = tally g (ls @ [e]) k'"
  proof (cases "k' = k")
    case True
    with b p assms(4) have "pending f m k + unat a < 2 ^ 128" by simp
    then show ?thesis
      using p True assms
      by (cases "map_of m k") (simp_all add: pending_def hashmap unat_add_fits)
  next
    case False
    with p assms(4) show ?thesis by (simp add: pending_def hashmap)
  qed
qed

lemma posted_skip:
  assumes "posted f g m ls" "\<And>k. g k e = 0"
  shows "posted f g m (ls @ [e])"
  using assms by (simp add: posted_def)

definition cache_books :: "db_cache \<Rightarrow> bool" where
  "cache_books dc \<longleftrightarrow>
     posted bc_balance credit_of (dc_increases dc) (dc_ledger dc) \<and>
     posted bc_balance debit_of (dc_deductions dc) (dc_ledger dc) \<and>
     posted sc_minted minted_of (dc_supply dc) (dc_ledger dc) \<and>
     posted sc_total_mints mints_of (dc_supply dc) (dc_ledger dc) \<and>
     posted sc_burned burned_of (dc_supply dc) (dc_ledger dc) \<and>
     posted sc_total_burns burns_of (dc_supply dc) (dc_ledger dc) \<and>
     posted sc_total_operations operations_of (dc_supply dc) (dc_ledger dc)"

lemma cache_books_new: "cache_books db_cache_new"
  by (simp add: cache_books_def db_cache_new_def posted_Nil)

lemmas change_defs = supply_from_operation_def supply_from_mint_def supply_from_burn_def
  balance_from_operation_def bump_operations_def bump_mint_def bump_burn_def

lemma add_ledger_entry_books:
  assumes "cache_books dc" "entry_of l e"
    and "add_ledger_entry e (dc\<lparr>dc_ledger := dc_ledger dc @ [e]\<rparr>, outs) = Some (dc', outs')"
  shows "cache_books dc'"
proof -
  have b: "posted bc_balance credit_of (dc_increases dc) (dc_ledger dc)"
    "posted bc_balance debit_of (dc_deductions dc) (dc_ledger dc)"
    "posted sc_minted minted_of (dc_supply dc) (dc_ledger dc)"
    "posted sc_total_mints mints_of (dc_supply dc) (dc_ledger dc)"
    "posted sc_burned burned_of (dc_supply dc) (dc_ledger dc)"
    "posted sc_total_burns burns_of (dc_supply dc) (dc_ledger dc)"
    "posted sc_total_operations operations_of (dc_supply dc) (dc_ledger dc)"
    using assms(1) by (simp_all add: cache_books_def)
  note up = b [THEN posted_upsert] and skip = b [THEN posted_skip]
  show ?thesis
  proof (cases "le_operation e")
    case OpEtching
    then show ?thesis using assms(3)
      by (auto simp: add_ledger_entry_def add_operation_def cache_books_def change_defs book_defs
          intro!: skip up)
  next
    case OpMint
    then obtain a where "le_amount e = Some a" using assms(2) by (auto simp: entry_of_def)
    with OpMint show ?thesis using assms(3)
      by (auto simp: add_ledger_entry_def cache_books_def change_defs book_defs intro!: skip up)
  next
    case OpBurn
    then obtain a where "le_amount e = Some a" using assms(2) by (auto simp: entry_of_def)
    with OpBurn show ?thesis using assms(3)
      by (auto simp: add_ledger_entry_def cache_books_def change_defs book_defs intro!: skip up)
  next
    case OpSend
    then obtain a d where "le_amount e = Some a" "le_address e = Some d" using assms(2) by (auto simp: entry_of_def)
    with OpSend show ?thesis using assms(3)
      by (auto simp: add_ledger_entry_def add_operation_def add_balance_change_def cache_books_def change_defs
          book_defs intro!: skip up)
  next
    case OpReceive
    then obtain a d where "le_amount e = Some a" "le_address e = Some d" using assms(2) by (auto simp: entry_of_def)
    with OpReceive show ?thesis using assms(3)
      by (auto simp: add_ledger_entry_def add_operation_def add_balance_change_def cache_books_def change_defs
          book_defs bind_eq_Some_conv Let_def intro!: skip up)
  qed
qed

end
