(* ===== verification/Index_Steps.thy ===== *)
theory Index_Steps
  imports Index Ledger_Books
begin

text \<open>
  What indexing a block does to the rows: every operation of \<^verbatim>\<open>index_cache.rs\<close> is simulated by
  steps of a small relation on the pending rows and the database, at the height of the block.
  The invariants of blocks are proved once on that relation.
\<close>

section \<open>Steps on rows\<close>

text \<open>
  A ledger entry of the block is recorded, a rune of the block is queued, or the queue is
  written.
\<close>

inductive row_step :: "flush_order \<Rightarrow> u64 \<Rightarrow> db_cache \<times> database \<Rightarrow> db_cache \<times> database \<Rightarrow> bool"
  for fo :: flush_order and h :: u64 where
  record_entry: "entry_of l e \<Longrightarrow> tl_block_height l = h \<Longrightarrow>
    add_ledger_entry e (dc\<lparr>dc_ledger := dc_ledger dc @ [e]\<rparr>, outs) = Some (dc', outs') \<Longrightarrow>
    row_step fo h (dc, db) (dc', db)"
| queue_rune: "dr_block_height r = h \<Longrightarrow>
    row_step fo h (dc, db) (dc\<lparr>dc_runes := dc_runes dc @ [r]\<rparr>, db)"
| write_rows: "flush fo dc db = Some (dc', db') \<Longrightarrow> row_step fo h (dc, db) (dc', db')"

inductive_cases row_stepE: "row_step fo h s s'"

abbreviation row_steps :: "flush_order \<Rightarrow> u64 \<Rightarrow> db_cache \<times> database \<Rightarrow> db_cache \<times> database \<Rightarrow> bool" where
  "row_steps fo h \<equiv> (row_step fo h)\<^sup>*\<^sup>*"

section \<open>Recording entries is recording them one by one\<close>

lemma add_ledger_entry_ledger:
  "add_ledger_entry e (dc\<lparr>dc_ledger := ls\<rparr>, outs) =
     map_option (\<lambda>(dc, outs). (dc\<lparr>dc_ledger := ls\<rparr>, outs)) (add_ledger_entry e (dc, outs))"
  by (cases "le_operation e"; cases "le_amount e"; cases "le_address e"; cases "le_output e";
      cases "rune_id_from_str (le_rune_id e)")
    (simp_all add: add_ledger_entry_def add_operation_def Let_def)

lemma add_ledger_entry_keeps:
  "add_ledger_entry e (dc, outs) = Some (dc', outs') \<Longrightarrow>
   dc_ledger dc' = dc_ledger dc \<and> dc_runes dc' = dc_runes dc"
  by (cases "le_operation e")
    (auto simp: add_ledger_entry_def add_operation_def bind_eq_Some_conv Let_def split: option.splits)

lemma add_each_entry_steps:
  assumes "add_each_entry es (dc\<lparr>dc_ledger := dc_ledger dc @ es\<rparr>, outs) = Some (dc', outs')"
    and "entries_of l es" "tl_block_height l = h"
  shows "row_steps fo h (dc, db) (dc', db) \<and> dc_ledger dc' = dc_ledger dc @ es \<and> dc_runes dc' = dc_runes dc"
  using assms
proof (induction es arbitrary: dc outs)
  case Nil
  then show ?case by simp
next
  case (Cons e es)
  let ?one = "dc\<lparr>dc_ledger := dc_ledger dc @ [e]\<rparr>"
  have two: "dc\<lparr>dc_ledger := dc_ledger dc @ e # es\<rparr> = ?one\<lparr>dc_ledger := dc_ledger dc @ e # es\<rparr>" by simp
  have "add_each_entry (e # es) (?one\<lparr>dc_ledger := dc_ledger dc @ e # es\<rparr>, outs) = Some (dc', outs')"
    using Cons.prems(1) by (simp only: two [symmetric])
  then obtain d1 o1 where 1: "add_ledger_entry e (?one, outs) = Some (d1, o1)"
    and 2: "add_each_entry es (d1\<lparr>dc_ledger := dc_ledger dc @ e # es\<rparr>, o1) = Some (dc', outs')"
    unfolding add_each_entry.simps add_ledger_entry_ledger [where dc = ?one]
    by (cases "add_ledger_entry e (?one, outs)") (auto simp del: db_cache.simps)
  have d1: "dc_ledger d1 = dc_ledger dc @ [e]" "dc_runes d1 = dc_runes dc"
    using add_ledger_entry_keeps [OF 1] by simp_all
  have "row_steps fo h (d1, db) (dc', db) \<and> dc_ledger dc' = dc_ledger d1 @ es \<and> dc_runes dc' = dc_runes d1"
    using Cons.IH [of d1 o1] 2 d1 Cons.prems(2,3) by simp
  moreover have "row_step fo h (dc, db) (d1, db)"
    by (rule record_entry [OF _ Cons.prems(3) 1]) (use Cons.prems(2) in simp)
  ultimately show ?case using d1 by (auto intro: converse_rtranclp_into_rtranclp)
qed

section \<open>Simulation\<close>

text \<open>The rows of a state of the index, and the place and height of the transaction it works on.\<close>

definition rows_of :: "('s, 'lr, 'lm, 'lo) index_state \<Rightarrow> db_cache \<times> database" where
  "rows_of s = (ic_db (fst s), snd s)"

definition place_of :: "('s, 'lr, 'lm, 'lo) index_state \<Rightarrow> tx_location" where
  "place_of s = tc_location (ic_tx (fst s))"

definition height_of :: "('s, 'lr, 'lm, 'lo) index_state \<Rightarrow> u64" where
  "height_of s = tl_block_height (place_of s)"

definition simulates ::
    "('s, 'lr, 'lm, 'lo) index_env \<Rightarrow> ('s, 'lr, 'lm, 'lo) index_state \<Rightarrow> ('s, 'lr, 'lm, 'lo) index_state \<Rightarrow> bool" where
  "simulates env s s' \<longleftrightarrow>
     row_steps (ie_flush_order env) (height_of s) (rows_of s) (rows_of s') \<and> place_of s' = place_of s"

lemma simulates_refl: "simulates env s s"
  by (simp add: simulates_def)

lemma simulates_trans: "simulates env s t \<Longrightarrow> simulates env t u \<Longrightarrow> simulates env s u"
  by (auto simp: simulates_def height_of_def intro: rtranclp_trans)

text \<open>Changes of the caches only.\<close>

lemma simulates_silent:
  "ic_db ic' = ic_db ic \<Longrightarrow> tc_location (ic_tx ic') = tc_location (ic_tx ic) \<Longrightarrow>
   simulates env (ic, db) (ic', db)"
  by (simp add: simulates_def rows_of_def height_of_def place_of_def)

lemma simulates_flush:
  assumes "flush_index env s = Some s'"
  shows "simulates env s s'" "fst s' = (fst s)\<lparr>ic_db := ic_db (fst s')\<rparr>"
proof -
  obtain ic db where s: "s = (ic, db)" by (cases s)
  with assms obtain dc db' where "flush (ie_flush_order env) (ic_db ic) db = Some (dc, db')"
    "s' = (ic\<lparr>ic_db := dc\<rparr>, db')"
    by (auto simp: flush_index_def bind_eq_Some_conv)
  then show "simulates env s s'" "fst s' = (fst s)\<lparr>ic_db := ic_db (fst s')\<rparr>"
    by (auto simp: s simulates_def rows_of_def height_of_def place_of_def intro!: r_into_rtranclp write_rows)
qed

lemma simulates_entries:
  assumes "add_ledger_entries_to_db_cache es ic = Some ic'"
    and "entries_of l es" "tl_block_height l = tl_block_height (tc_location (ic_tx ic))"
  shows "simulates env (ic, db) (ic', db)"
    "ic' = ic\<lparr>ic_db := ic_db ic', ic_block_outputs := ic_block_outputs ic'\<rparr>"
proof -
  obtain dc outs where a: "add_each_entry es ((ic_db ic)\<lparr>dc_ledger := dc_ledger (ic_db ic) @ es\<rparr>,
      ic_block_outputs ic) = Some (dc, outs)" "ic' = ic\<lparr>ic_db := dc, ic_block_outputs := outs\<rparr>"
    using assms(1) by (auto simp: add_ledger_entries_to_db_cache_def bind_eq_Some_conv Let_def)
  from add_each_entry_steps [OF a(1) assms(2,3)] a(2)
  show "simulates env (ic, db) (ic', db)"
    "ic' = ic\<lparr>ic_db := ic_db ic', ic_block_outputs := ic_block_outputs ic'\<rparr>"
    by (simp_all add: simulates_def rows_of_def height_of_def place_of_def)
qed

section \<open>The operations\<close>

lemma simulates_get_rune:
  assumes "get_cached_rune_by_rune_id env rid s = Some (r, s')"
  shows "simulates env s s' \<and> ic_tx (fst s') = ic_tx (fst s)"
proof -
  obtain ic db where s: "s = (ic, db)" by (cases s)
  obtain hit l where g: "lru_get (ie_runes env) rid (ic_runes ic) = (hit, l)" by (cases "lru_get (ie_runes env) rid (ic_runes ic)")
  let ?ic = "ic\<lparr>ic_runes := l\<rparr>"
  show ?thesis
  proof (cases "is_zero_id rid \<or> hit \<noteq> None")
    case True
    then show ?thesis using assms
      by (cases "is_zero_id rid")
        (auto simp: s get_cached_rune_by_rune_id_def g simp: simulates_refl simulates_silent)
  next
    case False
    with assms obtain t where f: "flush_index env (?ic, db) = Some t"
      and s': "ic_db (fst s') = ic_db (fst t)" "ic_tx (fst s') = ic_tx (fst t)" "snd s' = snd t"
      by (cases "is_zero_id rid")
        (auto simp: s get_cached_rune_by_rune_id_def g bind_eq_Some_conv split: option.splits)
    have "simulates env t s'"
      using s' by (cases t; cases s') (simp add: simulates_silent)
    moreover have "simulates env s (?ic, db)" by (simp add: s simulates_silent)
    moreover have "ic_tx (fst t) = ic_tx ic"
      using arg_cong [OF simulates_flush(2) [OF f], of ic_tx] by simp
    then have "ic_tx (fst s') = ic_tx (fst s)" using s' by (auto simp: s)
    ultimately show ?thesis using simulates_flush(1) [OF f] simulates_trans by blast
  qed
qed

lemma simulates_get_mints:
  assumes "get_cached_rune_total_mints env rid s = Some (n, s')"
  shows "simulates env s s' \<and> ic_tx (fst s') = ic_tx (fst s)"
proof -
  obtain ic db where s: "s = (ic, db)" by (cases s)
  show ?thesis
  proof (cases "is_zero_id rid \<and> tc_etching (ic_tx ic) = None")
    case True
    then show ?thesis using assms
      by (auto simp: s get_cached_rune_total_mints_def intro: simulates_refl)
  next
    case False
    let ?real = "if is_zero_id rid
      then (case rune_id_from_str (dr_id (the (tc_etching (ic_tx ic)))) of Inl _ \<Rightarrow> None | Inr i \<Rightarrow> Some i)
      else Some rid"
    from False assms obtain real_id where real: "?real = Some real_id"
      unfolding get_cached_rune_total_mints_def s by (cases ?real) auto
    obtain hit l where g: "lru_get (ie_mints env) real_id (ic_mints ic) = (hit, l)"
      by (cases "lru_get (ie_mints env) real_id (ic_mints ic)")
    have c: "(case hit of Some n \<Rightarrow> Some (Some n, (ic\<lparr>ic_mints := l\<rparr>, db))
        | None \<Rightarrow> do {
            (ic, db) \<leftarrow> flush_index env (ic\<lparr>ic_mints := l\<rparr>, db);
            Some (case pg_get_rune_total_mints rid db of None \<Rightarrow> (None, (ic, db))
              | Some n \<Rightarrow> (Some n, (ic\<lparr>ic_mints := lru_put (ie_mints env) rid n (ic_mints ic)\<rparr>, db)))
          }) = Some (n, s')"
      using assms False unfolding get_cached_rune_total_mints_def s
      by (simp only: prod.case if_False real bind.bind_lunit g Let_def)
    let ?ic = "ic\<lparr>ic_mints := l\<rparr>"
    show ?thesis
    proof (cases hit)
      case (Some x)
      with c show ?thesis by (auto simp: s simp: simulates_silent)
    next
      case None
      with c obtain t where f: "flush_index env (?ic, db) = Some t"
        and s': "ic_db (fst s') = ic_db (fst t)" "ic_tx (fst s') = ic_tx (fst t)" "snd s' = snd t"
        by (auto simp: bind_eq_Some_conv split: option.splits)
      have "simulates env t s'"
        using s' by (cases t; cases s') (simp add: simulates_silent)
      moreover have "simulates env s (?ic, db)" by (simp add: s simulates_silent)
      moreover have "ic_tx (fst t) = ic_tx ic"
        using arg_cong [OF simulates_flush(2) [OF f], of ic_tx] by simp
      then have "ic_tx (fst s') = ic_tx (fst s)" using s' by (auto simp: s)
      ultimately show ?thesis using simulates_flush(1) [OF f] simulates_trans by blast
    qed
  qed
qed

lemma simulates_runestone: "simulates env s (index_runestone rs s)"
  by (cases s) (auto simp: index_runestone_def simulates_refl simulates_silent split: option.split)

text \<open>The entries of an operation on the cache of the transaction.\<close>

lemma simulates_tx_entries:
  assumes "add_ledger_entries_to_db_cache es (ic\<lparr>ic_tx := tx\<rparr>) = Some ic'"
    and "entries_of (tc_location (ic_tx ic)) es" "tc_location tx = tc_location (ic_tx ic)"
  shows "simulates env (ic, db) (ic', db)"
proof -
  have "simulates env (ic, db) (ic\<lparr>ic_tx := tx\<rparr>, db)" using assms(3) by (simp add: simulates_silent)
  moreover have "simulates env (ic\<lparr>ic_tx := tx\<rparr>, db) (ic', db)"
    by (rule simulates_entries(1) [OF assms(1,2)]) (simp add: assms(3))
  ultimately show ?thesis by (rule simulates_trans)
qed

lemma simulates_cenotaph: "index_cenotaph env s = Some s' \<Longrightarrow> simulates env s s'"
  by (cases s) (auto simp: index_cenotaph_def bind_eq_Some_conv dest: burn_shape intro: simulates_tx_entries)

lemma simulates_end_transaction: "end_transaction env s = Some s' \<Longrightarrow> simulates env s s'"
  by (cases s) (auto simp: end_transaction_def bind_eq_Some_conv dest: allocate_shape intro: simulates_tx_entries)

lemma simulates_record_etching:
  assumes "record_etching env ((rid, r, entry), tx) ic = Some ic'"
    and "entry_of (tc_location (ic_tx ic)) entry" "tc_location tx = tc_location (ic_tx ic)"
    and "dr_block_height r = tl_block_height (tc_location (ic_tx ic))"
  shows "simulates env (ic, db) (ic', db)"
proof -
  let ?dc = "(ic_db ic)\<lparr>dc_runes := dc_runes (ic_db ic) @ [r]\<rparr>"
  let ?ic = "ic\<lparr>ic_tx := tx, ic_db := ?dc, ic_runes := lru_put (ie_runes env) rid r (ic_runes ic)\<rparr>"
  from assms(1) obtain ic1 where a: "add_ledger_entries_to_db_cache [entry] ?ic = Some ic1"
    and ic': "ic' = ic1\<lparr>ic_next_number := ic_next_number ic1 + 1\<rparr>"
    by (auto simp: record_etching_def bind_eq_Some_conv Let_def)
  have "row_step (ie_flush_order env) (height_of (ic, db)) (rows_of (ic, db)) (rows_of (?ic, db))"
    using queue_rune [of r "height_of (ic, db)" _ "ic_db ic" db] assms(4)
    by (simp add: rows_of_def height_of_def place_of_def)
  then have "simulates env (ic, db) (?ic, db)"
    using assms(3) by (simp add: simulates_def height_of_def place_of_def)
  moreover have "simulates env (?ic, db) (ic1, db)"
    by (rule simulates_entries(1) [OF a, of "tc_location (ic_tx ic)"]) (use assms(2,3) in simp_all)
  moreover have "simulates env (ic1, db) (ic', db)" by (simp add: ic' simulates_silent)
  ultimately show ?thesis by (blast intro: simulates_trans)
qed

lemma simulates_etching:
  assumes "index_etching env e s = Some s'"
  shows "simulates env s s'"
proof -
  from assms obtain ic db rid r entry tx ic' where s: "s = (ic, db)" "s' = (ic', db)"
    and a: "apply_etching e (ic_next_number ic) (ic_tx ic) = Some ((rid, r, entry), tx)"
    and r: "record_etching env ((rid, r, entry), tx) ic = Some ic'"
    by (cases s) (auto simp: index_etching_def bind_eq_Some_conv)
  note f = apply_etching_shape [OF a]
  then have "dr_block_height r = tl_block_height (tc_location (ic_tx ic))"
    using rune_from_etching_place by blast
  then show ?thesis unfolding s using f by (blast intro: simulates_record_etching [OF r])
qed

lemma simulates_cenotaph_etching:
  assumes "index_cenotaph_etching env name s = Some s'"
  shows "simulates env s s'"
proof -
  from assms obtain ic db rid r entry tx ic' where s: "s = (ic, db)" "s' = (ic', db)"
    and a: "apply_cenotaph_etching name (ic_next_number ic) (ic_tx ic) = Some ((rid, r, entry), tx)"
    and r: "record_etching env ((rid, r, entry), tx) ic = Some ic'"
    by (cases s) (auto simp: index_cenotaph_etching_def bind_eq_Some_conv)
  note f = apply_cenotaph_etching_shape [OF a]
  then have "dr_block_height r = tl_block_height (tc_location (ic_tx ic))"
    using rune_from_cenotaph_place by blast
  then show ?thesis unfolding s using f by (blast intro: simulates_record_etching [OF r])
qed

lemma simulates_mint_with:
  assumes "mint_with env mint rid s = Some s'"
    and mint: "\<And>n r c e c'. mint rid n r c = Some (e, c') \<Longrightarrow>
      entries_of (tc_location c) (opt_list e) \<and> tc_location c' = tc_location c"
  shows "simulates env s s'"
proof -
  from assms(1) obtain rune s1 where 1: "get_cached_rune_by_rune_id env rid s = Some (rune, s1)"
    and rest: "(case rune of None \<Rightarrow> Some s1 | Some r \<Rightarrow> do {
        (mints, (ic, db)) \<leftarrow> get_cached_rune_total_mints env rid s1;
        (entry, tx) \<leftarrow> mint rid (unwrap_or 0 mints) r (ic_tx ic);
        let ic = ic\<lparr>ic_tx := tx\<rparr>;
        (case entry of None \<Rightarrow> Some (ic, db) | Some e \<Rightarrow> do {
          ic \<leftarrow> add_ledger_entries_to_db_cache [e] ic; Some (count_mint env rid ic, db) }) }) = Some s'"
    by (auto simp: mint_with_def bind_eq_Some_conv)
  note g1 = simulates_get_rune [OF 1]
  show ?thesis
  proof (cases rune)
    case None
    with rest g1 show ?thesis by simp
  next
    case (Some r)
    with rest obtain mints ic db entry tx where 2: "get_cached_rune_total_mints env rid s1 = Some (mints, (ic, db))"
      and m: "mint rid (unwrap_or 0 mints) r (ic_tx ic) = Some (entry, tx)"
      and s': "(case entry of None \<Rightarrow> Some (ic\<lparr>ic_tx := tx\<rparr>, db) | Some e \<Rightarrow> do {
          ic \<leftarrow> add_ledger_entries_to_db_cache [e] (ic\<lparr>ic_tx := tx\<rparr>); Some (count_mint env rid ic, db) }) = Some s'"
      by (auto simp: bind_eq_Some_conv Let_def)
    note shape = mint [OF m]
    have "simulates env (ic, db) s'"
    proof (cases entry)
      case None
      with s' shape show ?thesis by (auto simp: simulates_silent)
    next
      case (Some e)
      with s' obtain ic1 where a: "add_ledger_entries_to_db_cache [e] (ic\<lparr>ic_tx := tx\<rparr>) = Some ic1"
        and s1: "s' = (count_mint env rid ic1, db)" by (auto simp: bind_eq_Some_conv)
      have "simulates env (ic, db) (ic1, db)"
        by (rule simulates_tx_entries [OF a]) (use shape Some in simp_all)
      moreover have "simulates env (ic1, db) s'" by (simp add: s1 count_mint_def simulates_silent)
      ultimately show ?thesis by (rule simulates_trans)
    qed
    with g1 simulates_get_mints [OF 2] show ?thesis by (blast intro: simulates_trans)
  qed
qed

lemma simulates_mint: "index_mint env rid s = Some s' \<Longrightarrow> simulates env s s'"
  unfolding index_mint_def using apply_mint_shape by (blast intro: simulates_mint_with)

lemma simulates_cenotaph_mint: "index_cenotaph_mint env rid s = Some s' \<Longrightarrow> simulates env s s'"
  unfolding index_cenotaph_mint_def using apply_cenotaph_mint_shape by (blast intro: simulates_mint_with)

lemma simulates_edict:
  assumes "index_edict env e s = Some s'"
  shows "simulates env s s'"
proof -
  from assms obtain rune ic db where 1: "get_cached_rune_by_rune_id env (ed_id e) s = Some (rune, (ic, db))"
    and rest: "s' = (ic, db) \<or> (\<exists>es tx ic'. apply_edict (ie_address_of env) e (ic_tx ic) = Some (es, tx) \<and>
      add_ledger_entries_to_db_cache es (ic\<lparr>ic_tx := tx\<rparr>) = Some ic' \<and> s' = (ic', db))"
    by (auto simp: index_edict_def bind_eq_Some_conv split: option.splits if_splits)
  have "simulates env (ic, db) s'"
    using rest by (auto simp: simulates_refl dest: apply_edict_shape intro: simulates_tx_entries)
  with simulates_get_rune [OF 1] show ?thesis by (blast intro: simulates_trans)
qed

lemma simulates_edicts: "index_edicts env es s = Some s' \<Longrightarrow> simulates env s s'"
  by (induction es arbitrary: s)
    (auto simp: bind_eq_Some_conv simulates_refl dest: simulates_edict intro: simulates_trans)

lemma simulates_artifact:
  assumes "index_artifact env a s = Some s'"
  shows "simulates env s s'"
proof (cases a)
  case (Runestone rs)
  with assms obtain s1 s2 where
    1: "(case rs_etching rs of Some e \<Rightarrow> index_etching env e (index_runestone rs s) | None \<Rightarrow> Some (index_runestone rs s)) = Some s1"
    and 2: "(case rs_mint rs of Some rid \<Rightarrow> index_mint env rid s1 | None \<Rightarrow> Some s1) = Some s2"
    and 3: "index_edicts env (rs_edicts rs) s2 = Some s'"
    by (auto simp: index_artifact_def bind_eq_Some_conv Let_def)
  have "simulates env (index_runestone rs s) s1"
    using 1 by (auto simp: simulates_refl dest: simulates_etching split: option.splits)
  moreover have "simulates env s1 s2"
    using 2 by (auto simp: simulates_refl dest: simulates_mint split: option.splits)
  ultimately show ?thesis
    using simulates_runestone simulates_edicts [OF 3] by (blast intro: simulates_trans)
next
  case (Cenotaph cn)
  with assms obtain s1 s2 where 1: "index_cenotaph env s = Some s1"
    and 2: "(case cn_etching cn of Some r \<Rightarrow> index_cenotaph_etching env r s1 | None \<Rightarrow> Some s1) = Some s2"
    and 3: "(case cn_mint cn of Some rid \<Rightarrow> index_cenotaph_mint env rid s2 | None \<Rightarrow> Some s2) = Some s'"
    by (auto simp: index_artifact_def bind_eq_Some_conv)
  have "simulates env s1 s2"
    using 2 by (auto simp: simulates_refl dest: simulates_cenotaph_etching split: option.splits)
  moreover have "simulates env s2 s'"
    using 3 by (auto simp: simulates_refl dest: simulates_cenotaph_mint split: option.splits)
  ultimately show ?thesis
    using simulates_cenotaph [OF 1] by (blast intro: simulates_trans)
qed

section \<open>Transactions and blocks\<close>

lemma index_tx_steps:
  assumes "index_tx env b t s = Some s'"
  shows "row_steps (ie_flush_order env) (bd_height b) (rows_of s) (rows_of s')"
proof -
  obtain ic db where s: "s = (ic, db)" by (cases s)
  let ?l = "\<lparr>tl_network = ic_network (fst s), tl_block_hash = bd_hash b, tl_block_height = bd_height b,
    tl_timestamp = bd_timestamp b, tl_tx_index = td_index t, tl_tx_id = td_txid t\<rparr>"
  from assms obtain el fe n s1 found s2 where
    1: "begin_transaction env ?l (td_inputs t) el fe n s = Some s1"
    and 2: "(case found of Some a \<Rightarrow> index_artifact env a s1 | None \<Rightarrow> Some s1) = Some s2"
    and 3: "end_transaction env s2 = Some s'"
    by (auto simp: index_tx_def bind_eq_Some_conv Let_def)
  have s1: "rows_of s1 = rows_of s" "height_of s1 = bd_height b"
    using 1 by (auto simp: s begin_transaction_def bind_eq_Some_conv rows_of_def height_of_def place_of_def tx_cache_new_def)
  have "simulates env s1 s2"
    using 2 by (auto simp: simulates_refl dest: simulates_artifact split: option.splits)
  with simulates_end_transaction [OF 3] have "simulates env s1 s'" by (blast intro: simulates_trans)
  with s1 show ?thesis by (simp add: simulates_def)
qed

lemma index_txs_steps:
  "index_txs env b ts s = Some s' \<Longrightarrow>
   row_steps (ie_flush_order env) (bd_height b) (rows_of s) (rows_of s')"
  by (induction ts arbitrary: s)
    (auto simp: bind_eq_Some_conv dest: index_tx_steps intro: rtranclp_trans)

section \<open>Invariants of a block\<close>

text \<open>
  The contract of the operations towards a property of the rows: one that every step keeps, at
  the height of the block, is kept by every operation on a transaction, by a block's
  transactions and by a flush.
\<close>

locale block_invariant =
  fixes fo :: flush_order and inv :: "u64 \<Rightarrow> db_cache \<times> database \<Rightarrow> bool"
  assumes step: "row_step fo h s s' \<Longrightarrow> inv h s \<Longrightarrow> inv h s'"
begin

lemma steps: "row_steps fo h s s' \<Longrightarrow> inv h s \<Longrightarrow> inv h s'"
  by (induction rule: rtranclp_induct) (blast intro: step)+

lemma operation:
  "simulates env s s' \<Longrightarrow> ie_flush_order env = fo \<Longrightarrow> inv (height_of s) (rows_of s) \<Longrightarrow>
   inv (height_of s') (rows_of s')"
  by (auto simp: simulates_def height_of_def intro: steps)

lemma transactions:
  "index_txs env b ts s = Some s' \<Longrightarrow> ie_flush_order env = fo \<Longrightarrow> inv (bd_height b) (rows_of s) \<Longrightarrow>
   inv (bd_height b) (rows_of s')"
  using index_txs_steps [of env b ts s s'] steps by blast

lemma flushed: "flush fo dc db = Some (dc', db') \<Longrightarrow> inv h (dc, db) \<Longrightarrow> inv h (dc', db')"
  by (rule step [OF write_rows])

end

end
