(* ===== verification/Chain.thy ===== *)
theory Chain
  imports Index_Steps
begin

text \<open>
  The indexer as a state machine over blocks: blocks on top of the indexed ones, roll backs of
  the top block, and restarts. Main facts: after every block nothing is pending, the tables of
  balances and supplies agree with the ledger at every height, and rolling back a block that
  was just indexed restores the tables.
\<close>

section \<open>Tables at a height\<close>

text \<open>
  The rows of the three accounting tables below a height; the runes and the scanned height are
  left out (the migration inserts a rune at height 840000 whatever the network).
\<close>

definition before :: "nat \<Rightarrow> database \<Rightarrow> database" where
  "before h db =
     \<lparr>db_runes = [],
      db_supply = filter (\<lambda>r. su_block_height r < h) (db_supply db),
      db_ledger = filter (\<lambda>r. unat (le_block_height r) < h) (db_ledger db),
      db_balances = filter (\<lambda>r. br_block_height r < h) (db_balances db),
      db_height = 0\<rparr>"

definition rows_below :: "nat \<Rightarrow> database \<Rightarrow> bool" where
  "rows_below h db \<longleftrightarrow> before h db = db\<lparr>db_runes := [], db_height := 0\<rparr>"

lemma rows_below_iff:
  "rows_below h db \<longleftrightarrow>
     (\<forall>r \<in> set (db_supply db). su_block_height r < h) \<and>
     (\<forall>r \<in> set (db_ledger db). unat (le_block_height r) < h) \<and>
     (\<forall>r \<in> set (db_balances db). br_block_height r < h)"
  by (cases db) (simp add: rows_below_def before_def filter_id_conv)

lemma before_before: "before h (before k db) = before (min h k) db"
  by (auto simp: before_def intro!: filter_cong)

lemma before_height [simp]:
  "before h (db\<lparr>db_height := x\<rparr>) = before h db" "before h (db\<lparr>db_runes := rs\<rparr>) = before h db"
  by (simp_all add: before_def)

lemma rows_below_height [simp]:
  "rows_below h (db\<lparr>db_height := x\<rparr>) = rows_below h db" "rows_below h (db\<lparr>db_runes := rs\<rparr>) = rows_below h db"
  by (simp_all add: rows_below_iff)

text \<open>The runes of the other heights.\<close>

definition other_runes :: "u64 \<Rightarrow> database \<Rightarrow> db_rune list" where
  "other_runes h db = delete_height (unat \<circ> dr_block_height) (unat h) (db_runes db)"

lemma heights_le_below: "rows_below (Suc h) db \<Longrightarrow> heights_le h db"
  by (simp add: rows_below_iff heights_le_def less_Suc_eq_le)

lemma filter_below:
  "\<forall>x \<in> set xs. f x < Suc n \<Longrightarrow> filter (\<lambda>x. f x \<noteq> n) xs = filter (\<lambda>x. f x < n) xs"
  by (auto intro!: filter_cong simp: less_Suc_eq)

lemma roll_back_below:
  assumes "rows_below (Suc (unat h)) db"
  shows "pg_roll_back_block h db = (before (unat h) db)\<lparr>db_runes := other_runes h db, db_height := db_height db\<rparr>"
  using assms by (cases db)
    (simp add: rows_below_iff pg_roll_back_block_def before_def other_runes_def delete_height_def comp_def filter_below)

section \<open>Books\<close>

definition db_books :: "database \<Rightarrow> bool" where
  "db_books db \<longleftrightarrow>
     (\<forall>k. tally credit_of (db_ledger db) k < 2 ^ 128 \<longrightarrow> tally debit_of (db_ledger db) k < 2 ^ 128 \<longrightarrow>
       balance_value db k = int (tally credit_of (db_ledger db) k) - int (tally debit_of (db_ledger db) k)) \<and>
     (\<forall>i. tally minted_of (db_ledger db) i < 2 ^ 128 \<longrightarrow>
       supply_value su_minted db i = tally minted_of (db_ledger db) i) \<and>
     (\<forall>i. tally mints_of (db_ledger db) i < 2 ^ 128 \<longrightarrow>
       supply_value su_total_mints db i = tally mints_of (db_ledger db) i) \<and>
     (\<forall>i. tally burned_of (db_ledger db) i < 2 ^ 128 \<longrightarrow>
       supply_value su_burned db i = tally burned_of (db_ledger db) i) \<and>
     (\<forall>i. tally burns_of (db_ledger db) i < 2 ^ 128 \<longrightarrow>
       supply_value su_total_burns db i = tally burns_of (db_ledger db) i) \<and>
     (\<forall>i. tally operations_of (db_ledger db) i < 2 ^ 128 \<longrightarrow>
       supply_value su_total_operations db i = tally operations_of (db_ledger db) i)"

lemma db_books_height [simp]:
  "db_books (db\<lparr>db_height := x\<rparr>) = db_books db" "db_books (db\<lparr>db_runes := rs\<rparr>) = db_books db"
  by (simp_all add: db_books_def balance_value_def balance_of_def supply_value_def supply_of_def)

lemma posted_add:
  assumes "\<forall>i. tally g xs i < 2 ^ 128 \<longrightarrow> v i = tally g xs i" "posted f g m ys"
  shows "\<forall>i. tally g (xs @ ys) i < 2 ^ 128 \<longrightarrow> v i + pending f m i = tally g (xs @ ys) i"
  using assms by (simp add: posted_def)

lemma flush_books:
  assumes "accounts_of db' = post dc (accounts_of db)" "db_ledger db' = db_ledger db @ dc_ledger dc"
    and "cache_books dc" "db_books db"
  shows "db_books db'"
proof -
  have v: "balance_value db' k = balance_value db k + int (pending bc_balance (dc_increases dc) k)
      - int (pending bc_balance (dc_deductions dc) k)"
    "supply_value su_minted db' i = supply_value su_minted db i + pending sc_minted (dc_supply dc) i"
    "supply_value su_total_mints db' i = supply_value su_total_mints db i + pending sc_total_mints (dc_supply dc) i"
    "supply_value su_burned db' i = supply_value su_burned db i + pending sc_burned (dc_supply dc) i"
    "supply_value su_total_burns db' i = supply_value su_total_burns db i + pending sc_total_burns (dc_supply dc) i"
    "supply_value su_total_operations db' i =
      supply_value su_total_operations db i + pending sc_total_operations (dc_supply dc) i" for k i
    using assms(1) by (cases k; simp add: accounts_of_def post_def fun_eq_iff)+
  have c: "posted bc_balance credit_of (dc_increases dc) (dc_ledger dc)"
    "posted bc_balance debit_of (dc_deductions dc) (dc_ledger dc)"
    "posted sc_minted minted_of (dc_supply dc) (dc_ledger dc)"
    "posted sc_total_mints mints_of (dc_supply dc) (dc_ledger dc)"
    "posted sc_burned burned_of (dc_supply dc) (dc_ledger dc)"
    "posted sc_total_burns burns_of (dc_supply dc) (dc_ledger dc)"
    "posted sc_total_operations operations_of (dc_supply dc) (dc_ledger dc)"
    using assms(3) by (simp_all add: cache_books_def)
  have d: "balance_value db k = int (tally credit_of (db_ledger db) k) - int (tally debit_of (db_ledger db) k)"
    if "tally credit_of (db_ledger db) k < 2 ^ 128" "tally debit_of (db_ledger db) k < 2 ^ 128" for k
    using assms(4) that unfolding db_books_def by blast
  have s: "\<forall>i. tally minted_of (db_ledger db) i < 2 ^ 128 \<longrightarrow> supply_value su_minted db i = tally minted_of (db_ledger db) i"
    "\<forall>i. tally mints_of (db_ledger db) i < 2 ^ 128 \<longrightarrow> supply_value su_total_mints db i = tally mints_of (db_ledger db) i"
    "\<forall>i. tally burned_of (db_ledger db) i < 2 ^ 128 \<longrightarrow> supply_value su_burned db i = tally burned_of (db_ledger db) i"
    "\<forall>i. tally burns_of (db_ledger db) i < 2 ^ 128 \<longrightarrow> supply_value su_total_burns db i = tally burns_of (db_ledger db) i"
    "\<forall>i. tally operations_of (db_ledger db) i < 2 ^ 128 \<longrightarrow>
      supply_value su_total_operations db i = tally operations_of (db_ledger db) i"
    using assms(4) by (simp_all add: db_books_def)
  have "balance_value db' k = int (tally credit_of (db_ledger db') k) - int (tally debit_of (db_ledger db') k)"
    if "tally credit_of (db_ledger db') k < 2 ^ 128" "tally debit_of (db_ledger db') k < 2 ^ 128" for k
    using that d [of k] c(1,2) by (simp add: v assms(2) posted_def del: split_paired_All)
  then have b: "\<forall>k. tally credit_of (db_ledger db') k < 2 ^ 128 \<longrightarrow> tally debit_of (db_ledger db') k < 2 ^ 128 \<longrightarrow>
      balance_value db' k = int (tally credit_of (db_ledger db') k) - int (tally debit_of (db_ledger db') k)"
    by blast
  note a = posted_add [OF s(1) c(3)] posted_add [OF s(2) c(4)] posted_add [OF s(3) c(5)]
    posted_add [OF s(4) c(6)] posted_add [OF s(5) c(7)]
  show ?thesis
    unfolding db_books_def v(2-6)
    by (intro conjI b a [folded assms(2)])
qed

section \<open>The invariant of a block\<close>

text \<open>
  While the block of height \<open>h\<close> is indexed on top of \<open>db0\<close>: what is pending belongs to the
  block, the database has grown at that height only, and both agree with their ledger entries.
\<close>

definition block_inv :: "u64 \<Rightarrow> database \<Rightarrow> db_cache \<times> database \<Rightarrow> bool" where
  "block_inv h db0 s \<longleftrightarrow>
     (case s of (dc, db) \<Rightarrow>
       db_cache_ok h dc \<and> rows_below (Suc (unat h)) db \<and>
       before (unat h) db = before (unat h) db0 \<and> other_runes h db = other_runes h db0 \<and>
       cache_books dc \<and> db_books db)"

lemma add_ledger_entry_ok:
  assumes "db_cache_ok h dc" "le_block_height e = h"
    and "add_ledger_entry e (dc\<lparr>dc_ledger := dc_ledger dc @ [e]\<rparr>, outs) = Some (dc', outs')"
  shows "db_cache_ok h dc'"
proof -
  have c: "changes_ok sc_rune_id sc_block_height h (dc_supply dc)"
    "changes_ok balance_change_key bc_block_height h (dc_increases dc)"
    "changes_ok balance_change_key bc_block_height h (dc_deductions dc)"
    using assms(1) by (simp_all add: db_cache_ok_def)
  note up = c [THEN changes_ok_upsert]
  show ?thesis
    using assms(3)
    by (cases "le_operation e")
      (auto simp: add_ledger_entry_def add_operation_def add_balance_change_def bind_eq_Some_conv Let_def
        db_cache_ok_def change_defs balance_change_key_def assms(2)
        assms(1) [unfolded db_cache_ok_def] split: option.splits intro!: up)
qed

lemma block_inv_flush:
  assumes "flush_order_ok fo" "block_inv h db0 (dc, db)" "flush fo dc db = Some (dc', db')"
  shows "block_inv h db0 (dc', db') \<and> dc' = db_cache_new"
proof -
  have i: "db_cache_ok h dc" "rows_below (Suc (unat h)) db" "before (unat h) db = before (unat h) db0"
    "other_runes h db = other_runes h db0" "cache_books dc" "db_books db"
    using assms(2) by (simp_all add: block_inv_def)
  note f = flush_Some [OF assms(1) i(1) heights_le_below [OF i(2)] assms(3)]
  have r: "rows_below (Suc (unat h)) db'"
    unfolding rows_below_iff
  proof (intro conjI)
    show "\<forall>r \<in> set (db_ledger db'). unat (le_block_height r) < Suc (unat h)"
      using i(1,2) by (auto simp: f(4) rows_below_iff db_cache_ok_def list_all_iff)
  qed (use f(3) in \<open>simp_all add: heights_le_def less_Suc_eq_le\<close>)
  have "before (unat h) db' = before (unat h) db" "other_runes h db' = other_runes h db"
    using arg_cong [OF f(6), of "before (unat h)"] arg_cong [OF f(6), of db_runes]
    by (simp_all add: roll_back_below r i(2) before_before)
  then show ?thesis
    using r i f flush_books [OF f(2,4) i(5,6)]
    by (simp add: block_inv_def db_cache_ok_new cache_books_new)
qed

lemma block_inv_step:
  assumes "flush_order_ok fo" "row_step fo h s s'" "block_inv h db0 s"
  shows "block_inv h db0 s'"
  using assms(2,3)
proof cases
  case (record_entry l e dc outs dc' outs' db)
  have "le_block_height e = h" using record_entry(3,4) by (simp add: entry_of_def)
  with record_entry assms(3) add_ledger_entry_ok add_ledger_entry_books show ?thesis
    by (auto simp: block_inv_def)
next
  case (queue_rune r dc db)
  with assms(3) show ?thesis by (auto simp: block_inv_def db_cache_ok_def cache_books_def)
next
  case (write_rows dc db dc' db')
  with block_inv_flush [OF assms(1)] assms(3) show ?thesis by blast
qed

interpretation books: block_invariant fo "\<lambda>h s. flush_order_ok fo \<longrightarrow> block_inv h db0 s" for fo db0
  by unfold_locales (blast intro: block_inv_step)

section \<open>Blocks\<close>

lemma end_block_keeps [simp]:
  "ic_db (end_block env ic) = ic_db ic" "ic_block_outputs (end_block env ic) = []"
  by (simp_all add: end_block_def move_block_output_cache_to_output_cache_def)

lemma index_block_inv:
  assumes "flush_order_ok (ie_flush_order env)" "ic_db ic = db_cache_new"
    and "rows_below (unat (bd_height b)) db" "db_books db"
    and "index_block env notify b (ic, db) = Some ((ic', db'), ids)"
  shows "block_inv (bd_height b) db (ic_db ic', db')" "ic_db ic' = db_cache_new"
    "ic_block_outputs ic' = []" "db_height db' = unat (bd_height b)"
proof -
  let ?h = "bd_height b" and ?fo = "ie_flush_order env"
  from assms(5) obtain ic0 ic1 db1 dc where
    0: "reset_max_rune_number (ic, db) = Some (ic0, db)"
    and 1: "index_txs env b (bd_txs b) (ic0, db) = Some (ic1, db1)"
    and 2: "flush ?fo (ic_db ic1) (pg_update_block_height ?h db1) = Some (dc, db')"
    and ic': "ic' = (end_block env ic1)\<lparr>ic_db := dc\<rparr>"
    by (auto simp: index_block_def reset_max_rune_number_def flush_index_def bind_eq_Some_conv Let_def)
  have "ic_db ic0 = db_cache_new"
    using 0 assms(2) by (auto simp: reset_max_rune_number_def bind_eq_Some_conv)
  then have "block_inv ?h db (rows_of (ic0, db))"
    using assms(3,4) by (auto simp: block_inv_def rows_of_def db_cache_ok_new cache_books_new rows_below_iff)
  with books.transactions [OF 1 refl] assms(1)
  have i1: "block_inv ?h db (ic_db ic1, db1)" by (simp add: rows_of_def)
  then have i2: "block_inv ?h db (ic_db ic1, pg_update_block_height ?h db1)"
    by (simp add: block_inv_def pg_update_block_height_def other_runes_def)
  from block_inv_flush [OF assms(1) i2 2] ic'
  show "block_inv ?h db (ic_db ic', db')" "ic_db ic' = db_cache_new" "ic_block_outputs ic' = []"
    by auto
  have "pg_roll_back_block ?h db' = pg_roll_back_block ?h (pg_update_block_height ?h db1)"
    using i2 by (intro flush_Some(6) [OF assms(1) _ _ 2]) (auto simp: block_inv_def intro: heights_le_below)
  from arg_cong [OF this, of db_height] show "db_height db' = unat ?h"
    by (simp add: pg_roll_back_block_def pg_update_block_height_def)
qed

lemma block_inv_before:
  assumes "block_inv h db0 (dc, db)" "rows_below (unat h) db0" "\<forall>k. db_books (before k db0)"
  shows "db_books (before k db)"
proof (cases "k \<le> unat h")
  case True
  have "before k db = before k (before (unat h) db)" using True by (simp add: before_before)
  also have "\<dots> = before k db0"
    using True assms(1) by (simp add: block_inv_def before_before)
  finally show ?thesis using assms(3) by simp
next
  case False
  then have "rows_below k db" using assms(1) by (fastforce simp: block_inv_def rows_below_iff)
  then show ?thesis using assms(1) by (simp add: rows_below_def block_inv_def)
qed

section \<open>The indexer\<close>

text \<open>
  The states of the indexer after each request: it starts on an empty database, indexes blocks
  above everything it holds, rolls back the top block (or one it does not have), and may be
  restarted.
\<close>

inductive indexed :: "('s, 'lr, 'lm, 'lo) index_env \<Rightarrow> ('s, 'lr, 'lm, 'lo) index_state \<Rightarrow> bool"
  for env where
  start: "db_supply db = [] \<Longrightarrow> db_ledger db = [] \<Longrightarrow> db_balances db = [] \<Longrightarrow>
    index_cache_new env n cap db = Some ic \<Longrightarrow> indexed env (ic, db)"
| block: "indexed env (ic, db) \<Longrightarrow> rows_below (unat (bd_height b)) db \<Longrightarrow>
    index_block env notify b (ic, db) = Some (s, ids) \<Longrightarrow> indexed env s"
| reorg: "indexed env (ic, db) \<Longrightarrow> rows_below (Suc (unat h)) db \<Longrightarrow> indexed env (ic, roll_back_block h db)"
| restart: "indexed env (ic, db) \<Longrightarrow> index_cache_new env n cap db = Some ic' \<Longrightarrow> indexed env (ic', db)"

lemma index_cache_new_db: "index_cache_new env n cap db = Some ic \<Longrightarrow> ic_db ic = db_cache_new"
  by (auto simp: index_cache_new_def bind_eq_Some_conv split: if_splits)

lemma db_books_empty:
  "db_supply db = [] \<Longrightarrow> db_ledger db = [] \<Longrightarrow> db_balances db = [] \<Longrightarrow> db_books db"
  by (simp add: db_books_def balance_value_def balance_of_def supply_value_def supply_of_def latest_def)

lemma indexed_inv:
  assumes "flush_order_ok (ie_flush_order env)" "indexed env s"
  shows "ic_db (fst s) = db_cache_new \<and> (\<forall>k. db_books (before k (snd s)))"
  using assms(2)
proof induction
  case (start db n cap ic)
  then show ?case by (simp add: index_cache_new_db db_books_empty before_def)
next
  case (block ic db b notify s ids)
  obtain ic' db' where s: "s = (ic', db')" by (cases s)
  have all: "\<forall>k. db_books (before k db)" and new: "ic_db ic = db_cache_new" using block.IH by simp_all
  have "db_books (before (unat (bd_height b)) db)" using all by blast
  then have books: "db_books db" using block.hyps(2) by (simp add: rows_below_def)
  note i = index_block_inv [OF assms(1) new block.hyps(2) books block.hyps(3) [unfolded s]]
  from block_inv_before [OF i(1) block.hyps(2) all] i(2) show ?case by (simp add: s)
next
  case (reorg ic db h)
  have "before k (roll_back_block h db) = before (min k (unat h)) db" for k
    using reorg.hyps(2) by (simp add: roll_back_block_def roll_back_below before_before)
  with reorg.IH show ?case by simp
next
  case (restart ic db n cap ic')
  then show ?case by (simp add: index_cache_new_db)
qed

section \<open>Properties\<close>

text \<open>
  C2. The tables and the ledger agree: in every state the indexer reaches by indexing blocks,
  rolling back top blocks and restarting, the balance of every address is the sum of what the
  ledger says it received minus what it says it sent, and the counters of every rune are the
  sums over its mint, burn and other entries, as long as these sums stay below \<open>2 ^ 128\<close>.
  The same holds for what the tables say about any earlier height.
\<close>

theorem indexed_books:
  assumes "flush_order_ok (ie_flush_order env)" "indexed env (ic, db)"
  shows "db_books (before h db) \<and> db_books db"
proof -
  have all: "\<forall>k. db_books (before k db)" using indexed_inv [OF assms] by simp
  obtain k where "\<forall>r \<in> set (db_supply db). su_block_height r < k"
    "\<forall>r \<in> set (db_ledger db). unat (le_block_height r) < k"
    "\<forall>r \<in> set (db_balances db). br_block_height r < k"
  proof
    let ?k = "Suc (Max (set (map su_block_height (db_supply db) @
      map (\<lambda>r. unat (le_block_height r)) (db_ledger db) @ map br_block_height (db_balances db))))"
    show "\<forall>r \<in> set (db_supply db). su_block_height r < ?k"
      "\<forall>r \<in> set (db_ledger db). unat (le_block_height r) < ?k" "\<forall>r \<in> set (db_balances db). br_block_height r < ?k"
      by (auto intro!: le_imp_less_Suc Max_ge)
  qed
  then have "rows_below k db" by (simp add: rows_below_iff)
  then have "db_books (before k db) = db_books db" by (simp add: rows_below_def)
  with all show ?thesis by simp
qed

text \<open>
  C3. Indexing a block on top of the tables and rolling it back restores them, whatever was
  flushed in between; only the scanned height stays. Of the runes, the rows of other heights
  are left; these are all rows but the one that the migration inserts, when the block has its
  height. After a block nothing is pending.
\<close>

theorem index_block_roll_back:
  assumes "flush_order_ok (ie_flush_order env)" "indexed env (ic, db)"
    and "rows_below (unat (bd_height b)) db"
    and "index_block env notify b (ic, db) = Some ((ic', db'), ids)"
  shows "roll_back_block (bd_height b) db' =
      db\<lparr>db_runes := other_runes (bd_height b) db, db_height := unat (bd_height b)\<rparr> \<and>
    ic_db ic' = db_cache_new \<and> ic_block_outputs ic' = []"
proof -
  have inv: "ic_db ic = db_cache_new" "\<forall>k. db_books (before k db)" using indexed_inv [OF assms(1,2)] by simp_all
  have "db_books (before (unat (bd_height b)) db)" using inv(2) by blast
  then have "db_books db" using assms(3) by (simp add: rows_below_def)
  note i = index_block_inv [OF assms(1) inv(1) assms(3) this assms(4)]
  have "before (unat (bd_height b)) db' = db\<lparr>db_runes := [], db_height := 0\<rparr>"
      "other_runes (bd_height b) db' = other_runes (bd_height b) db"
    using i(1) assms(3) by (simp_all add: block_inv_def rows_below_def)
  moreover have "rows_below (Suc (unat (bd_height b))) db'" using i(1) by (simp add: block_inv_def)
  ultimately show ?thesis
    using i(2-4) by (simp add: roll_back_block_def roll_back_below)
qed

end
