(* ===== verification/Mint_Limits.thy ===== *)
theory Mint_Limits
  imports Chain
begin

text \<open>
  What the indexer must keep true of its caches and tables for the caps on mints to hold, first
  on the maps and rows alone, then on a state of the index: no count of mints in the ledger is
  above the known cap or above the cached count. Main facts: forgetting cached entries, entries
  that are not mints, accepted mints, etchings of new ids and flushes keep it so.
\<close>

section \<open>The limits, on what a state knows\<close>

text \<open>
  The caps known for an id: \<open>C\<close> is what the cache of runes holds, \<open>T\<close> the terms of the rows,
  written or pending.
\<close>

definition caps ::
    "(rune_id \<Rightarrow> u128 option option) \<Rightarrow> (ustr \<times> u128 option \<times> u64) set \<Rightarrow> rune_id \<Rightarrow> u128 option set" where
  "caps C T i = {c. C i = Some c \<or> (\<exists>h. (rune_id_to_string i, c, h) \<in> T)}"

abbreviation mints :: "ledger_entry list \<Rightarrow> rune_id \<Rightarrow> nat" where
  "mints ls i \<equiv> tally mints_of ls (rune_id_to_string i)"

text \<open>
  The limits. \<open>p\<close> says which ids may have been etched, \<open>k\<close> is the height the indexer started
  at, \<open>N\<close> the cached counts of mints and \<open>ls\<close> the ledger. The id 0:0 is not a rune.
\<close>

definition limits_on ::
    "nat \<Rightarrow> (rune_id \<Rightarrow> bool) \<Rightarrow> (rune_id \<Rightarrow> u128 option option) \<Rightarrow> (rune_id \<Rightarrow> u128 option)
     \<Rightarrow> (ustr \<times> u128 option \<times> u64) set \<Rightarrow> ledger_entry list \<Rightarrow> bool" where
  "limits_on k p C N T ls \<longleftrightarrow>
     (\<forall>i. \<not> is_zero_id i \<longrightarrow>
       (caps C T i \<noteq> {} \<longrightarrow> p i) \<and>
       (\<forall>c \<in> caps C T i. \<forall>d \<in> caps C T i. c = d) \<and>
       (\<forall>c. Some c \<in> caps C T i \<longrightarrow> mints ls i \<le> unat c \<and> (\<forall>n. N i = Some n \<longrightarrow> mints ls i \<le> unat n)) \<and>
       (0 < mints ls i \<longrightarrow> p i)) \<and>
     (\<forall>i c h. (rune_id_to_string i, c, h) \<in> T \<longrightarrow> unat (rid_block i) < k \<or> rid_block i = h) \<and>
     (\<forall>e \<in> set ls. \<forall>i. le_operation e = OpMint \<longrightarrow> le_rune_id e = rune_id_to_string i \<longrightarrow>
       \<not> is_zero_id i \<longrightarrow> rid_block i \<le> le_block_height e)"

lemma caps_mono: "C' \<subseteq>\<^sub>m C \<Longrightarrow> T' \<subseteq> T \<Longrightarrow> caps C' T' i \<subseteq> caps C T i"
  by (force simp: caps_def map_le_def dom_def)

lemma map_leD: "f \<subseteq>\<^sub>m g \<Longrightarrow> f x = Some y \<Longrightarrow> g x = Some y"
  by (metis domI map_le_def)

lemma limits_forget:
  assumes "limits_on k p C N T ls" "C' \<subseteq>\<^sub>m C" "N' \<subseteq>\<^sub>m N" "T' \<subseteq> T"
  shows "limits_on k p C' N' T' ls"
  unfolding limits_on_def
proof (intro conjI allI impI ballI)
  fix i assume i: "\<not> is_zero_id i"
  note sub = caps_mono [OF assms(2,4), of i]
  have old: "caps C T i \<noteq> {} \<longrightarrow> p i" "\<forall>c \<in> caps C T i. \<forall>d \<in> caps C T i. c = d"
    "\<And>c. Some c \<in> caps C T i \<Longrightarrow> mints ls i \<le> unat c \<and> (\<forall>n. N i = Some n \<longrightarrow> mints ls i \<le> unat n)"
    "0 < mints ls i \<longrightarrow> p i"
    using assms(1) i by (simp_all add: limits_on_def)
  show "p i" if "caps C' T' i \<noteq> {}" using that sub old(1) by blast
  show "c = d" if "c \<in> caps C' T' i" "d \<in> caps C' T' i" for c d using that sub old(2) by blast
  show "mints ls i \<le> unat c" if "Some c \<in> caps C' T' i" for c using that sub old(3) by blast
  show "mints ls i \<le> unat n" if "Some c \<in> caps C' T' i" "N' i = Some n" for c n
    using that sub old(3) map_leD [OF assms(3)] by blast
  show "p i" if "0 < mints ls i" using that old(4) by blast
next
  show "unat (rid_block i) < k \<or> rid_block i = h" if "(rune_id_to_string i, c, h) \<in> T'" for i c h
    using that assms(1,4) unfolding limits_on_def by blast
  show "rid_block i \<le> le_block_height e"
    if "e \<in> set ls" "le_operation e = OpMint" "le_rune_id e = rune_id_to_string i" "\<not> is_zero_id i" for e i
    using that assms(1) unfolding limits_on_def by blast
qed

lemma limits_count:
  assumes "limits_on k p C N T ls" "N' \<subseteq>\<^sub>m N(i \<mapsto> n)"
    and "\<not> is_zero_id i \<Longrightarrow> \<forall>c. Some c \<in> caps C T i \<longrightarrow> mints ls i \<le> unat n"
  shows "limits_on k p C N' T ls"
proof -
  have "mints ls j \<le> unat m" if "\<not> is_zero_id j" "Some c \<in> caps C T j" "N' j = Some m" for j c m
  proof (cases "j = i")
    case True
    with map_leD [OF assms(2) that(3)] have "m = n" by simp
    with assms(3) that(1,2) True show ?thesis by blast
  next
    case False
    with map_leD [OF assms(2) that(3)] have "N j = Some m" by simp
    with assms(1) that(1,2) show ?thesis unfolding limits_on_def by blast
  qed
  with assms(1) show ?thesis unfolding limits_on_def by blast
qed

lemma limits_later:
  "limits_on k p C N T ls \<Longrightarrow> (\<And>i. p i \<Longrightarrow> q i) \<Longrightarrow> limits_on k q C N T ls"
  unfolding limits_on_def by blast

text \<open>Entries that are not mints.\<close>

lemma mints_append:
  "list_all (\<lambda>e. le_operation e \<noteq> OpMint) es \<Longrightarrow> mints (ls @ es) i = mints ls i"
  by (induction es) (simp_all add: mints_of_def)

lemma limits_entries:
  assumes "limits_on k p C N T ls" "list_all (\<lambda>e. le_operation e \<noteq> OpMint) es"
  shows "limits_on k p C N T (ls @ es)"
  using assms(1) assms(2) unfolding limits_on_def mints_append [OF assms(2)]
  by (auto simp: list_all_iff)

text \<open>
  A mint of \<open>i\<close> that was accepted at a count \<open>n\<close> below the known cap. A mint in a cenotaph adds
  to the cached count, but not to the ledger's.
\<close>

definition accepted ::
    "(rune_id \<Rightarrow> u128 option option) \<Rightarrow> (ustr \<times> u128 option \<times> u64) set \<Rightarrow> ledger_entry list
     \<Rightarrow> rune_id \<Rightarrow> u128 \<Rightarrow> bool" where
  "accepted C T ls i n \<longleftrightarrow>
     (\<exists>c \<in> caps C T i. \<forall>m. c = Some m \<longrightarrow> mints ls i \<le> unat n \<and> unat n < unat m)"

lemma limits_mint:
  assumes "limits_on k p C N T ls" "\<not> is_zero_id i \<Longrightarrow> accepted C T ls i n"
    and "N' \<subseteq>\<^sub>m N(i \<mapsto> n + 1)"
    and "le_rune_id e = rune_id_to_string i" "\<And>j. p j \<Longrightarrow> rid_block j \<le> le_block_height e"
  shows "limits_on k p C N' T (ls @ [e])"
proof -
  have bump: "mints (ls @ [e]) j = mints ls j + (if le_operation e = OpMint \<and> j = i then 1 else 0)" for j
    using assms(4) by (simp add: mints_of_def)
  have N': "n' = n + 1 \<and> j = i \<or> N j = Some n'" if "N' j = Some n'" for j n'
    using map_leD [OF assms(3) that] by (simp split: if_splits)
  show ?thesis
    unfolding limits_on_def
  proof (intro conjI allI impI ballI)
    fix j assume j: "\<not> is_zero_id j"
    have old: "caps C T j \<noteq> {} \<longrightarrow> p j" "\<forall>c \<in> caps C T j. \<forall>d \<in> caps C T j. c = d"
      "\<And>c. Some c \<in> caps C T j \<Longrightarrow> mints ls j \<le> unat c \<and> (\<forall>n. N j = Some n \<longrightarrow> mints ls j \<le> unat n)"
      "0 < mints ls j \<longrightarrow> p j"
      using assms(1) j by (simp_all add: limits_on_def)
    have acc: "caps C T i \<noteq> {}" "\<And>c. Some c \<in> caps C T i \<Longrightarrow> mints ls i \<le> unat n \<and> unat n < unat c" if "j = i"
      using assms(2) j old(2) that unfolding accepted_def by blast+
    show "p j" if "caps C T j \<noteq> {}" using old(1) that by blast
    show "c = d" if "c \<in> caps C T j" "d \<in> caps C T j" for c d using old(2) that by blast
    show "mints (ls @ [e]) j \<le> unat c" if "Some c \<in> caps C T j" for c
      using that acc(2) [of c] old(3) [of c] by (cases "j = i") (simp_all add: bump del: tally_simps)
    show "mints (ls @ [e]) j \<le> unat n'" if c: "Some c \<in> caps C T j" and n': "N' j = Some n'" for c n'
    proof (cases "j = i")
      case True
      with acc(2) c have a: "mints ls i \<le> unat n" "unat n < unat c" by blast+
      show ?thesis
      proof (cases "n' = n + 1")
        case n1: True
        have "unat c < 2 ^ 128" using unsigned_less [of c] by simp
        then have "unat n + unat (1 :: u128) < 2 ^ 128" using a(2) by simp
        then have "unat (n + 1) = unat n + 1" using unat_add_fits [of n 1] by simp
        with a True n1 show ?thesis by (simp add: bump del: tally_simps)
      next
        case False
        have "N' i = Some n'" using n' True by simp
        from map_leD [OF assms(3) this] have "n' = n + 1" by simp
        with False show ?thesis by simp
      qed
    next
      case False
      with N' [OF n'] have "N j = Some n'" by simp
      with old(3) [OF c] False show ?thesis by (simp add: bump del: tally_simps)
    qed
    show "p j" if "0 < mints (ls @ [e]) j"
    proof (cases "j = i")
      case True
      with acc(1) old(1) show ?thesis by simp
    next
      case False
      with that have "0 < mints ls j" by (simp add: bump del: tally_simps)
      with old(4) show ?thesis by blast
    qed
  next
    show "unat (rid_block j) < k \<or> rid_block j = h" if "(rune_id_to_string j, c, h) \<in> T" for j c h
      using that assms(1) unfolding limits_on_def by blast
    fix e' j assume e: "e' \<in> set (ls @ [e])" and m: "le_operation e' = OpMint" "le_rune_id e' = rune_id_to_string j"
      and j: "\<not> is_zero_id j"
    show "rid_block j \<le> le_block_height e'"
    proof (cases "e' \<in> set ls")
      case True
      then show ?thesis using m j assms(1) unfolding limits_on_def by blast
    next
      case False
      with e m(2) assms(4) have ij: "e' = e" "j = i" by auto
      with assms(2) j have "caps C T i \<noteq> {}" by (auto simp: accepted_def)
      with assms(1) j ij have "p i" by (simp add: limits_on_def)
      with assms(5) ij show ?thesis by blast
    qed
  qed
qed

text \<open>An etching: the id was unknown before.\<close>

lemma limits_etch:
  assumes "limits_on k p C N T ls" "\<not> p i" "\<And>j. p j \<Longrightarrow> q j" "q i" "C' \<subseteq>\<^sub>m C(i \<mapsto> c)"
  shows "limits_on k q C' N (insert (rune_id_to_string i, c, rid_block i) T) ls"
proof -
  let ?T = "insert (rune_id_to_string i, c, rid_block i) T"
  have caps: "caps C' ?T j \<subseteq> (if j = i then insert c (caps C T i) else caps C T j)" for j
    using map_leD [OF assms(5), of j] by (auto simp: caps_def split: if_splits)
  show ?thesis
    unfolding limits_on_def
  proof (intro conjI allI impI ballI)
    fix j assume j: "\<not> is_zero_id j"
    have old: "caps C T j \<noteq> {} \<longrightarrow> p j" "\<forall>c \<in> caps C T j. \<forall>d \<in> caps C T j. c = d"
      "\<And>c. Some c \<in> caps C T j \<Longrightarrow> mints ls j \<le> unat c \<and> (\<forall>n. N j = Some n \<longrightarrow> mints ls j \<le> unat n)"
      "0 < mints ls j \<longrightarrow> p j"
      using assms(1) j by (simp_all add: limits_on_def)
    have new: "caps C' ?T j \<subseteq> {c}" "mints ls j = 0" if "j = i"
      using that caps [of j] old(1,4) assms(2) by auto
    have other: "caps C' ?T j \<subseteq> caps C T j" if "j \<noteq> i" using that caps [of j] by simp
    show "q j" if "caps C' ?T j \<noteq> {}"
      using that assms(3,4) old(1) other by (cases "j = i") blast+
    show "c1 = c2" if "c1 \<in> caps C' ?T j" "c2 \<in> caps C' ?T j" for c1 c2
      using that new(1) other old(2) by (cases "j = i") blast+
    show "mints ls j \<le> unat c1" if "Some c1 \<in> caps C' ?T j" for c1
      using that new(2) other old(3) by (cases "j = i") (simp, blast)
    show "mints ls j \<le> unat n" if "Some c1 \<in> caps C' ?T j" "N j = Some n" for c1 n
      using that new(2) other old(3) by (cases "j = i") (simp, blast)
    show "q j" if "0 < mints ls j" using that old(4) assms(3) by blast
  next
    show "unat (rid_block j) < k \<or> rid_block j = h" if "(rune_id_to_string j, c1, h) \<in> ?T" for j c1 h
      using that assms(1) unfolding limits_on_def by (elim insertE conjE) (simp, blast)
    show "rid_block j \<le> le_block_height e"
      if "e \<in> set ls" "le_operation e = OpMint" "le_rune_id e = rune_id_to_string j" "\<not> is_zero_id j" for e j
      using that assms(1) unfolding limits_on_def by blast
  qed
qed

section \<open>The limits of a state\<close>

text \<open>What the two caches of the model promise, with what they hold.\<close>

definition lawful ::
    "('s, 'lr, 'lm, 'lo) index_env \<Rightarrow> ('lr \<Rightarrow> rune_id \<Rightarrow> db_rune option) \<Rightarrow> ('lm \<Rightarrow> rune_id \<Rightarrow> u128 option) \<Rightarrow> bool" where
  "lawful env runes counts \<longleftrightarrow>
     flush_order_ok (ie_flush_order env) \<and> lru_ok (ie_runes env) runes \<and> lru_ok (ie_mints env) counts"

definition terms_of :: "db_rune \<Rightarrow> ustr \<times> u128 option \<times> u64" where
  "terms_of r = (dr_id r, dr_terms_cap r, dr_block_height r)"

definition terms_known :: "db_cache \<times> database \<Rightarrow> (ustr \<times> u128 option \<times> u64) set" where
  "terms_known s = terms_of ` (set (db_runes (snd s)) \<union> set (dc_runes (fst s)))"

definition entries_known :: "db_cache \<times> database \<Rightarrow> ledger_entry list" where
  "entries_known s = db_ledger (snd s) @ dc_ledger (fst s)"

definition limits ::
    "('lr \<Rightarrow> rune_id \<Rightarrow> db_rune option) \<Rightarrow> ('lm \<Rightarrow> rune_id \<Rightarrow> u128 option) \<Rightarrow> nat \<Rightarrow> (rune_id \<Rightarrow> bool)
     \<Rightarrow> ('s, 'lr, 'lm, 'lo) index_state \<Rightarrow> bool" where
  "limits runes counts k p s =
     limits_on k p (\<lambda>i. map_option dr_terms_cap (runes (ic_runes (fst s)) i)) (counts (ic_mints (fst s)))
       (terms_known (rows_of s)) (entries_known (rows_of s))"

text \<open>The invariant inside a block on top of \<open>db0\<close>.\<close>

definition in_block ::
    "('lr \<Rightarrow> rune_id \<Rightarrow> db_rune option) \<Rightarrow> ('lm \<Rightarrow> rune_id \<Rightarrow> u128 option) \<Rightarrow> nat \<Rightarrow> database \<Rightarrow> (rune_id \<Rightarrow> bool)
     \<Rightarrow> ('s, 'lr, 'lm, 'lo) index_state \<Rightarrow> bool" where
  "in_block runes counts k db0 p s \<longleftrightarrow> limits runes counts k p s \<and> block_inv (height_of s) db0 (rows_of s)"

lemma lru_put_le: "lru_ok ops held \<Longrightarrow> held (lru_put ops x v l) \<subseteq>\<^sub>m (held l)(x \<mapsto> v)"
  unfolding lru_ok_def map_le_def dom_def by (metis (mono_tags, lifting) fun_upd_apply mem_Collect_eq)

lemma lru_put_same: "lru_ok ops held \<Longrightarrow> held (lru_put ops x v l) x = Some v"
  unfolding lru_ok_def by metis

lemma lru_get_held: "lru_ok ops held \<Longrightarrow> lru_get ops x l = (hit, l') \<Longrightarrow> hit = held l x \<and> held l' = held l"
  unfolding lru_ok_def by (metis fst_conv snd_conv)

lemma insert_rune_rows_terms:
  "insert_rune_rows rs tbl = Some tbl' \<Longrightarrow> terms_of ` set tbl' \<subseteq> terms_of ` (set tbl \<union> set rs)"
proof (induction rs tbl rule: insert_rune_rows.induct)
  case (2 r rs tbl)
  have "terms_of (r\<lparr>dr_cenotaph := False\<rparr>) = terms_of r" by (simp add: terms_of_def)
  with 2 show ?case by (auto split: if_splits)
qed simp

lemma insert_rune_chunks_terms:
  "insert_rune_chunks rss tbl = Some tbl' \<Longrightarrow> terms_of ` set tbl' \<subseteq> terms_of ` (set tbl \<union> set (concat rss))"
proof (induction rss tbl rule: insert_rune_chunks.induct)
  case (2 rs rss tbl)
  then obtain t where t: "insert_rune_rows rs tbl = Some t" "insert_rune_chunks rss t = Some tbl'"
    by (auto simp: bind_eq_Some_conv)
  have "terms_of ` set tbl' \<subseteq> (terms_of ` set tbl \<union> terms_of ` set rs) \<union> terms_of ` set (concat rss)"
    using "2.IH" [OF t] Un_mono [OF insert_rune_rows_terms [OF t(1)] subset_refl]
    unfolding image_Un by (rule subset_trans)
  then show ?case by (simp only: concat.simps set_append image_Un Un_assoc)
qed simp

lemma flush_known:
  assumes "flush_order_ok fo" "block_inv h db0 (dc, db)" "flush fo dc db = Some (dc', db')"
  shows "terms_known (dc', db') \<subseteq> terms_known (dc, db)" "entries_known (dc', db') = entries_known (dc, db)"
    "dc_ledger dc' = []"
proof -
  have i: "db_cache_ok h dc" "rows_below (Suc (unat h)) db" using assms(2) by (simp_all add: block_inv_def)
  note f = flush_Some [OF assms(1) i(1) heights_le_below [OF i(2)] assms(3)]
  have c: "concat (chunks 500 (dc_runes dc)) = dc_runes dc" by (rule concat_chunks) simp
  show "terms_known (dc', db') \<subseteq> terms_known (dc, db)" "entries_known (dc', db') = entries_known (dc, db)"
    "dc_ledger dc' = []"
    using insert_rune_chunks_terms [OF f(5)] unfolding c
    by (simp_all add: terms_known_def entries_known_def f(1,4) db_cache_new_def image_Un)
qed

lemma limits_flush:
  assumes "lawful env runes counts" "flush_index env s = Some s'"
    and "block_inv h db0 (rows_of s)" "limits runes counts k p s"
  shows "limits runes counts k p s'"
proof -
  obtain ic db ic' db' where s: "s = (ic, db)" "s' = (ic', db')" by (cases s; cases s')
  with assms(2) obtain dc where f: "flush (ie_flush_order env) (ic_db ic) db = Some (dc, db')"
    and ic': "ic' = ic\<lparr>ic_db := dc\<rparr>"
    by (auto simp: flush_index_def bind_eq_Some_conv)
  have fo: "flush_order_ok (ie_flush_order env)" using assms(1) by (simp add: lawful_def)
  have b: "block_inv h db0 (ic_db ic, db)" using assms(3) by (simp add: s rows_of_def)
  note known = flush_known [OF fo b f]
  show ?thesis
    using limits_forget [OF assms(4) [unfolded limits_def] map_le_refl map_le_refl, of "terms_known (dc, db')"] known(1,2)
    by (simp add: limits_def rows_of_def s ic')
qed

lemma in_block_flush:
  assumes "lawful env runes counts" "flush_index env s = Some s'" "in_block runes counts k db0 p s"
  shows "in_block runes counts k db0 p s'" "dc_ledger (ic_db (fst s')) = []"
    "fst s' = (fst s)\<lparr>ic_db := ic_db (fst s')\<rparr>"
proof -
  obtain ic db ic' db' where s: "s = (ic, db)" "s' = (ic', db')" by (cases s; cases s')
  with assms(2) obtain dc where f: "flush (ie_flush_order env) (ic_db ic) db = Some (dc, db')"
    and ic': "ic' = ic\<lparr>ic_db := dc\<rparr>"
    by (auto simp: flush_index_def bind_eq_Some_conv)
  have b: "block_inv (height_of s) db0 (ic_db ic, db)" using assms(3) by (simp add: in_block_def rows_of_def s)
  have fo: "flush_order_ok (ie_flush_order env)" using assms(1) by (simp add: lawful_def)
  have "block_inv (height_of s') db0 (rows_of s')"
    using conjunct1 [OF block_inv_flush [OF fo b f]] by (simp add: rows_of_def s ic' height_of_def place_of_def)
  moreover have "limits runes counts k p s'"
    using limits_flush [OF assms(1,2)] assms(3) unfolding in_block_def by blast
  ultimately show "in_block runes counts k db0 p s'" by (simp add: in_block_def)
  show "dc_ledger (ic_db (fst s')) = []" "fst s' = (fst s)\<lparr>ic_db := ic_db (fst s')\<rparr>"
    using flush_known(3) [OF fo b f] by (simp_all add: s ic')
qed

text \<open>Changes of the caches that only forget, or learn what the rows say.\<close>

lemma in_block_caches:
  assumes "in_block runes counts k db0 p (ic, db)"
    and "ic_db ic' = ic_db ic" "tc_location (ic_tx ic') = tc_location (ic_tx ic)"
    and "\<And>i c. map_option dr_terms_cap (runes (ic_runes ic') i) = Some c \<Longrightarrow>
      c \<in> caps (\<lambda>i. map_option dr_terms_cap (runes (ic_runes ic) i)) (terms_known (ic_db ic, db)) i"
    and "counts (ic_mints ic') \<subseteq>\<^sub>m counts (ic_mints ic)"
  shows "in_block runes counts k db0 p (ic', db)"
proof -
  let ?C = "\<lambda>i. map_option dr_terms_cap (runes (ic_runes ic) i)"
  let ?C' = "\<lambda>i. map_option dr_terms_cap (runes (ic_runes ic') i)"
  let ?T = "terms_known (ic_db ic, db)" and ?N' = "counts (ic_mints ic')"
  have l: "limits_on k p ?C (counts (ic_mints ic)) ?T (entries_known (ic_db ic, db))"
    using assms(1) by (simp add: in_block_def limits_def rows_of_def)
  note l' = limits_forget [OF l map_le_refl assms(5) subset_refl]
  have "caps ?C' ?T i \<subseteq> caps ?C ?T i" for i
    using assms(4) unfolding caps_def by blast
  then have "limits_on k p ?C' ?N' ?T (entries_known (ic_db ic, db))"
    using l' unfolding limits_on_def by blast
  then show ?thesis
    using assms(1-3) by (simp add: in_block_def limits_def rows_of_def height_of_def place_of_def)
qed

end
