(* ===== verification/Mint_Cap.thy ===== *)
theory Mint_Cap
  imports Mint_Limits
begin

text \<open>
  The cap on mints. A mint is checked against a count of mints and a rune record that come out
  of caches which evict at will, or out of the database after a flush. Main fact: as long as
  the process is restarted after a roll back, no rune of the database is ever minted more often
  than its cap, whatever was evicted or flushed when. (Without the restart stale entries of the
  caches survive the roll back, and the cap does not hold.)
\<close>

section \<open>The operations\<close>

lemma simulates_in_block:
  assumes "lawful env runes counts" "simulates env s s'" "in_block runes counts k db0 p s" "limits runes counts k q s'"
  shows "in_block runes counts k db0 q s'"
proof -
  have h: "height_of s' = height_of s" using assms(2) by (simp add: simulates_def height_of_def)
  have "flush_order_ok (ie_flush_order env)" using assms(1) by (simp add: lawful_def)
  with books.operation [OF assms(2) refl] assms(3) have "block_inv (height_of s) db0 (rows_of s')"
    by (simp add: in_block_def h)
  with assms(4) show ?thesis by (simp add: in_block_def h)
qed

lemma in_block_get_rune:
  assumes "lawful env runes counts" "get_cached_rune_by_rune_id env rid s = Some (r, s')"
    and "in_block runes counts k db0 p s"
  shows "in_block runes counts k db0 p s' \<and>
    (\<not> is_zero_id rid \<longrightarrow> (\<forall>x. r = Some x \<longrightarrow> runes (ic_runes (fst s')) rid = Some x))"
proof (cases "is_zero_id rid")
  case True
  with assms(2,3) show ?thesis by (cases s) (auto simp: get_cached_rune_by_rune_id_def)
next
  case False
  have lru: "lru_ok (ie_runes env) runes" using assms(1) by (simp add: lawful_def)
  obtain ic db where s: "s = (ic, db)" by (cases s)
  obtain hit l where g: "lru_get (ie_runes env) rid (ic_runes ic) = (hit, l)"
    by (cases "lru_get (ie_runes env) rid (ic_runes ic)")
  note held = lru_get_held [OF lru g]
  let ?ic = "ic\<lparr>ic_runes := l\<rparr>"
  have 1: "in_block runes counts k db0 p (?ic, db)"
    by (rule in_block_caches [OF assms(3) [unfolded s]]) (simp_all add: held caps_def)
  show ?thesis
  proof (cases hit)
    case (Some x)
    with assms(2) False have "r = Some x" "s' = (?ic, db)"
      by (auto simp: s get_cached_rune_by_rune_id_def g)
    with 1 held Some show ?thesis by simp
  next
    case None
    with assms(2) False obtain ic1 db1 where f: "flush_index env (?ic, db) = Some (ic1, db1)"
      and e: "(r, s') = (case pg_get_rune_by_id rid db1 of None \<Rightarrow> (None, (ic1, db1))
        | Some x \<Rightarrow> (Some x, (ic1\<lparr>ic_runes := lru_put (ie_runes env) rid x (ic_runes ic1)\<rparr>, db1)))"
      by (auto simp: s get_cached_rune_by_rune_id_def g bind_eq_Some_conv)
    note 2 = in_block_flush(1) [OF assms(1) f 1]
    show ?thesis
    proof (cases "pg_get_rune_by_id rid db1")
      case None
      with e 2 show ?thesis by simp
    next
      case x: (Some x)
      let ?ic2 = "ic1\<lparr>ic_runes := lru_put (ie_runes env) rid x (ic_runes ic1)\<rparr>"
      have s': "s' = (?ic2, db1)" "r = Some x" using e x by simp_all
      have "x \<in> set (db_runes db1) \<and> dr_id x = rune_id_to_string rid"
        using find_SomeD [OF x [unfolded pg_get_rune_by_id_def]] by simp
      then have known: "(rune_id_to_string rid, dr_terms_cap x, dr_block_height x) \<in> terms_known (ic_db ic1, db1)"
        by (force simp: terms_known_def terms_of_def)
      have "in_block runes counts k db0 p (?ic2, db1)"
      proof (rule in_block_caches [OF 2])
        fix i c assume "map_option dr_terms_cap (runes (ic_runes ?ic2) i) = Some c"
        then obtain y where y: "runes (lru_put (ie_runes env) rid x (ic_runes ic1)) i = Some y" "c = dr_terms_cap y"
          by auto
        from map_leD [OF lru_put_le [OF lru] y(1)] y(2) known
        show "c \<in> caps (\<lambda>i. map_option dr_terms_cap (runes (ic_runes ic1) i)) (terms_known (ic_db ic1, db1)) i"
          by (auto simp: caps_def split: if_splits)
      qed simp_all
      then show ?thesis using lru_put_same [OF lru] by (simp add: s')
    qed
  qed
qed

text \<open>
  The count that a mint is checked against, where the limits hold: what the cache then holds for
  the id, and no less than the mints of the ledger.
\<close>

lemma count_after_flush:
  assumes "db_books db" "mints (db_ledger db) i \<le> unat (m :: u128)"
  shows "mints (db_ledger db) i = unat (unwrap_or 0 (pg_get_rune_total_mints i db))"
proof -
  have "unat m < 2 ^ 128" using unsigned_less [of m] by simp
  with assms(2) have "mints (db_ledger db) i < 2 ^ 128" by simp
  then have v: "supply_value su_total_mints db (rune_id_to_string i) = mints (db_ledger db) i"
    and b: "supply_value su_total_mints db (rune_id_to_string i) < 2 ^ 128"
    using assms(1) by (simp_all add: db_books_def)
  show ?thesis
    using b unfolding v [symmetric]
    by (cases "supply_of db (rune_id_to_string i)")
      (simp_all add: pg_get_rune_total_mints_def supply_value_def supply_of_def unwrap_or_def unat_of_nat take_bit_nat_eq_self)
qed

lemma in_block_count:
  assumes "in_block runes counts k db0 p (ic, db)" "counts l \<subseteq>\<^sub>m (counts (ic_mints ic))(i \<mapsto> n)"
    and "\<not> is_zero_id i \<Longrightarrow> \<forall>c. Some c \<in> caps (\<lambda>i. map_option dr_terms_cap (runes (ic_runes ic) i))
      (terms_known (ic_db ic, db)) i \<longrightarrow> mints (entries_known (ic_db ic, db)) i \<le> unat n"
  shows "in_block runes counts k db0 p (ic\<lparr>ic_mints := l\<rparr>, db)"
  using assms(1) limits_count [OF _ assms(2,3)]
  by (simp add: in_block_def limits_def rows_of_def height_of_def place_of_def)

lemma in_block_get_mints:
  assumes "lawful env runes counts" "get_cached_rune_total_mints env rid s = Some (n, s')"
    and "in_block runes counts k db0 p s"
  shows "in_block runes counts k db0 p s' \<and> ic_runes (fst s') = ic_runes (fst s) \<and>
    (\<not> is_zero_id rid \<longrightarrow> counts (ic_mints (fst s')) rid = n \<and>
      (\<forall>c. Some c \<in> caps (\<lambda>i. map_option dr_terms_cap (runes (ic_runes (fst s')) i)) (terms_known (rows_of s')) rid \<longrightarrow>
        mints (entries_known (rows_of s')) rid \<le> unat (unwrap_or 0 n)))"
proof -
  have lru: "lru_ok (ie_mints env) counts" using assms(1) by (simp add: lawful_def)
  obtain ic db where s: "s = (ic, db)" by (cases s)
  show ?thesis
  proof (cases "is_zero_id rid \<and> tc_etching (ic_tx ic) = None")
    case True
    then show ?thesis using assms(2,3) by (auto simp: s get_cached_rune_total_mints_def)
  next
    case False
    let ?real = "if is_zero_id rid
      then (case rune_id_from_str (dr_id (the (tc_etching (ic_tx ic)))) of Inl _ \<Rightarrow> None | Inr i \<Rightarrow> Some i)
      else Some rid"
    from False assms(2) obtain real_id where real: "?real = Some real_id"
      unfolding get_cached_rune_total_mints_def s by (cases ?real) auto
    obtain hit l where g: "lru_get (ie_mints env) real_id (ic_mints ic) = (hit, l)"
      by (cases "lru_get (ie_mints env) real_id (ic_mints ic)")
    note held = lru_get_held [OF lru g]
    have c: "(case hit of Some n \<Rightarrow> Some (Some n, (ic\<lparr>ic_mints := l\<rparr>, db))
        | None \<Rightarrow> do {
            (ic, db) \<leftarrow> flush_index env (ic\<lparr>ic_mints := l\<rparr>, db);
            Some (case pg_get_rune_total_mints rid db of None \<Rightarrow> (None, (ic, db))
              | Some n \<Rightarrow> (Some n, (ic\<lparr>ic_mints := lru_put (ie_mints env) rid n (ic_mints ic)\<rparr>, db)))
          }) = Some (n, s')"
      using assms(2) False unfolding get_cached_rune_total_mints_def s
      by (simp only: prod.case if_False real bind.bind_lunit g Let_def)
    let ?ic = "ic\<lparr>ic_mints := l\<rparr>"
    have 1: "in_block runes counts k db0 p (?ic, db)"
      by (rule in_block_caches [OF assms(3) [unfolded s]]) (auto simp: held caps_def)
    have id: "real_id = rid" if "\<not> is_zero_id rid" using real that by simp
    show ?thesis
    proof (cases hit)
      case (Some x)
      with c have n: "n = Some x" "s' = (?ic, db)" by simp_all
      have "counts l rid = Some x" if "\<not> is_zero_id rid" using held Some id [OF that] by simp
      with 1 show ?thesis
        unfolding n by (auto simp: s rows_of_def unwrap_or_def in_block_def limits_def limits_on_def)
    next
      case None
      with c obtain ic1 db1 where f: "flush_index env (?ic, db) = Some (ic1, db1)"
        and e: "(n, s') = (case pg_get_rune_total_mints rid db1 of None \<Rightarrow> (None, (ic1, db1))
          | Some n \<Rightarrow> (Some n, (ic1\<lparr>ic_mints := lru_put (ie_mints env) rid n (ic_mints ic1)\<rparr>, db1)))"
        by (auto simp: bind_eq_Some_conv)
      note 2 = in_block_flush [OF assms(1) f 1]
      have same: "ic_runes ic1 = ic_runes ic" "counts (ic_mints ic1) = counts (ic_mints ic)"
        using arg_cong [OF 2(3), of ic_runes] arg_cong [OF 2(3), of ic_mints] held by simp_all
      have empty: "entries_known (ic_db ic1, db1) = db_ledger db1" using 2(2) by (simp add: entries_known_def)
      have books: "db_books db1" using 2(1) by (simp add: in_block_def rows_of_def block_inv_def)
      have read: "mints (db_ledger db1) rid = unat (unwrap_or 0 (pg_get_rune_total_mints rid db1))"
        if "\<not> is_zero_id rid" "Some m \<in> caps (\<lambda>i. map_option dr_terms_cap (runes (ic_runes ic1) i))
          (terms_known (ic_db ic1, db1)) rid" for m
      proof (rule count_after_flush [OF books])
        show "mints (db_ledger db1) rid \<le> unat m"
          using 2(1) that unfolding in_block_def limits_def limits_on_def by (simp add: rows_of_def empty)
      qed
      have miss: "counts (ic_mints ic1) rid = None" if "\<not> is_zero_id rid"
        using held None id [OF that] same by simp
      show ?thesis
      proof (cases "pg_get_rune_total_mints rid db1")
        case None
        with e have "n = None" "s' = (ic1, db1)" by simp_all
        with 2(1) same read miss None show ?thesis by (auto simp: s rows_of_def empty unwrap_or_def)
      next
        case (Some x)
        with e have n: "n = Some x" "s' = (ic1\<lparr>ic_mints := lru_put (ie_mints env) rid x (ic_mints ic1)\<rparr>, db1)" by simp_all
        have "in_block runes counts k db0 p s'"
          unfolding n by (rule in_block_count [OF 2(1) lru_put_le [OF lru]]) (use read Some in \<open>simp add: empty unwrap_or_def\<close>)
        then show ?thesis
          unfolding n using same read Some lru_put_same [OF lru] by (auto simp: s rows_of_def empty unwrap_or_def)
      qed
    qed
  qed
qed

lemma entries_recorded:
  assumes "add_ledger_entries_to_db_cache es ic = Some ic'" "entries_of l es"
  shows "ic_runes ic' = ic_runes ic" "ic_mints ic' = ic_mints ic"
    "terms_known (ic_db ic', db) = terms_known (ic_db ic, db)"
    "entries_known (ic_db ic', db) = entries_known (ic_db ic, db) @ es"
proof -
  obtain dc outs where a: "add_each_entry es ((ic_db ic)\<lparr>dc_ledger := dc_ledger (ic_db ic) @ es\<rparr>,
      ic_block_outputs ic) = Some (dc, outs)" "ic' = ic\<lparr>ic_db := dc, ic_block_outputs := outs\<rparr>"
    using assms(1) by (auto simp: add_ledger_entries_to_db_cache_def bind_eq_Some_conv Let_def)
  from add_each_entry_steps [OF a(1) assms(2) refl] a(2)
  show "ic_runes ic' = ic_runes ic" "ic_mints ic' = ic_mints ic"
    "terms_known (ic_db ic', db) = terms_known (ic_db ic, db)"
    "entries_known (ic_db ic', db) = entries_known (ic_db ic, db) @ es"
    by (simp_all add: terms_known_def entries_known_def)
qed

lemma in_block_moves:
  fixes env :: "('s, 'lr, 'lm, 'lo) index_env" and ic ic' :: "('s, 'lr, 'lm, 'lo) index_cache"
  assumes "lawful env runes counts" "in_block runes counts k db0 p (ic, db)"
    and "add_ledger_entries_to_db_cache es (ic\<lparr>ic_tx := tx\<rparr>) = Some ic'"
    and "moves_of (tc_location (ic_tx ic)) es" "tc_location tx = tc_location (ic_tx ic)"
  shows "in_block runes counts k db0 p (ic', db)"
proof (rule simulates_in_block [OF assms(1) _ assms(2)])
  note entries = moves_entries [OF assms(4)]
  show "simulates env (ic, db) (ic', db)" by (rule simulates_tx_entries [OF assms(3) entries assms(5)])
  have "list_all (\<lambda>e. le_operation e \<noteq> OpMint) es"
    using assms(4) by (simp add: list_all_iff move_of_def)
  with assms(2) show "limits runes counts k p (ic', db)"
    by (simp add: in_block_def limits_def rows_of_def entries_recorded [OF assms(3) entries] limits_entries)
qed

lemma in_block_cenotaph:
  assumes "lawful env runes counts" "index_cenotaph env s = Some s'" "in_block runes counts k db0 p s"
  shows "in_block runes counts k db0 p s'"
  using assms(2,3)
  by (cases s) (auto simp: index_cenotaph_def bind_eq_Some_conv dest: burn_shape intro: in_block_moves [OF assms(1)])

lemma in_block_end_transaction:
  assumes "lawful env runes counts" "end_transaction env s = Some s'" "in_block runes counts k db0 p s"
  shows "in_block runes counts k db0 p s'"
  using assms(2,3)
  by (cases s) (auto simp: end_transaction_def bind_eq_Some_conv dest: allocate_shape intro: in_block_moves [OF assms(1)])

lemma in_block_edict:
  assumes "lawful env runes counts" "index_edict env e s = Some s'" "in_block runes counts k db0 p s"
  shows "in_block runes counts k db0 p s'"
proof -
  from assms(2) obtain rune ic db where 1: "get_cached_rune_by_rune_id env (ed_id e) s = Some (rune, (ic, db))"
    and rest: "s' = (ic, db) \<or> (\<exists>es tx ic'. apply_edict (ie_address_of env) e (ic_tx ic) = Some (es, tx) \<and>
      add_ledger_entries_to_db_cache es (ic\<lparr>ic_tx := tx\<rparr>) = Some ic' \<and> s' = (ic', db))"
    by (auto simp: index_edict_def bind_eq_Some_conv split: option.splits if_splits)
  from in_block_get_rune [OF assms(1) 1 assms(3)] rest show ?thesis
    by (auto dest: apply_edict_shape intro: in_block_moves [OF assms(1)])
qed

lemma in_block_edicts:
  assumes "lawful env runes counts" "index_edicts env es s = Some s'" "in_block runes counts k db0 p s"
  shows "in_block runes counts k db0 p s'"
  using assms(2,3)
  by (induction es arbitrary: s) (auto simp: bind_eq_Some_conv dest: in_block_edict [OF assms(1)])

section \<open>Mints\<close>

lemma count_mint_held:
  assumes "lru_ok (ie_mints env) counts"
  shows "counts (ic_mints (count_mint env i ic)) \<subseteq>\<^sub>m
    (counts (ic_mints ic))(i \<mapsto> unwrap_or 0 (counts (ic_mints ic) i) + 1)"
proof (cases "lru_modify (ie_mints env) i (\<lambda>n. n + 1) (ic_mints ic)")
  case None
  then have "counts (ic_mints ic) i = None" using assms unfolding lru_ok_def by (metis (mono_tags, lifting) option.simps(4))
  with None lru_put_le [OF assms, of i 1 "ic_mints ic"] show ?thesis by (simp add: count_mint_def unwrap_or_def)
next
  case (Some l)
  have "case lru_modify (ie_mints env) i (\<lambda>n. n + 1) (ic_mints ic) of None \<Rightarrow> counts (ic_mints ic) i = None
      | Some l' \<Rightarrow> counts (ic_mints ic) i \<noteq> None \<and>
          counts l' = (counts (ic_mints ic))(i := map_option (\<lambda>n. n + 1) (counts (ic_mints ic) i))"
    using assms unfolding lru_ok_def by blast
  with Some show ?thesis by (auto simp: count_mint_def unwrap_or_def)
qed

text \<open>What \<open>apply_mint\<close> and \<open>apply_cenotaph_mint\<close> promise: a mint is accepted below the cap only.\<close>

definition mints_below_cap ::
    "(rune_id \<Rightarrow> u128 \<Rightarrow> db_rune \<Rightarrow> 's tx_cache \<Rightarrow> (ledger_entry option \<times> 's tx_cache) option) \<Rightarrow> bool" where
  "mints_below_cap mint \<longleftrightarrow>
     (\<forall>i n r c e c'. mint i n r c = Some (e, c') \<longrightarrow>
       entries_of (tc_location c) (opt_list e) \<and> tc_location c' = tc_location c \<and>
       (\<forall>x. e = Some x \<longrightarrow> le_rune_id x = rune_id_to_string i \<and>
         (\<forall>m. dr_terms_cap r = Some m \<longrightarrow> unat n < unat m)))"

lemma mintable_below_cap: "is_rune_mintable r n l \<Longrightarrow> dr_terms_cap r = Some m \<Longrightarrow> unat n < unat m"
  by (simp add: is_rune_mintable_def word_le_nat_alt not_le split: if_splits)

lemma apply_mint_below_cap: "mints_below_cap apply_mint"
  unfolding mints_below_cap_def
proof (intro allI impI)
  fix i n r c e c' assume a: "apply_mint i n r c = Some (e, c')"
  have "\<forall>x. e = Some x \<longrightarrow> le_rune_id x = rune_id_to_string i \<and> (\<forall>m. dr_terms_cap r = Some m \<longrightarrow> unat n < unat m)"
    using a by (auto simp: apply_mint_def bind_eq_Some_conv Let_def split: if_splits
        dest: new_entry_operation mintable_below_cap)
  with apply_mint_shape [OF a] show "entries_of (tc_location c) (opt_list e) \<and> tc_location c' = tc_location c \<and>
      (\<forall>x. e = Some x \<longrightarrow> le_rune_id x = rune_id_to_string i \<and> (\<forall>m. dr_terms_cap r = Some m \<longrightarrow> unat n < unat m))"
    by blast
qed

lemma apply_cenotaph_mint_below_cap: "mints_below_cap apply_cenotaph_mint"
  unfolding mints_below_cap_def
proof (intro allI impI)
  fix i n r c e c' assume a: "apply_cenotaph_mint i n r c = Some (e, c')"
  have "\<forall>x. e = Some x \<longrightarrow> le_rune_id x = rune_id_to_string i \<and> (\<forall>m. dr_terms_cap r = Some m \<longrightarrow> unat n < unat m)"
    using a by (auto simp: apply_cenotaph_mint_def bind_eq_Some_conv Let_def split: if_splits
        dest: new_entry_operation mintable_below_cap)
  with apply_cenotaph_mint_shape [OF a] show "entries_of (tc_location c) (opt_list e) \<and> tc_location c' = tc_location c \<and>
      (\<forall>x. e = Some x \<longrightarrow> le_rune_id x = rune_id_to_string i \<and> (\<forall>m. dr_terms_cap r = Some m \<longrightarrow> unat n < unat m))"
    by blast
qed

lemma in_block_mint_with:
  assumes "lawful env runes counts" "mint_with env mint rid s = Some s'" "in_block runes counts k db0 p s"
    and mint: "mints_below_cap mint" and p: "\<And>j. p j \<Longrightarrow> rid_block j \<le> height_of s"
  shows "in_block runes counts k db0 p s'"
proof -
  have lru: "lru_ok (ie_mints env) counts" using assms(1) by (simp add: lawful_def)
  from assms(2) obtain rune s1 where 1: "get_cached_rune_by_rune_id env rid s = Some (rune, s1)"
    and rest: "(case rune of None \<Rightarrow> Some s1 | Some r \<Rightarrow> do {
        (mints, (ic, db)) \<leftarrow> get_cached_rune_total_mints env rid s1;
        (entry, tx) \<leftarrow> mint rid (unwrap_or 0 mints) r (ic_tx ic);
        let ic = ic\<lparr>ic_tx := tx\<rparr>;
        (case entry of None \<Rightarrow> Some (ic, db) | Some e \<Rightarrow> do {
          ic \<leftarrow> add_ledger_entries_to_db_cache [e] ic; Some (count_mint env rid ic, db) }) }) = Some s'"
    by (auto simp: mint_with_def bind_eq_Some_conv)
  note g1 = in_block_get_rune [OF assms(1) 1 assms(3)]
  show ?thesis
  proof (cases rune)
    case None
    with rest g1 show ?thesis by simp
  next
    case (Some r)
    with rest obtain n ic db entry tx where 2: "get_cached_rune_total_mints env rid s1 = Some (n, (ic, db))"
      and m: "mint rid (unwrap_or 0 n) r (ic_tx ic) = Some (entry, tx)"
      and s': "(case entry of None \<Rightarrow> Some (ic\<lparr>ic_tx := tx\<rparr>, db) | Some e \<Rightarrow> do {
          ic \<leftarrow> add_ledger_entries_to_db_cache [e] (ic\<lparr>ic_tx := tx\<rparr>); Some (count_mint env rid ic, db) }) = Some s'"
      by (auto simp: bind_eq_Some_conv Let_def)
    have g2: "in_block runes counts k db0 p (ic, db)" "ic_runes ic = ic_runes (fst s1)"
      "\<not> is_zero_id rid \<Longrightarrow> counts (ic_mints ic) rid = n"
      "\<And>c. \<not> is_zero_id rid \<Longrightarrow> Some c \<in> caps (\<lambda>i. map_option dr_terms_cap (runes (ic_runes ic) i)) (terms_known (ic_db ic, db)) rid \<Longrightarrow>
        mints (entries_known (ic_db ic, db)) rid \<le> unat (unwrap_or 0 n)"
      using in_block_get_mints [OF assms(1) 2 conjunct1 [OF g1]] unfolding rows_of_def fst_conv snd_conv by blast+
    have h: "height_of (ic, db) = height_of s"
      using simulates_get_rune [OF 1] simulates_get_mints [OF 2] by (simp add: height_of_def place_of_def)
    from mint m have shape: "entries_of (tc_location (ic_tx ic)) (opt_list entry)" "tc_location tx = tc_location (ic_tx ic)"
      "\<And>x. entry = Some x \<Longrightarrow> le_rune_id x = rune_id_to_string rid \<and>
        (\<forall>m. dr_terms_cap r = Some m \<longrightarrow> unat (unwrap_or 0 n) < unat m)"
      unfolding mints_below_cap_def by blast+
    show ?thesis
    proof (cases entry)
      case None
      with s' have "s' = (ic\<lparr>ic_tx := tx\<rparr>, db)" by simp
      with in_block_caches [OF g2(1), of "ic\<lparr>ic_tx := tx\<rparr>"] shape(2) show ?thesis by (simp add: caps_def)
    next
      case e: (Some e)
      with s' obtain ic1 where a: "add_ledger_entries_to_db_cache [e] (ic\<lparr>ic_tx := tx\<rparr>) = Some ic1"
        and s1: "s' = (count_mint env rid ic1, db)" by (auto simp: bind_eq_Some_conv)
      have one: "entries_of (tc_location (ic_tx ic)) [e]" using shape(1) e by simp
      note known = entries_recorded [OF a one]
      let ?C = "\<lambda>i. map_option dr_terms_cap (runes (ic_runes ic) i)"
      let ?T = "terms_known (ic_db ic, db)" and ?ls = "entries_known (ic_db ic, db)"
      let ?n = "unwrap_or 0 (counts (ic_mints ic) rid)"
      have acc: "accepted ?C ?T ?ls rid ?n" if nz: "\<not> is_zero_id rid"
      proof -
        have "runes (ic_runes ic) rid = Some r" using g1 g2(2) nz Some by simp
        then have "dr_terms_cap r \<in> caps ?C ?T rid" by (simp add: caps_def)
        with g2(3,4) nz shape(3) [OF e] show ?thesis unfolding accepted_def by metis
      qed
      have l: "limits_on k p ?C (counts (ic_mints ic)) ?T ?ls"
        using g2(1) by (simp add: in_block_def limits_def rows_of_def)
      have N: "counts (ic_mints (count_mint env rid ic1)) \<subseteq>\<^sub>m (counts (ic_mints ic))(rid \<mapsto> ?n + 1)"
        using count_mint_held [OF lru, of rid ic1] known(2) by simp
      have low: "rid_block j \<le> le_block_height e" if "p j" for j
        using p [OF that] one h by (simp add: entry_of_def height_of_def place_of_def)
      have "limits_on k p ?C (counts (ic_mints (count_mint env rid ic1))) ?T (?ls @ [e])"
        by (rule limits_mint [OF l acc N]) (use shape(3) [OF e] low in simp_all)
      then have "limits runes counts k p s'"
        using known by (simp add: limits_def s1 rows_of_def count_mint_def terms_known_def entries_known_def)
      moreover have "simulates env (ic, db) s'"
      proof (rule simulates_trans)
        show "simulates env (ic, db) (ic1, db)"
          by (rule simulates_tx_entries [OF a]) (use one shape(2) in simp_all)
        show "simulates env (ic1, db) s'" by (simp add: s1 count_mint_def simulates_silent)
      qed
      ultimately show ?thesis using simulates_in_block [OF assms(1) _ g2(1)] by blast
    qed
  qed
qed

section \<open>Etchings\<close>

lemma in_block_record_etching:
  fixes env :: "('s, 'lr, 'lm, 'lo) index_env" and ic ic' :: "('s, 'lr, 'lm, 'lo) index_cache"
  assumes "lawful env runes counts" "in_block runes counts k db0 p (ic, db)"
    and "record_etching env ((rid, r, entry), tx) ic = Some ic'"
    and "entry_of (tc_location (ic_tx ic)) entry" "tc_location tx = tc_location (ic_tx ic)"
    and "le_operation entry = OpEtching"
    and "rid = location_rune_id (tc_location (ic_tx ic))" "dr_id r = rune_id_to_string rid"
    and "dr_block_height r = rid_block rid"
    and "\<not> p rid" "\<And>j. p j \<Longrightarrow> q j" "q rid"
  shows "in_block runes counts k db0 q (ic', db)"
proof (rule simulates_in_block [OF assms(1) _ assms(2)])
  have place: "dr_block_height r = tl_block_height (tc_location (ic_tx ic))"
    using assms(7,9) by (simp add: location_rune_id_def)
  show "simulates env (ic, db) (ic', db)" by (rule simulates_record_etching [OF assms(3,4,5) place])
  have lru: "lru_ok (ie_runes env) runes" using assms(1) by (simp add: lawful_def)
  let ?dc = "(ic_db ic)\<lparr>dc_runes := dc_runes (ic_db ic) @ [r]\<rparr>"
  let ?ic = "ic\<lparr>ic_tx := tx, ic_db := ?dc, ic_runes := lru_put (ie_runes env) rid r (ic_runes ic)\<rparr>"
  from assms(3) obtain ic1 where a: "add_ledger_entries_to_db_cache [entry] ?ic = Some ic1"
    and ic': "ic' = ic1\<lparr>ic_next_number := ic_next_number ic1 + 1\<rparr>"
    by (auto simp: record_etching_def bind_eq_Some_conv Let_def)
  have one: "entries_of (tc_location (ic_tx ic)) [entry]" using assms(4) by simp
  note known = entries_recorded [OF a one]
  let ?C = "\<lambda>i. map_option dr_terms_cap (runes (ic_runes ic) i)"
  let ?C' = "\<lambda>i. map_option dr_terms_cap (runes (lru_put (ie_runes env) rid r (ic_runes ic)) i)"
  have C: "?C' \<subseteq>\<^sub>m ?C(rid \<mapsto> dr_terms_cap r)"
    unfolding map_le_def
  proof
    fix i assume "i \<in> dom ?C'"
    then obtain x where x: "runes (lru_put (ie_runes env) rid r (ic_runes ic)) i = Some x" by auto
    from map_leD [OF lru_put_le [OF lru] x] x show "?C' i = (?C(rid \<mapsto> dr_terms_cap r)) i"
      by (simp split: if_splits)
  qed
  have T: "terms_known (?dc, db) = insert (rune_id_to_string rid, dr_terms_cap r, rid_block rid) (terms_known (ic_db ic, db))"
    using assms(8,9) by (simp add: terms_known_def terms_of_def)
  have l: "limits_on k p ?C (counts (ic_mints ic)) (terms_known (ic_db ic, db)) (entries_known (ic_db ic, db))"
    using assms(2) by (simp add: in_block_def limits_def rows_of_def)
  have same: "entries_known (?dc, db) = entries_known (ic_db ic, db)" by (simp add: entries_known_def)
  have "limits_on k q ?C' (counts (ic_mints ic)) (terms_known (?dc, db)) (entries_known (?dc, db))"
    unfolding T same by (rule limits_etch [where p = p and q = q, OF l _ _ _ C]) (use assms(10-12) in simp_all)
  then have "limits_on k q ?C' (counts (ic_mints ic)) (terms_known (?dc, db)) (entries_known (?dc, db) @ [entry])"
    by (rule limits_entries) (simp add: assms(6))
  then show "limits runes counts k q (ic', db)"
    using known by (simp add: limits_def rows_of_def ic')
qed

lemma in_block_etching:
  assumes "lawful env runes counts" "index_etching env e s = Some s'" "in_block runes counts k db0 p s"
    and "\<not> p (location_rune_id (place_of s))" "\<And>j. p j \<Longrightarrow> q j" "q (location_rune_id (place_of s))"
  shows "in_block runes counts k db0 q s'"
proof -
  from assms(2) obtain ic db rid r entry tx ic' where s: "s = (ic, db)" "s' = (ic', db)"
    and a: "apply_etching e (ic_next_number ic) (ic_tx ic) = Some ((rid, r, entry), tx)"
    and r: "record_etching env ((rid, r, entry), tx) ic = Some ic'"
    by (cases s) (auto simp: index_etching_def bind_eq_Some_conv)
  note f = apply_etching_shape [OF a]
  have op: "le_operation entry = OpEtching"
    using a by (auto simp: apply_etching_def bind_eq_Some_conv Let_def dest: new_entry_operation)
  have i: "rid = location_rune_id (tc_location (ic_tx ic))" "dr_id r = rune_id_to_string rid"
    "dr_block_height r = rid_block rid"
    using f rune_from_etching_id [of e _ _ r] rune_from_etching_place [of e _ _ r] by (auto simp: location_rune_id_def)
  show ?thesis
    unfolding s by (rule in_block_record_etching [OF assms(1) assms(3) [unfolded s(1)] r])
      (use f op i assms(4-6) in \<open>simp_all add: s place_of_def\<close>)
qed

lemma in_block_cenotaph_etching:
  assumes "lawful env runes counts" "index_cenotaph_etching env name s = Some s'" "in_block runes counts k db0 p s"
    and "\<not> p (location_rune_id (place_of s))" "\<And>j. p j \<Longrightarrow> q j" "q (location_rune_id (place_of s))"
  shows "in_block runes counts k db0 q s'"
proof -
  from assms(2) obtain ic db rid r entry tx ic' where s: "s = (ic, db)" "s' = (ic', db)"
    and a: "apply_cenotaph_etching name (ic_next_number ic) (ic_tx ic) = Some ((rid, r, entry), tx)"
    and r: "record_etching env ((rid, r, entry), tx) ic = Some ic'"
    by (cases s) (auto simp: index_cenotaph_etching_def bind_eq_Some_conv)
  note f = apply_cenotaph_etching_shape [OF a]
  have op: "le_operation entry = OpEtching"
    using a by (auto simp: apply_cenotaph_etching_def bind_eq_Some_conv Let_def dest: new_entry_operation)
  have i: "rid = location_rune_id (tc_location (ic_tx ic))" "dr_id r = rune_id_to_string rid"
    "dr_block_height r = rid_block rid"
    using f rune_from_cenotaph_id [of name _ _ r] rune_from_cenotaph_place [of name _ _ r]
    by (auto simp: location_rune_id_def)
  show ?thesis
    unfolding s by (rule in_block_record_etching [OF assms(1) assms(3) [unfolded s(1)] r])
      (use f op i assms(4-6) in \<open>simp_all add: s place_of_def\<close>)
qed

section \<open>Transactions and blocks\<close>

text \<open>The ids before the transaction of index \<open>n\<close> in the block of height \<open>h\<close>.\<close>

definition etched_before :: "u64 \<Rightarrow> nat \<Rightarrow> rune_id \<Rightarrow> bool" where
  "etched_before h n i \<longleftrightarrow> rid_block i < h \<or> rid_block i = h \<and> unat (rid_tx i) < n"

lemma etched_before_mono: "n \<le> m \<Longrightarrow> etched_before h n i \<Longrightarrow> etched_before h m i"
  by (auto simp: etched_before_def)

lemma etched_before_block: "etched_before h n i \<Longrightarrow> rid_block i \<le> h"
  by (auto simp: etched_before_def)

lemma in_block_later:
  "in_block runes counts k db0 p s \<Longrightarrow> (\<And>i. p i \<Longrightarrow> q i) \<Longrightarrow> in_block runes counts k db0 q s"
  by (auto simp: in_block_def limits_def intro: limits_later)

lemma in_block_runestone:
  "in_block runes counts k db0 p s \<Longrightarrow> in_block runes counts k db0 p (index_runestone rs s)"
  by (cases s) (auto simp: index_runestone_def in_block_def limits_def rows_of_def height_of_def place_of_def split: option.split)

lemma index_runestone_place [simp]: "place_of (index_runestone rs s) = place_of s"
  by (cases s) (auto simp: index_runestone_def place_of_def split: option.split)

lemma in_block_artifact:
  assumes "lawful env runes counts" "index_artifact env a s = Some s'"
    and "in_block runes counts k db0 (etched_before (height_of s) n) s"
    and "n \<le> unat (tl_tx_index (place_of s))"
  shows "in_block runes counts k db0 (etched_before (height_of s) (Suc (unat (tl_tx_index (place_of s))))) s'"
proof -
  let ?p = "etched_before (height_of s) n" and ?q = "etched_before (height_of s) (Suc (unat (tl_tx_index (place_of s))))"
  let ?i = "location_rune_id (place_of s)"
  have i: "\<not> ?p ?i" "?q ?i" "\<And>j. ?p j \<Longrightarrow> ?q j"
    using assms(4) by (auto simp: etched_before_def location_rune_id_def height_of_def)
  have low: "\<And>j. ?q j \<Longrightarrow> rid_block j \<le> height_of s" by (rule etched_before_block)
  note mint = in_block_mint_with [OF assms(1)]
  show ?thesis
  proof (cases a)
    case (Runestone rs)
    with assms(2) obtain s1 s2 where
      1: "(case rs_etching rs of Some e \<Rightarrow> index_etching env e (index_runestone rs s) | None \<Rightarrow> Some (index_runestone rs s)) = Some s1"
      and 2: "(case rs_mint rs of Some rid \<Rightarrow> index_mint env rid s1 | None \<Rightarrow> Some s1) = Some s2"
      and 3: "index_edicts env (rs_edicts rs) s2 = Some s'"
      by (auto simp: index_artifact_def bind_eq_Some_conv Let_def)
    note b = in_block_runestone [OF assms(3), of rs]
    have b1: "in_block runes counts k db0 ?q s1 \<and> height_of s1 = height_of s"
    proof (cases "rs_etching rs")
      case None
      with 1 have "s1 = index_runestone rs s" by simp
      with in_block_later [OF b i(3)] show ?thesis by (simp add: height_of_def)
    next
      case (Some e)
      with 1 have e: "index_etching env e (index_runestone rs s) = Some s1" by simp
      have "in_block runes counts k db0 ?q s1"
        by (rule in_block_etching [OF assms(1) e b]) (use i in simp_all)
      then show ?thesis
        using simulates_etching [OF e] by (simp add: simulates_def height_of_def)
    qed
    have "in_block runes counts k db0 ?q s2"
    proof (cases "rs_mint rs")
      case None
      with 2 b1 show ?thesis by simp
    next
      case (Some rid)
      with 2 have "mint_with env apply_mint rid s1 = Some s2" by (simp add: index_mint_def)
      from mint [OF this conjunct1 [OF b1] apply_mint_below_cap] low b1 show ?thesis by simp
    qed
    then show ?thesis by (rule in_block_edicts [OF assms(1) 3])
  next
    case (Cenotaph cn)
    with assms(2) obtain s1 s2 where 1: "index_cenotaph env s = Some s1"
      and 2: "(case cn_etching cn of Some r \<Rightarrow> index_cenotaph_etching env r s1 | None \<Rightarrow> Some s1) = Some s2"
      and 3: "(case cn_mint cn of Some rid \<Rightarrow> index_cenotaph_mint env rid s2 | None \<Rightarrow> Some s2) = Some s'"
      by (auto simp: index_artifact_def bind_eq_Some_conv)
    note b = in_block_cenotaph [OF assms(1) 1 assms(3)]
    have place: "place_of s1 = place_of s" using simulates_cenotaph [OF 1] by (simp add: simulates_def)
    have b2: "in_block runes counts k db0 ?q s2 \<and> height_of s2 = height_of s"
    proof (cases "cn_etching cn")
      case None
      with 2 have "s2 = s1" by simp
      with in_block_later [OF b i(3)] place show ?thesis by (simp add: height_of_def)
    next
      case (Some r)
      with 2 have e: "index_cenotaph_etching env r s1 = Some s2" by simp
      have "in_block runes counts k db0 ?q s2"
        by (rule in_block_cenotaph_etching [OF assms(1) e b]) (use i place in simp_all)
      then show ?thesis
        using simulates_cenotaph_etching [OF e] place by (simp add: simulates_def height_of_def)
    qed
    show ?thesis
    proof (cases "cn_mint cn")
      case None
      with 3 b2 show ?thesis by simp
    next
      case (Some rid)
      with 3 have "mint_with env apply_cenotaph_mint rid s2 = Some s'" by (simp add: index_cenotaph_mint_def)
      from mint [OF this conjunct1 [OF b2] apply_cenotaph_mint_below_cap] low b2 show ?thesis by simp
    qed
  qed
qed

text \<open>Between transactions the place of the last one does not matter.\<close>

definition between ::
    "('lr \<Rightarrow> rune_id \<Rightarrow> db_rune option) \<Rightarrow> ('lm \<Rightarrow> rune_id \<Rightarrow> u128 option) \<Rightarrow> nat \<Rightarrow> database \<Rightarrow> u64 \<Rightarrow> nat
     \<Rightarrow> ('s, 'lr, 'lm, 'lo) index_state \<Rightarrow> bool" where
  "between runes counts k db0 h n s \<longleftrightarrow> limits runes counts k (etched_before h n) s \<and> block_inv h db0 (rows_of s)"

lemma between_tx:
  assumes "lawful env runes counts" "index_tx env b t s = Some s'"
    and "between runes counts k db0 (bd_height b) n s" "n \<le> unat (td_index t)"
  shows "between runes counts k db0 (bd_height b) (Suc (unat (td_index t))) s'"
proof -
  obtain ic db where s: "s = (ic, db)" by (cases s)
  let ?l = "\<lparr>tl_network = ic_network (fst s), tl_block_hash = bd_hash b, tl_block_height = bd_height b,
    tl_timestamp = bd_timestamp b, tl_tx_index = td_index t, tl_tx_id = td_txid t\<rparr>"
  from assms(2) obtain el fe m s1 found s2 where
    1: "begin_transaction env ?l (td_inputs t) el fe m s = Some s1"
    and 2: "(case found of Some a \<Rightarrow> index_artifact env a s1 | None \<Rightarrow> Some s1) = Some s2"
    and 3: "end_transaction env s2 = Some s'"
    by (auto simp: index_tx_def bind_eq_Some_conv Let_def)
  have place: "place_of s1 = ?l"
    using 1 by (auto simp: s begin_transaction_def bind_eq_Some_conv place_of_def tx_cache_new_def)
  have "limits runes counts k (etched_before (bd_height b) n) s1 = limits runes counts k (etched_before (bd_height b) n) s"
    "rows_of s1 = rows_of s"
    using 1 by (auto simp: s begin_transaction_def bind_eq_Some_conv rows_of_def limits_def)
  with assms(3) have b1: "in_block runes counts k db0 (etched_before (bd_height b) n) s1"
    by (simp add: in_block_def between_def height_of_def place)
  let ?q = "etched_before (bd_height b) (Suc (unat (td_index t)))"
  have b2: "in_block runes counts k db0 ?q s2 \<and> height_of s2 = bd_height b"
  proof (cases found)
    case None
    with 2 have "s2 = s1" by simp
    moreover have "in_block runes counts k db0 ?q s1"
      by (rule in_block_later [OF b1]) (erule etched_before_mono [rotated], use assms(4) in simp)
    ultimately show ?thesis by (simp add: height_of_def place)
  next
    case (Some a)
    with 2 have a: "index_artifact env a s1 = Some s2" by simp
    have "in_block runes counts k db0 ?q s2"
      using in_block_artifact [OF assms(1) a, of k db0 n] b1 assms(4) by (simp add: height_of_def place)
    then show ?thesis
      using simulates_artifact [OF a] by (simp add: simulates_def height_of_def place)
  qed
  have "height_of s' = bd_height b"
    using simulates_end_transaction [OF 3] b2 by (simp add: simulates_def height_of_def)
  with in_block_end_transaction [OF assms(1) 3 conjunct1 [OF b2]] show ?thesis by (simp add: in_block_def between_def)
qed

lemma between_txs:
  assumes "lawful env runes counts" "index_txs env b ts s = Some s'"
    and "between runes counts k db0 (bd_height b) n s"
    and "sorted_wrt (<) (map (\<lambda>t. unat (td_index t)) ts)" "\<forall>t \<in> set ts. n \<le> unat (td_index t)"
  shows "\<exists>m. between runes counts k db0 (bd_height b) m s'"
  using assms(2-5)
proof (induction ts arbitrary: s n)
  case (Cons t ts)
  then obtain s1 where 1: "index_tx env b t s = Some s1" and 2: "index_txs env b ts s1 = Some s'"
    by (auto simp: bind_eq_Some_conv)
  have "between runes counts k db0 (bd_height b) (Suc (unat (td_index t))) s1"
    by (rule between_tx [OF assms(1) 1 Cons.prems(2)]) (use Cons.prems(4) in simp)
  from Cons.IH [OF 2 this] Cons.prems(3) show ?case by (simp add: Suc_le_eq)
qed auto

lemma limits_index_block:
  assumes "lawful env runes counts" "index_block env notify b (ic, db) = Some (s', ids)"
    and "ic_db ic = db_cache_new" "rows_below (unat (bd_height b)) db" "db_books db"
    and "sorted_wrt (<) (map (\<lambda>t. unat (td_index t)) (bd_txs b))"
    and "limits runes counts k (\<lambda>i. rid_block i < bd_height b) (ic, db)"
  shows "limits runes counts k (\<lambda>i. rid_block i \<le> bd_height b) s'"
proof -
  let ?h = "bd_height b"
  from assms(2) obtain ic0 ic1 db1 where
    0: "reset_max_rune_number (ic, db) = Some (ic0, db)"
    and 1: "index_txs env b (bd_txs b) (ic0, db) = Some (ic1, db1)"
    and 2: "flush_index env (end_block env ic1, pg_update_block_height ?h db1) = Some s'"
    by (auto simp: index_block_def reset_max_rune_number_def bind_eq_Some_conv Let_def)
  have ic0: "ic_db ic0 = ic_db ic" "ic_runes ic0 = ic_runes ic" "ic_mints ic0 = ic_mints ic"
    using 0 by (auto simp: reset_max_rune_number_def bind_eq_Some_conv)
  have "block_inv ?h db (rows_of (ic0, db))"
    using assms(3-5) by (auto simp: ic0 block_inv_def rows_of_def db_cache_ok_new cache_books_new rows_below_iff)
  moreover have "limits runes counts k (etched_before ?h 0) (ic0, db)"
    using assms(7) by (simp add: limits_def rows_of_def ic0 etched_before_def [abs_def])
  ultimately have "between runes counts k db ?h 0 (ic0, db)" by (simp add: between_def)
  then obtain m where m: "between runes counts k db ?h m (ic1, db1)"
    using between_txs [OF assms(1) 1 _ assms(6)] by blast
  have e: "ic_runes (end_block env ic1) = ic_runes ic1" "ic_mints (end_block env ic1) = ic_mints ic1"
    by (simp_all add: end_block_def split: prod.split)
  have rows: "terms_known (ic_db ic1, pg_update_block_height ?h db1) = terms_known (ic_db ic1, db1)"
    "entries_known (ic_db ic1, pg_update_block_height ?h db1) = entries_known (ic_db ic1, db1)"
    by (simp_all add: terms_known_def entries_known_def pg_update_block_height_def)
  have "limits runes counts k (etched_before ?h m) (end_block env ic1, pg_update_block_height ?h db1)"
    using m by (simp add: between_def limits_def rows_of_def e rows)
  moreover have "block_inv ?h db (rows_of (end_block env ic1, pg_update_block_height ?h db1))"
    using m by (simp add: between_def rows_of_def block_inv_def pg_update_block_height_def other_runes_def)
  ultimately have "limits runes counts k (etched_before ?h m) s'" using limits_flush [OF assms(1) 2] by blast
  then show ?thesis unfolding limits_def by (rule limits_later) (rule etched_before_block)
qed

section \<open>Roll backs\<close>

lemma mints_filter: "mints (filter P ls) i \<le> mints ls i"
  by (induction ls) auto

lemma mints_pos: "0 < mints ls i \<Longrightarrow> \<exists>e \<in> set ls. le_operation e = OpMint \<and> le_rune_id e = rune_id_to_string i"
  by (induction ls) (auto simp: mints_of_def split: if_splits)

lemma limits_roll_back:
  assumes "limits_on k (\<lambda>i. unat (rid_block i) < h) C N T ls" "h \<le> Suc n" "k \<le> n"
    and "\<And>i c b. (i, c, b) \<in> T' \<Longrightarrow> (i, c, b) \<in> T \<and> unat b \<noteq> n"
    and "\<forall>e \<in> set ls. unat (le_block_height e) < h"
  shows "limits_on k (\<lambda>i. unat (rid_block i) < n) Map.empty Map.empty T' (filter (\<lambda>e. unat (le_block_height e) \<noteq> n) ls)"
    (is "limits_on k ?p _ _ T' ?ls")
  unfolding limits_on_def
proof (intro conjI allI impI ballI)
  fix i assume i: "\<not> is_zero_id i"
  have sub: "caps Map.empty T' i \<subseteq> caps C T i" using assms(4) by (fastforce simp: caps_def)
  have old: "caps C T i \<noteq> {} \<longrightarrow> unat (rid_block i) < h" "\<forall>c \<in> caps C T i. \<forall>d \<in> caps C T i. c = d"
    "\<And>c. Some c \<in> caps C T i \<Longrightarrow> mints ls i \<le> unat c"
    using assms(1) i by (simp_all add: limits_on_def)
  show "?p i" if "caps Map.empty T' i \<noteq> {}"
  proof -
    from that obtain c where "c \<in> caps Map.empty T' i" by blast
    then obtain b where "(rune_id_to_string i, c, b) \<in> T'" unfolding caps_def by blast
    from assms(4) [OF this] have t: "(rune_id_to_string i, c, b) \<in> T" "unat b \<noteq> n" by simp_all
    then have "unat (rid_block i) < k \<or> rid_block i = b" using assms(1) unfolding limits_on_def by blast
    moreover have "unat (rid_block i) < h" using old(1) that sub by blast
    ultimately show ?thesis using assms(2,3) t(2) by auto
  qed
  show "c = d" if "c \<in> caps Map.empty T' i" "d \<in> caps Map.empty T' i" for c d using that sub old(2) by blast
  show "mints ?ls i \<le> unat c" if "Some c \<in> caps Map.empty T' i" for c
    using that sub old(3) by (blast intro: order_trans [OF mints_filter])
  show "mints ?ls i \<le> unat m" if "Map.empty i = Some m" for m using that by simp
  show "?p i" if "0 < mints ?ls i"
  proof -
    from mints_pos [OF that] obtain e where e: "e \<in> set ls" "unat (le_block_height e) \<noteq> n"
      "le_operation e = OpMint" "le_rune_id e = rune_id_to_string i"
      by auto
    then have "rid_block i \<le> le_block_height e" using assms(1) i unfolding limits_on_def by blast
    moreover have "unat (le_block_height e) < n" using e(1,2) assms(2,5) by fastforce
    ultimately show ?thesis by (simp add: word_le_nat_alt)
  qed
next
  show "unat (rid_block i) < k \<or> rid_block i = b" if "(rune_id_to_string i, c, b) \<in> T'" for i c b
    using assms(1) assms(4) [OF that] unfolding limits_on_def by blast
  show "rid_block i \<le> le_block_height e"
    if "e \<in> set ?ls" "le_operation e = OpMint" "le_rune_id e = rune_id_to_string i" "\<not> is_zero_id i" for e i
    using that assms(1) unfolding limits_on_def by auto
qed

section \<open>The indexer, restarted after roll backs\<close>

text \<open>
  The states the indexer reaches from height \<open>k\<close> on, all of whose blocks are below \<open>h\<close>: it starts on a
  database that holds runes of lower heights only (the one of the migration), indexes blocks
  in ascending order, whose transactions carry their positions, and is restarted after a roll
  back. Restarts are free otherwise.
\<close>

definition seeded :: "nat \<Rightarrow> database \<Rightarrow> bool" where
  "seeded k db \<longleftrightarrow> distinct (map dr_id (db_runes db)) \<and>
     (\<forall>r \<in> set (db_runes db). \<forall>i. dr_id r = rune_id_to_string i \<longrightarrow> unat (rid_block i) < k)"

inductive served ::
    "('s, 'lr, 'lm, 'lo) index_env \<Rightarrow> nat \<Rightarrow> nat \<Rightarrow> ('s, 'lr, 'lm, 'lo) index_state \<Rightarrow> bool" for env k where
  serve: "db_supply db = [] \<Longrightarrow> db_ledger db = [] \<Longrightarrow> db_balances db = [] \<Longrightarrow> seeded k db \<Longrightarrow>
    index_cache_new env n cap db = Some ic \<Longrightarrow> served env k k (ic, db)"
| serve_block: "served env k h (ic, db) \<Longrightarrow> h \<le> unat (bd_height b) \<Longrightarrow>
    sorted_wrt (<) (map (\<lambda>t. unat (td_index t)) (bd_txs b)) \<Longrightarrow>
    index_block env notify b (ic, db) = Some (s, ids) \<Longrightarrow> served env k (Suc (unat (bd_height b))) s"
| serve_reorg: "served env k h (ic, db) \<Longrightarrow> h \<le> Suc (unat g) \<Longrightarrow> k \<le> unat g \<Longrightarrow>
    index_cache_new env n cap (roll_back_block g db) = Some ic' \<Longrightarrow>
    served env k (unat g) (ic', roll_back_block g db)"
| serve_again: "served env k h (ic, db) \<Longrightarrow> index_cache_new env n cap db = Some ic' \<Longrightarrow> served env k h (ic', db)"

lemma index_cache_new_caches:
  "index_cache_new env n cap db = Some ic \<Longrightarrow>
   0 < cap \<and> ic_runes ic = lru_new (ie_runes env) cap \<and> ic_mints ic = lru_new (ie_mints env) cap"
  by (auto simp: index_cache_new_def bind_eq_Some_conv split: if_splits)

lemma limits_fresh:
  assumes "lawful env runes counts" "index_cache_new env n cap db = Some ic"
  shows "limits runes counts k p (ic, db) \<longleftrightarrow>
    limits_on k p Map.empty Map.empty (terms_of ` set (db_runes db)) (db_ledger db)"
proof -
  have "runes (lru_new (ie_runes env) m) i = None" "counts (lru_new (ie_mints env) m) i = None" if "0 < m" for m i
    using assms(1) that by (simp_all add: lawful_def lru_ok_def)
  with index_cache_new_caches [OF assms(2)]
  have "(\<lambda>i. map_option dr_terms_cap (runes (ic_runes ic) i)) = Map.empty" "counts (ic_mints ic) = Map.empty"
    by (auto simp: fun_eq_iff)
  then show ?thesis
    using index_cache_new_db [OF assms(2)]
    by (simp add: limits_def rows_of_def terms_known_def entries_known_def db_cache_new_def)
qed

lemma seeded_limits:
  assumes "seeded k db"
  shows "limits_on k (\<lambda>i. unat (rid_block i) < k) Map.empty Map.empty (terms_of ` set (db_runes db)) []"
proof -
  have "c = d" if "c \<in> caps Map.empty (terms_of ` set (db_runes db)) i" "d \<in> caps Map.empty (terms_of ` set (db_runes db)) i"
    for c d i
  proof -
    from that obtain q r where "q \<in> set (db_runes db)" "r \<in> set (db_runes db)" "dr_id q = dr_id r"
      "c = dr_terms_cap q" "d = dr_terms_cap r"
      by (auto simp: caps_def terms_of_def)
    moreover have "inj_on dr_id (set (db_runes db))" using assms by (simp add: seeded_def distinct_map)
    ultimately show ?thesis by (auto dest: inj_onD)
  qed
  moreover have "unat (rid_block i) < k" if "(rune_id_to_string i, c, h) \<in> terms_of ` set (db_runes db)" for i c h
    using that assms by (auto simp: terms_of_def seeded_def)
  ultimately show ?thesis
    unfolding limits_on_def by (fastforce simp: caps_def)
qed

lemma served_inv:
  assumes "lawful env runes counts" "served env k h s"
  shows "indexed env s \<and> rows_below h (snd s) \<and> limits runes counts k (\<lambda>i. unat (rid_block i) < h) s"
  using assms(2)
proof induction
  case (serve db n cap ic)
  then show ?case
    using start [of db env n cap ic] limits_fresh [OF assms(1) serve(5)] seeded_limits [OF serve(4)]
    by (simp add: rows_below_iff)
next
  case (serve_block h ic db b notify s ids)
  have fo: "flush_order_ok (ie_flush_order env)" using assms(1) by (simp add: lawful_def)
  let ?h = "bd_height b"
  have i: "indexed env (ic, db)" "rows_below (unat ?h) db"
    using serve_block.IH serve_block.hyps(2) by (fastforce simp: rows_below_iff)+
  have inv: "ic_db ic = db_cache_new" "\<forall>k. db_books (before k db)" using indexed_inv [OF fo i(1)] by simp_all
  have "db_books (before (unat ?h) db)" using inv(2) by blast
  then have books: "db_books db" using i(2) by (simp add: rows_below_def)
  have "limits runes counts k (\<lambda>i. rid_block i < ?h) (ic, db)"
    using serve_block.IH serve_block.hyps(2) unfolding limits_def
    by (auto intro: limits_later simp: word_less_nat_alt)
  note l = limits_index_block [OF assms(1) serve_block.hyps(4) inv(1) i(2) books serve_block.hyps(3) this]
  have "limits runes counts k (\<lambda>i. unat (rid_block i) < Suc (unat ?h)) s"
    using l by (simp add: word_le_nat_alt less_Suc_eq_le)
  moreover obtain ic' db' where s: "s = (ic', db')" by (cases s)
  have "rows_below (Suc (unat ?h)) (snd s)"
    using index_block_inv(1) [OF fo inv(1) i(2) books serve_block.hyps(4) [unfolded s]]
    by (simp add: s block_inv_def)
  ultimately show ?case using block [OF i serve_block.hyps(4)] by simp
next
  case (serve_reorg h ic db g n cap ic')
  have b: "rows_below (Suc (unat g)) db" "rows_below h db"
    using serve_reorg.IH serve_reorg.hyps(2) by (fastforce simp: rows_below_iff)+
  have rb: "roll_back_block g db = (before (unat g) db)\<lparr>db_runes := other_runes g db, db_height := db_height db\<rparr>"
    using roll_back_below [OF b(1)] by (simp add: roll_back_block_def)
  have ledger: "db_ledger (roll_back_block g db) = filter (\<lambda>e. unat (le_block_height e) \<noteq> unat g) (db_ledger db)"
    by (simp add: roll_back_block_def pg_roll_back_block_def delete_height_def)
  have new: "ic_db ic = db_cache_new"
    using indexed_inv [of env "(ic, db)"] assms(1) serve_reorg.IH by (simp add: lawful_def)
  have l: "limits_on k (\<lambda>i. unat (rid_block i) < h) (\<lambda>i. map_option dr_terms_cap (runes (ic_runes ic) i))
      (counts (ic_mints ic)) (terms_of ` set (db_runes db)) (db_ledger db)"
    using serve_reorg.IH new
    by (simp add: limits_def rows_of_def terms_known_def entries_known_def db_cache_new_def)
  have "limits_on k (\<lambda>i. unat (rid_block i) < unat g) Map.empty Map.empty
      (terms_of ` set (db_runes (roll_back_block g db))) (db_ledger (roll_back_block g db))"
    unfolding ledger
  proof (rule limits_roll_back [OF l serve_reorg.hyps(2,3)])
    fix i c b assume "(i, c, b) \<in> terms_of ` set (db_runes (roll_back_block g db))"
    then show "(i, c, b) \<in> terms_of ` set (db_runes db) \<and> unat b \<noteq> unat g"
      by (auto simp: rb other_runes_def delete_height_def terms_of_def)
  qed (use b(2) in \<open>simp add: rows_below_iff\<close>)
  then have "limits runes counts k (\<lambda>i. unat (rid_block i) < unat g) (ic', roll_back_block g db)"
    by (simp add: limits_fresh [OF assms(1) serve_reorg.hyps(4)])
  moreover have "indexed env (ic', roll_back_block g db)"
    using restart reorg serve_reorg.IH serve_reorg.hyps(4) b(1) by blast
  moreover have "rows_below (unat g) (roll_back_block g db)" by (auto simp: rb rows_below_iff before_def)
  ultimately show ?case by simp
next
  case (serve_again h ic db n cap ic')
  have new: "ic_db ic = db_cache_new"
    using indexed_inv [of env "(ic, db)"] assms(1) serve_again.IH by (simp add: lawful_def)
  have l: "limits_on k (\<lambda>i. unat (rid_block i) < h) (\<lambda>i. map_option dr_terms_cap (runes (ic_runes ic) i))
      (counts (ic_mints ic)) (terms_of ` set (db_runes db)) (db_ledger db)"
    using serve_again.IH new
    by (simp add: limits_def rows_of_def terms_known_def entries_known_def db_cache_new_def)
  have "limits_on k (\<lambda>i. unat (rid_block i) < h) Map.empty Map.empty (terms_of ` set (db_runes db)) (db_ledger db)"
    by (rule limits_forget [OF l]) simp_all
  moreover have "indexed env (ic', db)" using restart serve_again.IH serve_again.hyps(2) by blast
  ultimately show ?case using limits_fresh [OF assms(1) serve_again.hyps(2)] serve_again.IH by simp
qed

section \<open>Properties\<close>

text \<open>
  C4. The cap on mints holds: in every state the service reaches by indexing blocks in ascending
  order, with restarts at will and one after each roll back, no rune of the database has more
  mints than its cap, neither in the ledger nor in the counter that the API reads, whatever the
  caches evicted and whenever they were flushed.
\<close>

theorem mint_cap_holds:
  assumes "lawful env runes counts" "served env k h (ic, db)"
    and "r \<in> set (db_runes db)" "dr_id r = rune_id_to_string i" "\<not> is_zero_id i" "dr_terms_cap r = Some c"
  shows "tally mints_of (db_ledger db) (dr_id r) \<le> unat c \<and> supply_value su_total_mints db (dr_id r) \<le> unat c"
proof -
  note inv = served_inv [OF assms(1,2)]
  have "Some c \<in> caps C (terms_known (rows_of (ic, db))) i" for C
    using assms(3,4,6) by (force simp: caps_def terms_known_def terms_of_def rows_of_def)
  then have "mints (entries_known (rows_of (ic, db))) i \<le> unat c"
    using inv assms(5) unfolding limits_def limits_on_def by blast
  then have m: "tally mints_of (db_ledger db) (dr_id r) \<le> unat c"
    by (simp add: entries_known_def rows_of_def assms(4))
  have "unat c < 2 ^ 128" using unsigned_less [of c] by simp
  with m have "tally mints_of (db_ledger db) (dr_id r) < 2 ^ 128" by simp
  moreover have "db_books db"
    using indexed_books [of env ic db] inv assms(1) by (simp add: lawful_def)
  ultimately show ?thesis using m by (simp add: db_books_def)
qed

lemma flush_nothing: "flush fo db_cache_new db = Some (db_cache_new, db)"
  by (simp add: flush_def db_cache_new_def)

text \<open>
  C23. A roll back does not touch the caches. A rune etched in the block rolled back is gone from the
  database, and an indexer that starts there refuses to mint it; but the one that is running
  accepts the mint as long as the record and the count are cached, and the mint goes on the ledger.
\<close>

theorem stale_rune_mints:
  assumes "lawful env runes counts" "\<not> is_zero_id i"
    and "pg_get_rune_by_id i db = Some r"
    and "\<forall>q \<in> set (db_runes db). dr_id q = rune_id_to_string i \<longrightarrow> dr_block_height q = h"
    and "runes (ic_runes ic) i = Some r" "counts (ic_mints ic) i = Some n"
    and "is_rune_mintable r n (place_of (ic, db))" "location_ok (place_of (ic, db))"
    and "runes (ic_runes fresh) i = None" "ic_db fresh = db_cache_new"
  shows "pg_get_rune_by_id i (roll_back_block h db) = None \<and>
    (\<exists>ic' e. index_mint env i (ic, roll_back_block h db) = Some (ic', roll_back_block h db) \<and>
      dc_ledger (ic_db ic') = dc_ledger (ic_db ic) @ [e] \<and> le_operation e = OpMint \<and>
      le_rune_id e = rune_id_to_string i) \<and>
    (\<exists>fresh'. index_mint env i (fresh, roll_back_block h db) = Some (fresh', roll_back_block h db) \<and>
      ic_db fresh' = db_cache_new)"
proof -
  have lru: "lru_ok (ie_runes env) runes" "lru_ok (ie_mints env) counts" using assms(1) by (simp_all add: lawful_def)
  obtain l m where l: "lru_get (ie_runes env) i (ic_runes ic) = (Some r, l)"
    and m: "lru_get (ie_mints env) i (ic_mints ic) = (Some n, m)"
    using lru_get_held [OF lru(1)] lru_get_held [OF lru(2)] assms(5,6) by (metis surj_pair)
  have place: "tc_location (ic_tx ic) = place_of (ic, db)" by (simp add: place_of_def)
  obtain a where a: "dr_terms_amount r = Some a"
    using assms(7) by (auto simp: is_rune_mintable_def split: if_splits)
  let ?tx = "add_input_runes i \<lparr>ib_address = None, ib_amount = a\<rparr> (ic_tx ic)"
  obtain e j where e: "new_entry (place_of (ic, db)) (Some a) i None None None OpMint (tc_next_event (ic_tx ic)) = Some (e, j)"
    using new_entry_total [OF assms(8)] by fastforce
  have mint: "apply_mint i n r (ic_tx ic) = Some (Some e, ?tx\<lparr>tc_next_event := j\<rparr>)"
    using assms(7) a e by (simp add: apply_mint_def place Let_def)
  let ?ic = "ic\<lparr>ic_runes := l, ic_mints := m, ic_tx := ?tx\<lparr>tc_next_event := j\<rparr>\<rparr>"
  have op: "le_operation e = OpMint" "le_rune_id e = rune_id_to_string i" using new_entry_operation [OF e] by simp_all
  have one: "entries_of (place_of (ic, db)) [e]" using new_entry_shape [OF e] by simp
  then obtain b where b: "le_amount e = Some b" using op by (auto simp: entry_of_def)
  obtain ic1 where ic1: "add_ledger_entries_to_db_cache [e] ?ic = Some ic1"
    using op b by (simp add: add_ledger_entries_to_db_cache_def add_ledger_entry_def Let_def)
  have "dc_ledger (ic_db ic1) = dc_ledger (ic_db ic) @ [e]"
    using entries_recorded(4) [OF ic1 one, of "roll_back_block h db"] by (simp add: entries_known_def)
  moreover have "index_mint env i (ic, roll_back_block h db) = Some (count_mint env i ic1, roll_back_block h db)"
    using assms(2) mint ic1
    by (simp add: index_mint_def mint_with_def get_cached_rune_by_rune_id_def get_cached_rune_total_mints_def l m
        unwrap_or_def Let_def)
  ultimately have run: "\<exists>ic' e. index_mint env i (ic, roll_back_block h db) = Some (ic', roll_back_block h db) \<and>
      dc_ledger (ic_db ic') = dc_ledger (ic_db ic) @ [e] \<and> le_operation e = OpMint \<and>
      le_rune_id e = rune_id_to_string i"
    using op by (auto simp: count_mint_def)
  have gone: "pg_get_rune_by_id i (roll_back_block h db) = None"
    unfolding pg_get_rune_by_id_def using assms(4)
    by (intro find_NoneI) (auto simp: roll_back_block_def pg_roll_back_block_def delete_height_def)
  obtain l' where "lru_get (ie_runes env) i (ic_runes fresh) = (None, l')"
    using lru_get_held [OF lru(1)] assms(9) by (metis surj_pair)
  then have "index_mint env i (fresh, roll_back_block h db) = Some (fresh\<lparr>ic_runes := l'\<rparr>, roll_back_block h db)"
    using assms(2,10) gone
    by (simp add: index_mint_def mint_with_def get_cached_rune_by_rune_id_def flush_index_def flush_nothing)
  with gone run assms(10) show ?thesis by simp
qed

end
