(* ===== verification/Ledger_Reads.thy ===== *)
theory Ledger_Reads
  imports Chain
begin

text \<open>
  Reading the ledger back. The balances of the inputs of a transaction are read from the receive
  entries of the ledger, and the code unwraps what it reads. Main fact: whatever was indexed,
  rolled back and flushed before, also in the middle of a block, beginning a transaction aborts
  only when the query for its inputs has more parameters than the server accepts.
\<close>

section \<open>Readable entries\<close>

definition readable :: "ledger_entry \<Rightarrow> bool" where
  "readable e \<longleftrightarrow> le_operation e = OpReceive \<longrightarrow>
     le_amount e \<noteq> None \<and> (\<exists>i. le_rune_id e = rune_id_to_string i)"

definition rows_readable :: "db_cache \<times> database \<Rightarrow> bool" where
  "rows_readable s \<longleftrightarrow> list_all readable (db_ledger (snd s) @ dc_ledger (fst s))"

lemma insert_keeps_ledger:
  "pg_insert_runes rs db = Some db' \<Longrightarrow> db_ledger db' = db_ledger db"
  "pg_insert_supply_changes cs db = Some db' \<Longrightarrow> db_ledger db' = db_ledger db"
  "pg_insert_balance_changes bs inc db = Some db' \<Longrightarrow> db_ledger db' = db_ledger db"
  by (auto simp: pg_insert_runes_def pg_insert_supply_changes_def pg_insert_balance_changes_def bind_eq_Some_conv)

lemma flush_ledger:
  assumes "flush fo dc db = Some (dc', db')"
  shows "db_ledger db' = db_ledger db @ dc_ledger dc \<and> dc_ledger dc' = []"
proof -
  let ?in = "\<lambda>db. if dc_ledger dc \<noteq> [] then pg_insert_ledger_entries (dc_ledger dc) db else db"
  from assms obtain d1 d2 d3 where
    "(if dc_runes dc \<noteq> [] then pg_insert_runes (dc_runes dc) db else Some db) = Some d1"
    "(if dc_supply dc \<noteq> []
       then pg_insert_supply_changes (map snd (fo_supply fo (dc_supply dc))) d1 else Some d1) = Some d2"
    "(if dc_increases dc \<noteq> []
       then pg_insert_balance_changes (map snd (fo_balance fo (dc_increases dc))) True (?in d2) else Some (?in d2)) = Some d3"
    "(if dc_deductions dc \<noteq> []
       then pg_insert_balance_changes (map snd (fo_balance fo (dc_deductions dc))) False d3 else Some d3) = Some db'"
    and new: "dc' = db_cache_new"
    unfolding flush_eq bind_eq_Some_conv by blast
  then have "db_ledger d1 = db_ledger db" "db_ledger d2 = db_ledger d1" "db_ledger d3 = db_ledger (?in d2)"
    "db_ledger db' = db_ledger d3"
    by (auto split: if_splits dest: insert_keeps_ledger)
  then show ?thesis using new by (simp add: ledger_insert db_cache_new_def)
qed

interpretation reads: block_invariant fo "\<lambda>h. rows_readable" for fo
proof
  fix h s s' assume "row_step fo h s s'" "rows_readable s"
  then show "rows_readable s'"
  proof cases
    case (record_entry l e dc outs dc' outs' db)
    moreover have "readable e" using record_entry(3) by (auto simp: readable_def entry_of_def)
    ultimately show ?thesis
      using \<open>rows_readable s\<close> add_ledger_entry_keeps [OF record_entry(5)] by (simp add: rows_readable_def)
  next
    case (queue_rune r dc db)
    with \<open>rows_readable s\<close> show ?thesis by (simp add: rows_readable_def)
  next
    case (write_rows dc db dc' db')
    with \<open>rows_readable s\<close> flush_ledger [OF write_rows(3)] show ?thesis by (simp add: rows_readable_def)
  qed
qed

lemma indexed_readable: "indexed env s \<Longrightarrow> rows_readable (rows_of s)"
proof (induction rule: indexed.induct)
  case (start db n cap ic)
  then show ?case by (simp add: rows_readable_def rows_of_def index_cache_new_db db_cache_new_def)
next
  case (block ic db b notify s ids)
  then obtain ic0 ic1 db1 where
    0: "reset_max_rune_number (ic, db) = Some (ic0, db)"
    and 1: "index_txs env b (bd_txs b) (ic0, db) = Some (ic1, db1)"
    and 2: "flush_index env (end_block env ic1, pg_update_block_height (bd_height b) db1) = Some s"
    by (auto simp: index_block_def reset_max_rune_number_def bind_eq_Some_conv Let_def)
  have "ic_db ic0 = ic_db ic" using 0 by (auto simp: reset_max_rune_number_def bind_eq_Some_conv)
  with block.IH reads.transactions [OF 1 refl] have "rows_readable (rows_of (ic1, db1))"
    by (simp add: rows_of_def)
  then have "rows_readable (ic_db ic1, pg_update_block_height (bd_height b) db1)"
    by (simp add: rows_readable_def rows_of_def pg_update_block_height_def)
  moreover obtain dc db' where "flush (ie_flush_order env) (ic_db ic1) (pg_update_block_height (bd_height b) db1) = Some (dc, db')"
    "rows_of s = (dc, db')"
    using 2 by (auto simp: flush_index_def bind_eq_Some_conv rows_of_def)
  ultimately show ?case using reads.flushed by metis
next
  case (reorg ic db h)
  then show ?case
    by (auto simp: rows_readable_def rows_of_def roll_back_block_def pg_roll_back_block_def delete_height_def list_all_iff)
next
  case (restart ic db n cap ic')
  then show ?case by (simp add: rows_readable_def rows_of_def index_cache_new_db db_cache_new_def)
qed

section \<open>Beginning a transaction\<close>

lemma collect_rows_total:
  assumes "\<forall>(i, e) \<in> set rows. readable e \<and> le_operation e = OpReceive"
  shows "collect_rows rows m \<noteq> None"
  using assms
proof (induction rows m rule: collect_rows.induct)
  case (2 i l rows m)
  then obtain rid amount where "le_rune_id l = rune_id_to_string rid" "le_amount l = Some amount"
    by (auto simp: readable_def)
  with 2 show ?case by (simp add: codec Let_def)
qed simp

lemma input_rows_receive:
  "(i, e) \<in> set (input_rows outs db) \<Longrightarrow> e \<in> set (db_ledger db) \<and> le_operation e = OpReceive"
  by (auto simp: input_rows_def split: if_splits)

lemma find_inputs_total:
  "\<forall>x \<in> set inputs. 2 \<le> length (ti_hash x) \<Longrightarrow> find_inputs ops outs i inputs cache \<noteq> None"
proof (induction inputs arbitrary: i cache)
  case (Cons x inputs)
  then have t: "slice_from 2 (ti_hash x) = Some (drop 2 (ti_hash x))" by (simp add: slice_from_def)
  have rest: "\<exists>r. find_inputs ops outs j inputs c = Some r" for j c using Cons by (auto simp: not_None_eq)
  show ?case
  proof (cases "map_of outs (drop 2 (ti_hash x), ti_vout x)")
    case None
    obtain hit c where g: "lru_get ops (drop 2 (ti_hash x), ti_vout x) cache = (hit, c)" by fastforce
    obtain f ms c' where "find_inputs ops outs (i + 1) inputs c = Some (f, ms, c')" using rest by (metis prod_cases3)
    with None g t show ?thesis by (simp add: Let_def)
  next
    case (Some bs)
    obtain f ms c' where "find_inputs ops outs (i + 1) inputs cache = Some (f, ms, c')" using rest by (metis prod_cases3)
    with Some t show ?thesis by (simp add: Let_def)
  qed
qed simp

lemma find_inputs_misses:
  "find_inputs ops outs i inputs cache = Some (found, misses, cache') \<Longrightarrow> length misses \<le> length inputs"
  by (induction inputs arbitrary: i cache found misses)
    (fastforce simp: bind_eq_Some_conv Let_def split: option.splits prod.splits)+

lemma begin_transaction_fails:
  assumes "rows_readable (rows_of (ic, db))" "\<And>xs. set (ie_row_order env xs) \<subseteq> set xs"
    and "find_inputs (ie_outputs env) (ic_block_outputs ic) 0 inputs (ic_outputs ic) = Some (found, misses, cache)"
  shows "begin_transaction env l inputs el fe n (ic, db) = None \<longleftrightarrow> ie_bind_limit env < 3 * length misses"
proof -
  have "collect_rows (ie_row_order env (input_rows misses db)) [] \<noteq> None"
  proof (rule collect_rows_total, clarify)
    fix i e assume "(i, e) \<in> set (ie_row_order env (input_rows misses db))"
    then have "(i, e) \<in> set (input_rows misses db)" using assms(2) by blast
    from input_rows_receive [OF this] assms(1) show "readable e \<and> le_operation e = OpReceive"
      by (simp add: rows_readable_def rows_of_def list_all_iff)
  qed
  then have "misses \<noteq> [] \<Longrightarrow>
      pg_get_input_rune_balances (ie_row_order env) (ie_bind_limit env) misses db = None \<longleftrightarrow>
        ie_bind_limit env < 3 * length misses"
    by (simp add: pg_get_input_rune_balances_def)
  then show ?thesis
    by (cases "misses = []")
      (auto simp: begin_transaction_def input_rune_balances_from_tx_inputs_def assms(3) Let_def bind_eq_None_conv)
qed

section \<open>Properties\<close>

text \<open>
  C10. Beginning a transaction aborts in one case only: in every state of the indexer and after any
  of the transactions of a block, the balances of inputs can be read, from the outputs of the
  block, from the cache or from the ledger, as long as their transaction ids carry their prefix,
  unless so many inputs are in neither of the first two that the one query for them has more
  parameters than the server accepts. A transaction with at most a third as many inputs never
  aborts.
\<close>

theorem begin_transaction_total:
  assumes "indexed env s" "reset_max_rune_number s = Some s0" "index_txs env b ts s0 = Some s1"
    and "\<forall>xs. set (ie_row_order env xs) \<subseteq> set xs" "\<forall>x \<in> set inputs. 2 \<le> length (ti_hash x)"
  shows "(begin_transaction env l inputs el fe n s1 = None \<longleftrightarrow>
      (\<exists>found misses cache.
        find_inputs (ie_outputs env) (ic_block_outputs (fst s1)) 0 inputs (ic_outputs (fst s1)) =
          Some (found, misses, cache) \<and> ie_bind_limit env < 3 * length misses)) \<and>
    (3 * length inputs \<le> ie_bind_limit env \<longrightarrow> begin_transaction env l inputs el fe n s1 \<noteq> None)"
proof -
  have "rows_of s0 = rows_of s"
    using assms(2) by (cases s) (auto simp: reset_max_rune_number_def bind_eq_Some_conv rows_of_def)
  with indexed_readable [OF assms(1)] reads.transactions [OF assms(3) refl] have r: "rows_readable (rows_of s1)" by simp
  obtain ic db where s1: "s1 = (ic, db)" by (cases s1)
  obtain found misses cache where
    f: "find_inputs (ie_outputs env) (ic_block_outputs ic) 0 inputs (ic_outputs ic) = Some (found, misses, cache)"
    using find_inputs_total [OF assms(5)] by (metis not_None_eq prod_cases3)
  have "\<And>xs. set (ie_row_order env xs) \<subseteq> set xs" using assms(4) by blast
  from begin_transaction_fails [OF r [unfolded s1] this f, of l el fe n] find_inputs_misses [OF f]
  show ?thesis by (auto simp: s1 f)
qed

end
