(* ===== verification/Encipher.thy ===== *)
theory Encipher
  imports Decipher
begin

text \<open>
  \<open>Runestone::encipher\<close> (\<^verbatim>\<open>crates/ordinals/src/runestone.rs\<close>) and its round trip with
  \<open>decipher\<close>. The script builder belongs to the \<^verbatim>\<open>bitcoin\<close> crate and is the parameter
  \<open>build\<close>, which gets the pushes in order; \<open>script_law\<close> states what the crate documents, that
  iterating over a built script gives back what was pushed.
\<close>

section \<open>Encoder\<close>

definition MAX_STACK_ELEMENT_SIZE :: nat where
  "MAX_STACK_ELEMENT_SIZE = 520"

definition encipher_flags :: "etching \<Rightarrow> u128" where
  "encipher_flags e =
     (let flags = flag_set FlagEtching 0;
          flags = (if et_terms e \<noteq> None then flag_set FlagTerms flags else flags)
      in if et_turbo e then flag_set FlagTurbo flags else flags)"

definition encipher_terms :: "terms \<Rightarrow> u8 list \<Rightarrow> u8 list" where
  "encipher_terms t payload =
     (let payload = tag_encode_option Amount (tm_amount t) payload;
          payload = tag_encode_option Cap (tm_cap t) payload;
          payload = tag_encode_option HeightStart (map_option ucast (fst (tm_height t))) payload;
          payload = tag_encode_option HeightEnd (map_option ucast (snd (tm_height t))) payload;
          payload = tag_encode_option OffsetStart (map_option ucast (fst (tm_offset t))) payload
      in tag_encode_option OffsetEnd (map_option ucast (snd (tm_offset t))) payload)"

definition encipher_etching :: "etching \<Rightarrow> u8 list \<Rightarrow> u8 list" where
  "encipher_etching e payload =
     (let payload = tag_encode Flags [encipher_flags e] payload;
          payload = tag_encode_option RuneTag (map_option rune_n (et_rune e)) payload;
          payload = tag_encode_option Divisibility (map_option ucast (et_divisibility e)) payload;
          payload = tag_encode_option Spacers (map_option ucast (et_spacers e)) payload;
          payload = tag_encode_option Symbol (map_option of_nat (et_symbol e)) payload;
          payload = tag_encode_option Premine (et_premine e) payload
      in case et_terms e of None \<Rightarrow> payload | Some t \<Rightarrow> encipher_terms t payload)"

fun encipher_edicts :: "rune_id \<Rightarrow> edict list \<Rightarrow> u8 list \<Rightarrow> u8 list option" where
  "encipher_edicts previous [] payload = Some payload"
| "encipher_edicts previous (e # es) payload =
     do {
       (block, tx) \<leftarrow> rune_id_delta previous (ed_id e);
       let payload = encode_to_vec block payload;
           payload = encode_to_vec tx payload;
           payload = encode_to_vec (ed_amount e) payload;
           payload = encode_to_vec (ucast (ed_output e)) payload
       in encipher_edicts (ed_id e) es payload
     }"

definition encipher_payload :: "runestone \<Rightarrow> u8 list option" where
  "encipher_payload r =
     (let payload = [];
          payload =
            (case rs_etching r of None \<Rightarrow> payload | Some e \<Rightarrow> encipher_etching e payload);
          payload =
            (case rs_mint r of
               None \<Rightarrow> payload
             | Some (RuneId block tx) \<Rightarrow> tag_encode Mint [ucast block, ucast tx] payload);
          payload = tag_encode_option Pointer (map_option ucast (rs_pointer r)) payload
      in if rs_edicts r \<noteq> []
         then encipher_edicts rune_id_default (sort_key ed_id (rs_edicts r))
           (encode_to_vec (tag_n Body) payload)
         else Some payload)"

text \<open>\<open>None\<close> is the panic of \<open>previous.delta(edict.id).unwrap()\<close>.\<close>

definition encipher :: "(instruction list \<Rightarrow> 's) \<Rightarrow> runestone \<Rightarrow> 's option" where
  "encipher build r =
     do {
       payload \<leftarrow> encipher_payload r;
       Some (build (Op OP_RETURN # Op MAGIC_NUMBER #
         map PushBytes (chunks MAX_STACK_ELEMENT_SIZE payload)))
     }"

definition script_law ::
    "('s \<Rightarrow> script_item list) \<Rightarrow> (instruction list \<Rightarrow> 's) \<Rightarrow> bool" where
  "script_law instructions build \<longleftrightarrow>
     (\<forall>pushes. (\<forall>p \<in> set pushes. length p \<le> MAX_STACK_ELEMENT_SIZE) \<longrightarrow>
        instructions (build (Op OP_RETURN # Op MAGIC_NUMBER # map PushBytes pushes)) =
          map ItemOk (Op OP_RETURN # Op MAGIC_NUMBER # map PushBytes pushes))"

section \<open>The integers of the payload\<close>

definition opt_pair :: "tag \<Rightarrow> u128 option \<Rightarrow> (u128 \<times> u128) list" where
  "opt_pair t v = (case v of None \<Rightarrow> [] | Some x \<Rightarrow> [(tag_n t, x)])"

definition terms_pairs :: "terms \<Rightarrow> (u128 \<times> u128) list" where
  "terms_pairs t =
     opt_pair Amount (tm_amount t) @ opt_pair Cap (tm_cap t) @
     opt_pair HeightStart (map_option ucast (fst (tm_height t))) @
     opt_pair HeightEnd (map_option ucast (snd (tm_height t))) @
     opt_pair OffsetStart (map_option ucast (fst (tm_offset t))) @
     opt_pair OffsetEnd (map_option ucast (snd (tm_offset t)))"

definition etching_pairs :: "etching \<Rightarrow> (u128 \<times> u128) list" where
  "etching_pairs e =
     (tag_n Flags, encipher_flags e) # opt_pair RuneTag (map_option rune_n (et_rune e)) @
     opt_pair Divisibility (map_option ucast (et_divisibility e)) @
     opt_pair Spacers (map_option ucast (et_spacers e)) @
     opt_pair Symbol (map_option of_nat (et_symbol e)) @
     opt_pair Premine (et_premine e) @
     (case et_terms e of None \<Rightarrow> [] | Some t \<Rightarrow> terms_pairs t)"

definition runestone_pairs :: "runestone \<Rightarrow> (u128 \<times> u128) list" where
  "runestone_pairs r =
     (case rs_etching r of None \<Rightarrow> [] | Some e \<Rightarrow> etching_pairs e) @
     (case rs_mint r of
        None \<Rightarrow> []
      | Some i \<Rightarrow> [(tag_n Mint, ucast (rid_block i)), (tag_n Mint, ucast (rid_tx i))]) @
     opt_pair Pointer (map_option ucast (rs_pointer r))"

abbreviation flat :: "(u128 \<times> u128) list \<Rightarrow> u128 list" where
  "flat pairs \<equiv> concat (map (\<lambda>(t, v). [t, v]) pairs)"

lemma encode_all_simps [simp]:
  "encode_all [] = []"
  "encode_all (n # ns) = encode n @ encode_all ns"
  "encode_all (ns @ ms) = encode_all ns @ encode_all ms"
  by (simp_all add: encode_all_def)

lemma tag_encode_option_pairs:
  "tag_encode_option t v payload = payload @ encode_all (flat (opt_pair t v))"
  by (simp add: tag_encode_option_append opt_pair_def split: option.split)

lemma encipher_terms_pairs:
  "encipher_terms t payload = payload @ encode_all (flat (terms_pairs t))"
  by (simp add: encipher_terms_def terms_pairs_def tag_encode_option_pairs Let_def)

lemma encipher_etching_pairs:
  "encipher_etching e payload = payload @ encode_all (flat (etching_pairs e))"
  by (simp add: encipher_etching_def etching_pairs_def tag_encode_option_pairs tag_encode_append
      encipher_terms_pairs Let_def split: option.split)

lemma encipher_edicts_integers:
  "encipher_edicts previous es payload =
     map_option (\<lambda>ns. payload @ encode_all ns) (edict_integers previous es)"
  by (induction previous es payload rule: encipher_edicts.induct)
    (auto simp: encode_to_vec_append Let_def map_option_bind split: bind_splits option.splits)

definition body_integers :: "runestone \<Rightarrow> u128 list option" where
  "body_integers r =
     (if rs_edicts r = [] then Some []
      else map_option ((#) (tag_n Body))
        (edict_integers rune_id_default (sort_key ed_id (rs_edicts r))))"

lemma encipher_payload_integers:
  "encipher_payload r =
     map_option (\<lambda>ns. encode_all (flat (runestone_pairs r) @ ns)) (body_integers r)"
  by (auto simp: encipher_payload_def runestone_pairs_def body_integers_def Let_def
      encipher_etching_pairs tag_encode_append tag_encode_option_pairs encipher_edicts_integers
      encode_to_vec_append option.map_comp comp_def split: option.split rune_id.split)

lemma body_integers_total: "body_integers r \<noteq> None"
proof -
  have "sorted (rune_id_default # map ed_id (sort_key ed_id (rs_edicts r)))"
    by (simp add: rune_id_default_least)
  then show ?thesis using edict_integers_sorted by (auto simp: body_integers_def)
qed

section \<open>Reading the fields back\<close>

definition pair_values :: "(u128 \<times> u128) list \<Rightarrow> u128 \<Rightarrow> u128 list" where
  "pair_values pairs k = map snd (filter (\<lambda>p. fst p = k) pairs)"

lemma pair_values_simps [simp]:
  "pair_values [] k = []"
  "pair_values (p # ps) k = (if fst p = k then [snd p] else []) @ pair_values ps k"
  "pair_values (ps @ qs) k = pair_values ps k @ pair_values qs k"
  "pair_values (opt_pair t v) k = (if tag_n t = k then case_option [] (\<lambda>x. [x]) v else [])"
  by (auto simp: pair_values_def opt_pair_def split: option.split)

lemma field_value_opt:
  "q (tag_n t) = case_option [] (\<lambda>x. [x]) v \<Longrightarrow>
   field_value t (Suc 0) (take1 f) q = Option.bind v f"
  by (cases v) (simp_all add: field_value_def take1_def)

lemma bind_map_option: "Option.bind (map_option g v) f = Option.bind v (f \<circ> g)"
  by (cases v) simp_all

lemma bind_inverse: "pred_option (\<lambda>x. f x = Some x) v \<Longrightarrow> Option.bind v f = v"
  by (cases v) simp_all

lemma encipher_flags_bits:
  "bit (encipher_flags e) n \<longleftrightarrow>
     n = 0 \<or> n = 1 \<and> et_terms e \<noteq> None \<or> n = 2 \<and> et_turbo e"
  by (auto simp: encipher_flags_def flag_set_bits bit_set_bit_iff bit_1_iff Let_def)

lemma rune_eta [simp]: "Rune \<circ> rune_n = id" "Option.bind v (Some \<circ> f) = map_option f v"
  by (auto simp: fun_eq_iff Option.map_conv_bind_option comp_def)

lemma terms_spec_pairs:
  assumes "\<And>k. k \<in> etching_tags \<Longrightarrow> q k = pair_values ps k @ pair_values (terms_pairs t) k"
    and "\<And>k. k \<in> {8, 10, 12, 14, 16, 18} \<Longrightarrow> pair_values ps k = []"
  shows "terms_spec q = t"
proof -
  have q: "q (tag_n u) = pair_values (terms_pairs t) (tag_n u)"
    if "u \<in> {Amount, Cap, HeightStart, HeightEnd, OffsetStart, OffsetEnd}" for u
  proof -
    have "tag_n u \<in> etching_tags" "tag_n u \<in> {8, 10, 12, 14, 16, 18}"
      using that by (auto simp: etching_tags_def)
    then show ?thesis by (simp only: assms append_Nil)
  qed
  have o: "field_value u (Suc 0) (take1 f) q = Option.bind v f"
    if "u \<in> {Amount, Cap, HeightStart, HeightEnd, OffsetStart, OffsetEnd}"
      "pair_values (terms_pairs t) (tag_n u) = case_option [] (\<lambda>x. [x]) v"
    for u v and f :: "u128 \<Rightarrow> 'b option"
    using that q by (intro field_value_opt) simp
  show ?thesis
    by (cases t)
      (simp add: terms_spec_def o [of Amount "tm_amount t"] o [of Cap "tm_cap t"]
        o [of HeightStart "map_option ucast (fst (tm_height t))"]
        o [of HeightEnd "map_option ucast (snd (tm_height t))"]
        o [of OffsetStart "map_option ucast (fst (tm_offset t))"]
        o [of OffsetEnd "map_option ucast (snd (tm_offset t))"]
        terms_pairs_def bind_map_option comp_def)
qed

lemma symbol_field_of_nat:
  "c < 2 ^ 32 \<Longrightarrow> symbol_field (of_nat c) = char_from_u32 (of_nat c)"
proof -
  assume c: "c < 2 ^ 32"
  then have u: "unat (of_nat c :: u128) = c" by (simp add: unat_of_nat_small)
  then have "(ucast (of_nat c :: u128) :: u32) = of_nat c"
    using c by (simp add: unat_of_nat_small unat_ucast_small word_unat_eq_iff)
  then show ?thesis using u c by (simp add: symbol_field_def try_from_def)
qed

lemma terms_pairs_low: "k \<in> {1, 3, 4, 5, 6} \<Longrightarrow> pair_values (terms_pairs t) k = []"
  unfolding terms_pairs_def by (elim insertE emptyE; simp)

lemma etching_spec_pairs:
  assumes "\<And>k. k \<in> etching_tags \<Longrightarrow> q k = pair_values (etching_pairs e) k" and "etching_ok e"
  shows "etching_spec (encipher_flags e) q = Some e"
proof -
  have o: "field_value u (Suc 0) (take1 f) q = Option.bind v f"
    if "tag_n u \<in> etching_tags"
      "pair_values (etching_pairs e) (tag_n u) = case_option [] (\<lambda>x. [x]) v"
    for u v and f :: "u128 \<Rightarrow> 'b option"
    using that assms(1) by (intro field_value_opt) simp
  have no_terms: "pair_values (case et_terms e of None \<Rightarrow> [] | Some t \<Rightarrow> terms_pairs t) k = []"
    if "k \<in> {1, 3, 4, 5, 6}" for k
    using that by (cases "et_terms e") (simp, simp add: terms_pairs_low)
  have "field_value Divisibility (Suc 0) (take1 divisibility_field) q = et_divisibility e"
    using assms(2)
    by (simp add: o [of _ "map_option ucast (et_divisibility e)"] etching_tags_def etching_pairs_def
        no_terms bind_map_option etching_ok_def)
      (auto intro!: bind_inverse simp: divisibility_field_def pred_option_def)
  moreover have "field_value Spacers (Suc 0) (take1 spacers_field) q = et_spacers e"
    using assms(2)
    by (simp add: o [of _ "map_option ucast (et_spacers e)"] etching_tags_def etching_pairs_def
        no_terms bind_map_option etching_ok_def)
      (auto intro!: bind_inverse simp: spacers_field_def pred_option_def)
  moreover have "field_value Symbol (Suc 0) (take1 symbol_field) q = et_symbol e"
    using assms(2)
    by (simp add: o [of _ "map_option of_nat (et_symbol e)"] etching_tags_def etching_pairs_def
        no_terms bind_map_option etching_ok_def)
      (auto intro!: bind_inverse simp: symbol_field_of_nat pred_option_def)
  moreover have "field_value Premine (Suc 0) (take1 Some) q = et_premine e"
    by (simp add: o [of _ "et_premine e"] etching_tags_def etching_pairs_def no_terms)
  moreover have "field_value RuneTag (Suc 0) (take1 (Some \<circ> Rune)) q = et_rune e"
    by (simp add: o [of _ "map_option rune_n (et_rune e)"] etching_tags_def etching_pairs_def
        no_terms option.map_comp option.map_id)
  moreover have "terms_spec q = t" if t: "et_terms e = Some t" for t
  proof -
    define ps where "ps = (tag_n Flags, encipher_flags e) #
      opt_pair RuneTag (map_option rune_n (et_rune e)) @
      opt_pair Divisibility (map_option ucast (et_divisibility e)) @
      opt_pair Spacers (map_option ucast (et_spacers e)) @
      opt_pair Symbol (map_option of_nat (et_symbol e)) @ opt_pair Premine (et_premine e)"
    have eq: "etching_pairs e = ps @ terms_pairs t"
      using t by (simp add: etching_pairs_def ps_def)
    show ?thesis
    proof (rule terms_spec_pairs)
      show "q k = pair_values ps k @ pair_values (terms_pairs t) k" if "k \<in> etching_tags" for k
        using assms(1) [OF that] by (simp only: eq pair_values_simps(3))
      show "pair_values ps k = []" if "k \<in> {8, 10, 12, 14, 16, 18}" for k
        using that by (auto simp: ps_def)
    qed
  qed
  ultimately show ?thesis
    by (simp add: etching_spec_def encipher_flags_bits)
      (cases "et_terms e"; simp)
qed

section \<open>Nothing is left over\<close>

definition taken :: "tag \<Rightarrow> (u128 \<Rightarrow> 'a option) \<Rightarrow> (u128 \<Rightarrow> u128 list) \<Rightarrow> u128 list" where
  "taken t f q =
     (if field_value t (Suc 0) (take1 f) q = None then q (tag_n t) else drop (Suc 0) (q (tag_n t)))"

lemma taken_empty:
  assumes "field_value t (Suc 0) (take1 f) q = v" "q (tag_n t) = case_option [] (\<lambda>x. [x]) (map_option g v)"
  shows "taken t f q = []"
  using assms by (cases v) (simp_all add: taken_def)

lemma rest_base:
  fixes flds :: fields
  assumes "bit flags 0"
  defines "q' \<equiv> values_of (snd (snd (take_etching flags flds)))" and "q \<equiv> values_of flds"
  shows "q' 1 = taken Divisibility divisibility_field q"
    and "q' 6 = taken Premine Some q"
    and "q' 4 = taken RuneTag (Some \<circ> Rune) q"
    and "q' 3 = taken Spacers spacers_field q"
    and "q' 5 = taken Symbol symbol_field q"
proof -
  have o: "values_of (snd (take_terms fl)) k = values_of fl k" if "k \<in> {1, 3, 4, 5, 6}" for fl k
    using that unfolding take_terms_def split_beta Let_def by (elim insertE emptyE; simp)
  note defs = q'_def q_def taken_def take_etching_def split_beta Let_def flag_take_bits o
    field_value_def assms(1)
  show "q' 1 = taken Divisibility divisibility_field q" by (simp add: defs)
  show "q' 6 = taken Premine Some q" by (simp add: defs)
  show "q' 4 = taken RuneTag (Some \<circ> Rune) q" by (simp add: defs)
  show "q' 3 = taken Spacers spacers_field q" by (simp add: defs)
  show "q' 5 = taken Symbol symbol_field q" by (simp add: defs)
qed

lemma taken_cong: "q (tag_n t) = r (tag_n t) \<Longrightarrow> taken t f q = taken t f r"
  by (simp add: taken_def cong: field_value_cong)

lemma rest_take_terms:
  fixes flds :: fields
  defines "q' \<equiv> values_of (snd (take_terms flds))" and "q \<equiv> values_of flds"
  shows "q' 8 = taken Cap Some q"
    and "q' 12 = taken HeightStart (try_from :: u128 \<Rightarrow> u64 option) q"
    and "q' 14 = taken HeightEnd (try_from :: u128 \<Rightarrow> u64 option) q"
    and "q' 10 = taken Amount Some q"
    and "q' 16 = taken OffsetStart (try_from :: u128 \<Rightarrow> u64 option) q"
    and "q' 18 = taken OffsetEnd (try_from :: u128 \<Rightarrow> u64 option) q"
  by (auto simp: q'_def q_def taken_def take_terms_def split_beta Let_def field_value_def)

lemma take_etching_terms:
  assumes "bit flags 0" "bit flags 1"
  obtains f5 where "snd (snd (take_etching flags flds)) = snd (take_terms f5)"
    and "\<And>k. k \<in> {8, 10, 12, 14, 16, 18} \<Longrightarrow> values_of f5 k = values_of flds k"
proof
  let ?f5 = "snd (tag_take Symbol 1 (take1 symbol_field)
    (snd (tag_take Spacers 1 (take1 spacers_field)
    (snd (tag_take RuneTag 1 (take1 (Some \<circ> Rune))
    (snd (tag_take Premine 1 (take1 Some)
    (snd (tag_take Divisibility 1 (take1 divisibility_field) flds)))))))))"
  show "snd (snd (take_etching flags flds)) = snd (take_terms ?f5)"
    using assms by (simp add: take_etching_def split_beta Let_def flag_take_bits bit_unset_bit_iff)
  show "values_of ?f5 k = values_of flds k" if "k \<in> {8, 10, 12, 14, 16, 18}" for k
    using that by (elim insertE emptyE; simp)
qed

lemma rest_terms:
  fixes flds :: fields
  assumes "bit flags 0" "bit flags 1"
  defines "q' \<equiv> values_of (snd (snd (take_etching flags flds)))" and "q \<equiv> values_of flds"
  shows "q' 8 = taken Cap Some q"
    and "q' 12 = taken HeightStart (try_from :: u128 \<Rightarrow> u64 option) q"
    and "q' 14 = taken HeightEnd (try_from :: u128 \<Rightarrow> u64 option) q"
    and "q' 10 = taken Amount Some q"
    and "q' 16 = taken OffsetStart (try_from :: u128 \<Rightarrow> u64 option) q"
    and "q' 18 = taken OffsetEnd (try_from :: u128 \<Rightarrow> u64 option) q"
proof -
  obtain f5 where f5: "snd (snd (take_etching flags flds)) = snd (take_terms f5)"
    and same: "\<And>k. k \<in> {8, 10, 12, 14, 16, 18} \<Longrightarrow> values_of f5 k = values_of flds k"
    using take_etching_terms [OF assms(1,2), of flds] by metis
  note rest = q'_def q_def f5 rest_take_terms
  show "q' 8 = taken Cap Some q"
    and "q' 12 = taken HeightStart (try_from :: u128 \<Rightarrow> u64 option) q"
    and "q' 14 = taken HeightEnd (try_from :: u128 \<Rightarrow> u64 option) q"
    and "q' 10 = taken Amount Some q"
    and "q' 16 = taken OffsetStart (try_from :: u128 \<Rightarrow> u64 option) q"
    and "q' 18 = taken OffsetEnd (try_from :: u128 \<Rightarrow> u64 option) q"
    unfolding rest by (rule taken_cong, simp add: same)+
qed

lemma rest_no_terms:
  assumes "\<not> bit flags 1" "k \<in> {8, 10, 12, 14, 16, 18}"
  shows "values_of (snd (snd (take_etching flags flds))) k = values_of flds k"
proof -
  have b: "\<not> bit flags (Suc 0)" using assms(1) by simp
  note defs = take_etching_def split_beta Let_def flag_take_bits b bit_unset_bit_iff
  show ?thesis using assms(2) by (elim insertE emptyE; simp add: defs)
qed

lemma drained_etching:
  assumes e: "etching_spec flags (values_of flds) = Some e"
    and q: "\<And>k. k \<in> etching_tags \<Longrightarrow> values_of flds k = pair_values (etching_pairs e) k"
    and k: "k \<in> etching_tags"
  shows "values_of (snd (snd (take_etching flags flds))) k = []"
proof -
  let ?q = "values_of flds"
  have b: "bit flags 0" using e by (simp add: etching_spec_def split: if_splits)
  have t: "bit flags 1 \<longleftrightarrow> et_terms e \<noteq> None"
    using e by (auto simp: etching_spec_def split: if_splits)
  note base = rest_base [OF b, of flds]
  have tags: "1 \<in> etching_tags" "6 \<in> etching_tags" "4 \<in> etching_tags" "3 \<in> etching_tags"
    "5 \<in> etching_tags" "8 \<in> etching_tags" "10 \<in> etching_tags" "12 \<in> etching_tags"
    "14 \<in> etching_tags" "16 \<in> etching_tags" "18 \<in> etching_tags"
    by (simp_all add: etching_tags_def)
  have low: "pair_values (case et_terms e of None \<Rightarrow> [] | Some t \<Rightarrow> terms_pairs t) k = []"
    if "k \<in> {1, 3, 4, 5, 6}" for k
    using that by (cases "et_terms e") (simp, simp add: terms_pairs_low)
  have f: "field_value Divisibility (Suc 0) (take1 divisibility_field) ?q = et_divisibility e"
    "field_value Premine (Suc 0) (take1 Some) ?q = et_premine e"
    "field_value RuneTag (Suc 0) (take1 (Some \<circ> Rune)) ?q = et_rune e"
    "field_value Spacers (Suc 0) (take1 spacers_field) ?q = et_spacers e"
    "field_value Symbol (Suc 0) (take1 symbol_field) ?q = et_symbol e"
    using e b by (auto simp: etching_spec_def)
  have e_base: "taken Divisibility divisibility_field ?q = []" "taken Premine Some ?q = []"
    "taken RuneTag (Some \<circ> Rune) ?q = []" "taken Spacers spacers_field ?q = []"
    "taken Symbol symbol_field ?q = []"
    using q [OF tags(1)] q [OF tags(2)] q [OF tags(3)] q [OF tags(4)] q [OF tags(5)]
    by (auto intro!: taken_empty [OF f(1), of ucast] taken_empty [OF f(2), of id]
        taken_empty [OF f(3), of rune_n] taken_empty [OF f(4), of ucast] taken_empty [OF f(5), of of_nat]
        simp: etching_pairs_def low option.map_id)
  have e_terms: "values_of (snd (snd (take_etching flags flds))) j = []"
    if j: "j \<in> {8, 10, 12, 14, 16, 18}" for j
  proof (cases "et_terms e")
    case None
    then have "\<not> bit flags 1" using t by simp
    moreover have "j \<in> etching_tags" using j tags by auto
    moreover have "pair_values (etching_pairs e) j = []"
      using j None by (elim insertE emptyE; simp add: etching_pairs_def)
    ultimately show ?thesis using rest_no_terms [OF _ j] q by simp
  next
    case (Some u)
    have b1: "bit flags 1" using t Some by simp
    have g: "field_value Cap (Suc 0) (take1 Some) ?q = tm_cap u"
      "field_value HeightStart (Suc 0) (take1 try_from) ?q = fst (tm_height u)"
      "field_value HeightEnd (Suc 0) (take1 try_from) ?q = snd (tm_height u)"
      "field_value Amount (Suc 0) (take1 Some) ?q = tm_amount u"
      "field_value OffsetStart (Suc 0) (take1 try_from) ?q = fst (tm_offset u)"
      "field_value OffsetEnd (Suc 0) (take1 try_from) ?q = snd (tm_offset u)"
      using e b b1 Some by (auto simp: etching_spec_def terms_spec_def)
    have "taken Cap Some ?q = []" "taken HeightStart (try_from :: u128 \<Rightarrow> u64 option) ?q = []"
      "taken HeightEnd (try_from :: u128 \<Rightarrow> u64 option) ?q = []" "taken Amount Some ?q = []"
      "taken OffsetStart (try_from :: u128 \<Rightarrow> u64 option) ?q = []"
      "taken OffsetEnd (try_from :: u128 \<Rightarrow> u64 option) ?q = []"
      using Some q [OF tags(6)] q [OF tags(7)] q [OF tags(8)] q [OF tags(9)] q [OF tags(10)] q [OF tags(11)]
      by (auto intro!: taken_empty [OF g(1), of id] taken_empty [OF g(2), of ucast]
        taken_empty [OF g(3), of ucast] taken_empty [OF g(4), of id] taken_empty [OF g(5), of ucast]
        taken_empty [OF g(6), of ucast] simp: etching_pairs_def terms_pairs_def option.map_id)
    then show ?thesis using j rest_terms [OF b b1, of flds] by auto
  qed
  have "k \<in> {1, 6, 4, 3, 5} \<or> k \<in> {8, 10, 12, 14, 16, 18}"
    using k by (auto simp: etching_tags_def)
  then show ?thesis using base e_base e_terms by auto
qed

section \<open>Round trip\<close>

lemma opt_pair_nonzero: "tag_n t \<noteq> 0 \<Longrightarrow> list_all (\<lambda>p. fst p \<noteq> 0) (opt_pair t v)"
  by (simp add: opt_pair_def split: option.split)

lemma terms_pairs_nonzero: "list_all (\<lambda>p. fst p \<noteq> 0) (terms_pairs t)"
  by (simp add: terms_pairs_def opt_pair_nonzero)

lemma runestone_pairs_nonzero: "list_all (\<lambda>p. fst p \<noteq> 0) (runestone_pairs r)"
proof -
  have "list_all (\<lambda>p. fst p \<noteq> 0) (etching_pairs e)" for e
    by (cases "et_terms e") (simp_all add: etching_pairs_def opt_pair_nonzero terms_pairs_nonzero)
  then show ?thesis
    by (cases "rs_etching r"; cases "rs_mint r")
      (simp_all add: runestone_pairs_def opt_pair_nonzero)
qed

lemma message_loop_body:
  assumes "body_integers r = Some ns" "list_all (edict_ok tx) (rs_edicts r)"
    and "length (tx_output tx) < 2 ^ 32"
  shows "message_loop tx flds ns =
    Some \<lparr>msg_flaw = None, msg_edicts = sort_key ed_id (rs_edicts r), msg_fields = flds\<rparr>"
proof (cases "rs_edicts r = []")
  case True
  then show ?thesis using assms(1) by (simp add: body_integers_def)
next
  case False
  with assms(1) obtain ms where ns: "ns = tag_n Body # ms"
    and ms: "edict_integers rune_id_default (sort_key ed_id (rs_edicts r)) = Some ms"
    by (auto simp: body_integers_def)
  have "list_all (edict_ok tx) (sort_key ed_id (rs_edicts r))"
    using assms(2) by (simp add: list_all_iff)
  from body_loop_edicts [OF ms this assms(3)] show ?thesis by (simp add: ns)
qed

lemma etching_tags_pairs:
  assumes "k \<in> etching_tags"
  shows "pair_values (runestone_pairs r) k =
     (case rs_etching r of None \<Rightarrow> [] | Some e \<Rightarrow> pair_values (etching_pairs e) k)"
proof -
  have "k \<noteq> 20" "k \<noteq> 22" using assms by (auto simp: etching_tags_def)
  then show ?thesis
    by (cases "rs_etching r"; cases "rs_mint r") (simp_all add: runestone_pairs_def)
qed

lemma terms_pairs_other: "k \<notin> etching_tags \<Longrightarrow> pair_values (terms_pairs t) k = []"
  by (auto simp: etching_tags_def terms_pairs_def)

lemma etching_pairs_other:
  "k \<notin> etching_tags \<Longrightarrow>
   pair_values (etching_pairs e) k = (if k = 2 then [encipher_flags e] else [])"
  by (cases "et_terms e")
    (simp_all add: terms_pairs_other etching_pairs_def, simp_all add: etching_tags_def)

lemma high_tags_pairs:
  assumes "k \<notin> etching_tags"
  shows "pair_values (runestone_pairs r) k =
    (if k = 2 then case_option [] (\<lambda>e. [encipher_flags e]) (rs_etching r)
     else if k = 20 then case_option [] (\<lambda>i. [ucast (rid_block i), ucast (rid_tx i)]) (rs_mint r)
     else if k = 22 then case_option [] (\<lambda>x. [x]) (map_option ucast (rs_pointer r))
     else [])"
  using assms
  by (cases "rs_etching r"; cases "rs_mint r") (simp_all add: runestone_pairs_def etching_pairs_other)

lemma low_tags: "2 \<notin> etching_tags" "20 \<notin> etching_tags" "22 \<notin> etching_tags"
  by (simp_all add: etching_tags_def)

lemma mint_round:
  assumes "pred_option rune_id_valid i"
    and "q 20 = case_option [] (\<lambda>i. [ucast (rid_block i), ucast (rid_tx i)]) i"
  shows "field_value Mint 2 (take2 mint_field) q = i"
  using assms
  by (cases i) (simp_all add: field_value_def take2_def mint_field_def rune_id_new_Some)

lemma pointer_round:
  assumes "pred_option (\<lambda>p. unat p < length (tx_output tx)) p" "length (tx_output tx) < 2 ^ 64"
    and "q 22 = case_option [] (\<lambda>x. [x]) (map_option ucast p)"
  shows "field_value Pointer (Suc 0) (take1 (pointer_field tx)) q = p"
  using assms
  by (cases p) (simp_all add: field_value_def take1_def pointer_field_def word_less_nat_alt
      unat_of_nat_small unat_ucast_up)

lemma rest_empty:
  assumes q: "values_of (msg_fields m) = pair_values (runestone_pairs r)"
    and flags: "message_flags m = case_option 0 encipher_flags (rs_etching r)"
    and etching: "etching_spec (message_flags m) (values_of (msg_fields m)) = rs_etching r"
    and mint: "field_value Mint 2 (take2 mint_field) (values_of (msg_fields m)) = rs_mint r"
    and pointer: "field_value Pointer (Suc 0) (take1 (pointer_field tx)) (values_of (msg_fields m)) =
      rs_pointer r"
  shows "values_of (rest_fields tx m) k = []"
proof -
  define f1 where "f1 = snd (take_flags (msg_fields m))"
  define f2 where "f2 = snd (snd (take_etching (message_flags m) f1))"
  define f3 where "f3 = snd (tag_take Mint 2 (take2 mint_field) f2)"
  have rest: "rest_fields tx m = snd (tag_take Pointer 1 (take1 (pointer_field tx)) f3)"
    by (simp add: rest_fields_def f1_def f2_def f3_def Let_def split_beta fst_take_flags)
  have v1: "values_of f1 j = (if j = 2 then [] else pair_values (runestone_pairs r) j)" for j
    by (simp add: f1_def take_flags_def Let_def split_beta q field_value_def take1_def
        high_tags_pairs [OF low_tags(1)] split: option.split)
  have e1: "etching_spec (message_flags m) (values_of f1) = rs_etching r"
    unfolding etching [symmetric]
    by (rule etching_spec_cong) (auto simp: v1 q etching_tags_def)
  have v2: "values_of f2 j = (if j \<in> {20, 22} then values_of (msg_fields m) j else [])" for j
  proof (cases "j \<in> etching_tags")
    case True
    then have j: "j \<noteq> 2" "j \<notin> {20, 22}" using low_tags by auto
    have "values_of f2 j = []"
    proof (cases "rs_etching r")
      case None
      then show ?thesis using True j
        by (simp add: f2_def flags take_etching_def flag_take_bits Let_def v1 etching_tags_pairs)
    next
      case (Some e)
      show ?thesis
        unfolding f2_def
      proof (rule drained_etching [OF _ _ True])
        show "etching_spec (message_flags m) (values_of f1) = Some e" using e1 Some by simp
        show "values_of f1 k = pair_values (etching_pairs e) k" if "k \<in> etching_tags" for k
          using that Some low_tags(1) by (auto simp: v1 etching_tags_pairs)
      qed
    qed
    with j show ?thesis by simp
  next
    case False
    then show ?thesis
      by (auto simp: f2_def values_take_etching v1 q high_tags_pairs)
  qed
  have "field_value Mint 2 (take2 mint_field) (values_of f2) = rs_mint r"
    unfolding mint [symmetric] by (rule field_value_cong) (simp add: v2)
  then have v3: "values_of f3 j = (if j = 22 then values_of (msg_fields m) 22 else [])" for j
    by (cases "rs_mint r") (simp_all add: f3_def v2 q high_tags_pairs low_tags)
  have "field_value Pointer (Suc 0) (take1 (pointer_field tx)) (values_of f3) = rs_pointer r"
    unfolding pointer [symmetric] by (rule field_value_cong) (simp add: v3)
  then show ?thesis
    by (cases "rs_pointer r") (simp_all add: rest v3 q high_tags_pairs low_tags)
qed

lemma parsed_pairs:
  assumes ok: "runestone_ok tx r" and len: "length (tx_output tx) < 2 ^ 32"
    and q: "values_of (msg_fields m) = pair_values (runestone_pairs r)"
    and flaw: "msg_flaw m = None"
  shows "runestone_spec tx m = r\<lparr>rs_edicts := msg_edicts m\<rparr>" and "flaw_spec tx m = None"
proof -
  let ?q = "values_of (msg_fields m)"
  have flags: "message_flags m = (case rs_etching r of None \<Rightarrow> 0 | Some e \<Rightarrow> encipher_flags e)"
    by (simp add: message_flags_def field_value_def take1_def q high_tags_pairs [OF low_tags(1)]
        split: option.split)
  have etching: "etching_spec (message_flags m) ?q = rs_etching r"
  proof (cases "rs_etching r")
    case None
    then show ?thesis by (simp add: flags etching_spec_def)
  next
    case (Some e)
    then have "etching_ok e" using ok by (simp add: runestone_ok_def)
    with Some show ?thesis
      by (simp add: flags) (intro etching_spec_pairs, simp_all add: q etching_tags_pairs)
  qed
  have mint: "field_value Mint 2 (take2 mint_field) ?q = rs_mint r"
    using ok by (intro mint_round) (simp_all add: runestone_ok_def q high_tags_pairs [OF low_tags(2)])
  have pointer: "field_value Pointer (Suc 0) (take1 (pointer_field tx)) ?q = rs_pointer r"
    using ok len
    by (intro pointer_round) (simp_all add: runestone_ok_def q high_tags_pairs [OF low_tags(3)])
  show spec: "runestone_spec tx m = r\<lparr>rs_edicts := msg_edicts m\<rparr>"
    by (simp add: runestone_spec_def Let_def etching mint pointer)
  have total: "etching_supply e \<noteq> None" if "rs_etching r = Some e" for e
    using ok that by (simp add: runestone_ok_def etching_ok_def etching_supply_value)
  have "rest_flags m = 0"
    by (rule bit_eqI) (auto simp: rest_flags_def flags bit_unset_bit_iff encipher_flags_bits Let_def
        split: option.split)
  moreover have "values_of (rest_fields tx m) k = []" for k
    using q flags etching mint pointer by (rule rest_empty)
  ultimately show "flaw_spec tx m = None"
    using total by (simp add: flaw_spec_def flaw spec)
qed

lemma decipher_encipher_at:
  assumes law: "script_law instructions build"
    and len: "length (tx_output tx) < 2 ^ 32"
    and ok: "runestone_ok tx r"
    and script: "encipher build r = Some script"
    and out: "tx_output tx = pre @ out # post" "out_script out = script"
    and pre: "payload_of instructions pre = None"
  shows "decipher instructions tx =
    Some (Some (Runestone (r\<lparr>rs_edicts := sort_key ed_id (rs_edicts r)\<rparr>)))"
proof -
  obtain ns where ns: "body_integers r = Some ns" using body_integers_total by blast
  let ?ints = "flat (runestone_pairs r) @ ns"
  let ?flds = "fold (\<lambda>(t, v). push_field t v) (runestone_pairs r) []"
  let ?m = "\<lparr>msg_flaw = None, msg_edicts = sort_key ed_id (rs_edicts r), msg_fields = ?flds\<rparr>"
  let ?chunks = "chunks MAX_STACK_ELEMENT_SIZE (encode_all ?ints)"
  have s: "script = build (Op OP_RETURN # Op MAGIC_NUMBER # map PushBytes ?chunks)"
    using script by (simp add: encipher_def encipher_payload_integers ns)
  have "\<forall>p \<in> set ?chunks. length p \<le> MAX_STACK_ELEMENT_SIZE"
    using length_chunk by blast
  then have "instructions script =
      ItemOk (Op OP_RETURN) # ItemOk (Op MAGIC_NUMBER) # map (ItemOk \<circ> PushBytes) ?chunks"
    using law by (simp add: script_law_def s)
  moreover have "concat ?chunks = encode_all ?ints"
    by (rule concat_chunks) (simp add: MAX_STACK_ELEMENT_SIZE_def)
  ultimately have "payload_of instructions (out # post) = Some (Valid (encode_all ?ints))"
    by (simp add: out(2) collect_pushes_data)
  then have p: "payload_of instructions (tx_output tx) = Some (Valid (encode_all ?ints))"
    unfolding out(1) payload_of_skip [OF pre] .
  have f: "from_integers tx ?ints = Some ?m"
    using ok unfolding from_integers_def message_loop_fields [OF runestone_pairs_nonzero]
    by (intro message_loop_body [OF ns _ len]) (simp add: runestone_ok_def)
  have "values_of (msg_fields ?m) = pair_values (runestone_pairs r)"
    by (simp add: fun_eq_iff values_of_fold pair_values_def)
  note parsed_pairs [OF ok len this]
  then have "message_artifact tx ?m = Runestone (r\<lparr>rs_edicts := sort_key ed_id (rs_edicts r)\<rparr>)"
    by (simp add: message_artifact_eq fields_ok_fold)
  then show ?thesis
    by (simp only: decipher_def p integers_of_encode f option.case payload.case sum.case
        Option.bind.bind_lunit)
qed

lemma encipher_total: "encipher build r \<noteq> None"
  using body_integers_total [of r] by (auto simp: encipher_def encipher_payload_integers)

section \<open>Properties\<close>

text \<open>
  C1. Deciphering a transaction whose first runestone output carries an enciphered runestone
  gives that runestone back, its edicts sorted by rune id (stably, as the encoder sorts them).
  The runestone has to fit the transaction: pointer and edict outputs in range, valid rune
  ids, divisibility, spacers and symbol within their limits and a supply below \<open>2 ^ 128\<close>.
\<close>

theorem decipher_encipher:
  assumes "script_law instructions build"
    and "length (tx_output tx) < 2 ^ 32"
    and "runestone_ok tx r"
    and "tx_output tx = pre @ \<lparr>out_value = v, out_script = s\<rparr> # post"
    and "encipher build r = Some s"
    and "payload_of instructions pre = None"
  shows "decipher instructions tx =
    Some (Some (Runestone (r\<lparr>rs_edicts := sort_key ed_id (rs_edicts r)\<rparr>)))"
  by (rule decipher_encipher_at [OF assms(1-3,5,4) _ assms(6)]) simp

definition sample_runestone :: runestone where
  "sample_runestone =
     \<lparr>rs_edicts =
        [\<lparr>ed_id = RuneId 840001 5, ed_amount = 7, ed_output = 1\<rparr>,
         \<lparr>ed_id = RuneId 840000 3, ed_amount = 9, ed_output = 0\<rparr>],
      rs_etching = Some
        \<lparr>et_divisibility = Some 2, et_premine = Some 1000, et_rune = Some (Rune 42),
         et_spacers = Some 1, et_symbol = Some 65,
         et_terms = Some \<lparr>tm_amount = Some 10, tm_cap = Some 21, tm_height = (Some 1, None),
           tm_offset = (None, Some 9)\<rparr>,
         et_turbo = True\<rparr>,
      rs_mint = Some (RuneId 840000 3), rs_pointer = Some 0\<rparr>"

lemma sample_script_law: "script_law (List.map ItemOk) (\<lambda>pushes. pushes)"
  by (simp add: script_law_def)

definition sample_sorted :: runestone where
  "sample_sorted = sample_runestone
     \<lparr>rs_edicts :=
        [\<lparr>ed_id = RuneId 840000 3, ed_amount = 9, ed_output = 0\<rparr>,
         \<lparr>ed_id = RuneId 840001 5, ed_amount = 7, ed_output = 1\<rparr>]\<rparr>"

definition sample_tx :: "instruction list transaction" where
  "sample_tx =
     \<lparr>tx_id = [], tx_input = [],
      tx_output = [\<lparr>out_value = 546, out_script = []\<rparr>,
        \<lparr>out_value = 0, out_script = the (encipher (\<lambda>pushes. pushes) sample_runestone)\<rparr>]\<rparr>"

lemma sample_sorted_eq:
  "sample_runestone\<lparr>rs_edicts := sort_key ed_id (rs_edicts sample_runestone)\<rparr> = sample_sorted"
  by (simp add: sample_runestone_def sample_sorted_def rune_id_order)

lemma sample_ok: "length (tx_output tx) = 2 \<Longrightarrow> runestone_ok tx sample_runestone"
  by (simp add: runestone_ok_def edict_ok_def etching_ok_def sample_runestone_def
      rune_id_valid_def MAX_DIVISIBILITY_def MAX_SPACERS_def char_from_u32_def supply_nat_def)

lemma the_encipher: "encipher build r = Some (the (encipher build r))"
  using encipher_total [of build r] by simp

lemma sample_decipher:
  "decipher (List.map ItemOk) sample_tx = Some (Some (Runestone sample_sorted))"
proof -
  have ok: "runestone_ok sample_tx sample_runestone"
    by (rule sample_ok) (simp add: sample_tx_def)
  show ?thesis
    using decipher_encipher_at [OF sample_script_law _ ok the_encipher,
      of "[\<lparr>out_value = 546, out_script = []\<rparr>]" _ "[]"]
    by (simp add: sample_tx_def sample_sorted_eq)
qed

lemma decipher_encipher_witness:
  "decipher (List.map ItemOk) sample_tx = Some (Some (Runestone sample_sorted))"
proof -
  have "runestone_ok sample_tx sample_runestone"
    by (rule sample_ok) (simp add: sample_tx_def)
  from decipher_encipher [OF sample_script_law _ this _ the_encipher,
      of "[\<lparr>out_value = 546, out_script = []\<rparr>]" 0 "[]"]
  show ?thesis by (simp add: sample_tx_def sample_sorted_eq)
qed

text \<open>
  C12. What \<open>decipher\<close> returns can be enciphered and deciphered again without any change: its
  edicts come out sorted, so the round trip is exact on every runestone read from the chain.
\<close>

theorem encipher_deciphered:
  assumes "script_law instructions build"
    and "length (tx_output tx) < 2 ^ 32"
    and "decipher instructions tx = Some (Some (Runestone r))"
    and "length (tx_output tx') = length (tx_output tx)"
    and "tx_output tx' = \<lparr>out_value = v, out_script = s\<rparr> # post"
    and "encipher build r = Some s"
  shows "decipher instructions tx' = Some (Some (Runestone r))"
proof -
  note r = decipher_runestone_ok [OF assms(3,2)]
  have "runestone_ok tx' r"
    using r(1) assms(2,4) by (auto simp: runestone_ok_def edict_ok_def [abs_def])
  moreover have "sort_key ed_id (rs_edicts r) = rs_edicts r"
    using r(2) by (rule sort_key_id_if_sorted)
  ultimately show ?thesis
    using decipher_encipher_at [OF assms(1) _ _ assms(6), of tx' "[]"] assms(2,4,5) by simp
qed

lemma encipher_deciphered_witness:
  "decipher (List.map ItemOk)
     \<lparr>tx_id = [], tx_input = [],
      tx_output =
        [\<lparr>out_value = 0, out_script = the (encipher (\<lambda>pushes. pushes) sample_sorted)\<rparr>,
         \<lparr>out_value = 1, out_script = []\<rparr>]\<rparr> =
   Some (Some (Runestone sample_sorted))"
  by (rule encipher_deciphered [OF sample_script_law _ sample_decipher _ _ the_encipher])
    (simp_all add: sample_tx_def)

text \<open>The witnesses of the two properties of \<open>decipher\<close> alone.\<close>

lemma decipher_sound_witness:
  "runestone_ok sample_tx sample_sorted \<and> sorted (List.map ed_id (rs_edicts sample_sorted))"
  by (rule decipher_sound [OF sample_decipher]) (simp add: sample_tx_def)

text \<open>A push that ends inside a varint, a script error after a push, and no runestone at all.\<close>

definition flawed_tx :: "script_item list \<Rightarrow> script_item list transaction" where
  "flawed_tx items =
     \<lparr>tx_id = [], tx_input = [],
      tx_output = [\<lparr>out_value = 546, out_script = [ItemOk (Op 0x6A), ItemErr]\<rparr>,
        \<lparr>out_value = 0, out_script = ItemOk (Op 0x6A) # items\<rparr>]\<rparr>"

lemma decipher_total_witness:
  "decipher id (flawed_tx [ItemOk (Op 0x5D), ItemOk (PushBytes [0x80])]) =
     Some (Some (Cenotaph \<lparr>cn_etching = None, cn_flaw = Some FlawVarint, cn_mint = None\<rparr>)) \<and>
   decipher id (flawed_tx [ItemOk (Op 0x5D), ItemOk (PushBytes [7]), ItemErr]) =
     Some (Some (Cenotaph \<lparr>cn_etching = None, cn_flaw = Some InvalidScript, cn_mint = None\<rparr>)) \<and>
   decipher id (flawed_tx [ItemOk (PushBytes [0x80])]) = Some None"
proof (intro conjI)
  have n: "length (tx_output (flawed_tx items)) < 2 ^ 32" for items by (simp add: flawed_tx_def)
  note first = decipher_total [OF n, where instructions = id, THEN conjunct2, THEN conjunct2,
      THEN spec, where x = "[\<lparr>out_value = 546, out_script = [ItemOk (Op 0x6A), ItemErr]\<rparr>]", THEN spec, THEN spec,
      where x = "[]", THEN spec]
  have v: "integers_of [0x80] = Inl Unterminated" by code_simp
  show "decipher id (flawed_tx [ItemOk (Op 0x5D), ItemOk (PushBytes [0x80])]) =
     Some (Some (Cenotaph \<lparr>cn_etching = None, cn_flaw = Some FlawVarint, cn_mint = None\<rparr>))"
  proof -
    note x = first [of "[ItemOk (Op 0x5D), ItemOk (PushBytes [0x80])]"
        "\<lparr>out_value = 0, out_script = map ItemOk [Op 0x6A, Op 0x5D, PushBytes [0x80]]\<rparr>" "[ItemOk (PushBytes [0x80])]"]
    from x [THEN mp, THEN mp, THEN mp, THEN conjunct2, THEN spec, of "[[0x80]]"] v show ?thesis
      by (simp add: flawed_tx_def)
  qed
  show "decipher id (flawed_tx [ItemOk (Op 0x5D), ItemOk (PushBytes [7]), ItemErr]) =
     Some (Some (Cenotaph \<lparr>cn_etching = None, cn_flaw = Some InvalidScript, cn_mint = None\<rparr>))"
  proof -
    note x = first [of "[ItemOk (Op 0x5D), ItemOk (PushBytes [7]), ItemErr]"
        "\<lparr>out_value = 0, out_script = map ItemOk [Op 0x6A, Op 0x5D, PushBytes [7]] @ [ItemErr]\<rparr>"
        "[ItemOk (PushBytes [7]), ItemErr]"]
    from x have "\<forall>pushes x rest. [ItemOk (PushBytes [7]), ItemErr] = map (ItemOk \<circ> PushBytes) pushes @ x # rest \<longrightarrow>
        (\<forall>b. x \<noteq> ItemOk (PushBytes b)) \<longrightarrow>
        decipher id (flawed_tx [ItemOk (Op 0x5D), ItemOk (PushBytes [7]), ItemErr]) = Some (Some (Cenotaph
          \<lparr>cn_etching = None, cn_flaw = Some (if x = ItemErr then InvalidScript else Opcode), cn_mint = None\<rparr>))"
      by (simp add: flawed_tx_def)
    from this [THEN spec, of "[[7]]", THEN spec, of ItemErr, THEN spec, of "[]"] show ?thesis by simp
  qed
  show "decipher id (flawed_tx [ItemOk (PushBytes [0x80])]) = Some None"
    using decipher_total [OF n, of id "[ItemOk (PushBytes [0x80])]"] by (auto simp: flawed_tx_def)
qed

text \<open>C30. The encoder never panics: the sorted edicts have non-negative differences.\<close>

theorem encipher_never_panics: "\<exists>s. encipher build r = Some s"
  using encipher_total [of build r] by simp

end
