(* ===== verification/Chain_Samples.thy ===== *)
theory Chain_Samples
  imports Ledger_Reads Encipher
begin

text \<open>
  A block with one transaction that etches a rune with a premine, indexed on a database that
  holds one rune: the concrete run behind the witnesses of the properties of blocks. The
  caches of the environment are association lists that never evict.
\<close>

definition list_lru :: "('k, 'v, ('k \<times> 'v) list) lru_ops" where
  "list_lru =
     \<lparr>lru_new = (\<lambda>n. []), lru_get = (\<lambda>k l. (map_of l k, l)),
      lru_modify = (\<lambda>k f l. case map_of l k of None \<Rightarrow> None | Some v \<Rightarrow> Some (AList.update k (f v) l)),
      lru_put = AList.update\<rparr>"

lemma list_lru_ok: "lru_ok list_lru map_of"
  by (auto simp: lru_ok_def list_lru_def update_conv' split: option.split)

type_synonym sample_index_env =
  "(instruction list, (rune_id \<times> db_rune) list, (rune_id \<times> u128) list,
    (output_key \<times> rune_balances) list) index_env"

definition sample_env :: sample_index_env where
  "sample_env =
     \<lparr>ie_instructions = List.map ItemOk, ie_is_op_return = (\<lambda>s. take 1 s = [Op OP_RETURN]),
      ie_address_of = (\<lambda>s n. if s = [] then None else Some [length s]),
      ie_valid_time = (\<lambda>t. 5 \<le> t), ie_runes = list_lru, ie_mints = list_lru, ie_outputs = list_lru,
      ie_input_order = (\<lambda>m. m), ie_balance_order = (\<lambda>m. m), ie_block_order = (\<lambda>m. m),
      ie_flush_order = sample_order, ie_row_order = (\<lambda>m. m), ie_bind_limit = 65535\<rparr>"

definition first_rune :: db_rune where
  "first_rune =
     \<lparr>dr_id = [49], dr_number = 0, dr_name = [], dr_spaced_name = [], dr_block_hash = [],
      dr_block_height = 840000, dr_tx_index = 0, dr_tx_id = [], dr_divisibility = 0, dr_premine = 0,
      dr_symbol = [], dr_terms_amount = None, dr_terms_cap = None, dr_terms_height_start = None,
      dr_terms_height_end = None, dr_terms_offset_start = None, dr_terms_offset_end = None,
      dr_turbo = False, dr_cenotaph = False, dr_timestamp = 0\<rparr>"

definition sample_tables :: database where
  "sample_tables =
     \<lparr>db_runes = [first_rune], db_supply = [], db_ledger = [], db_balances = [], db_height = 840000\<rparr>"

definition sample_etching :: runestone where
  "sample_etching =
     \<lparr>rs_edicts = [],
      rs_etching = Some
        \<lparr>et_divisibility = None, et_premine = Some 1000, et_rune = Some (Rune 42), et_spacers = None,
         et_symbol = None, et_terms = None, et_turbo = False\<rparr>,
      rs_mint = None, rs_pointer = None\<rparr>"

definition sample_script :: "instruction list" where
  "sample_script = the (encipher (\<lambda>pushes. pushes) sample_etching)"

definition sample_block :: "instruction list block_data" where
  "sample_block =
     \<lparr>bd_hash = [48, 120, 97], bd_height = 840001, bd_timestamp = 5,
      bd_txs = [\<lparr>td_txid = [48, 120, 98], td_index = 1, td_inputs = [],
        td_outputs = [(546, [Op 1]), (0, sample_script)]\<rparr>]\<rparr>"

definition sample_parsed :: "instruction list transaction" where
  "sample_parsed =
     \<lparr>tx_id = [48, 120, 98], tx_input = [],
      tx_output = [\<lparr>out_value = 546, out_script = [Op 1]\<rparr>, \<lparr>out_value = 0, out_script = sample_script\<rparr>]\<rparr>"

lemma sample_parsed_decipher:
  "decipher (List.map ItemOk) sample_parsed = Some (Some (Runestone sample_etching))"
proof -
  have ok: "runestone_ok sample_parsed sample_etching"
    by (simp add: runestone_ok_def edict_ok_def etching_ok_def sample_etching_def
      rune_id_valid_def MAX_DIVISIBILITY_def MAX_SPACERS_def char_from_u32_def supply_nat_def)
  show ?thesis
    using decipher_encipher_at [OF sample_script_law _ ok the_encipher,
      of "[\<lparr>out_value = 546, out_script = [Op 1]\<rparr>]" _ "[]"]
    by (simp add: sample_parsed_def sample_script_def sample_etching_def OP_RETURN_def)
qed

lemma sample_script_return: "take 1 sample_script = [Op OP_RETURN]"
  using body_integers_total [of sample_etching]
  by (auto simp: sample_script_def encipher_def encipher_payload_integers)

lemma sample_bitcoin_tx:
  "bitcoin_tx_from_chainhook_tx sample_env sample_block (hd (bd_txs sample_block)) =
     Some (sample_parsed, [(0, [Op 1])], Some 0, 2)"
  using sample_script_return
  by (simp add: bitcoin_tx_from_chainhook_tx_def sample_block_def sample_parsed_def sample_env_def OP_RETURN_def)

definition sample_start :: "(instruction list, (rune_id \<times> db_rune) list, (rune_id \<times> u128) list,
    (output_key \<times> rune_balances) list) index_cache" where
  "sample_start = the (index_cache_new sample_env Bitcoin 10 sample_tables)"

lemma sample_start: "index_cache_new sample_env Bitcoin 10 sample_tables = Some sample_start"
  by (simp add: sample_start_def index_cache_new_def pg_get_max_rune_number_def sample_tables_def)

lemma sample_start_runes [simp]: "dc_runes (ic_db sample_start) = []"
  by (simp add: index_cache_new_db [OF sample_start] db_cache_new_def)

lemma sample_index_tx:
  "\<exists>ic. index_tx sample_env sample_block (hd (bd_txs sample_block)) (sample_start\<lparr>ic_next_number := 1\<rparr>, sample_tables) =
     Some (ic, sample_tables) \<and> (\<exists>r. dc_runes (ic_db ic) = [r] \<and> dr_number r = 1 \<and>
       dr_name r \<noteq> [] \<and> dr_spaced_name r \<noteq> [] \<and> 1 < length (dr_id r))"
  unfolding index_tx_def sample_bitcoin_tx
  by (simp add: begin_transaction_def input_rune_balances_from_tx_inputs_def sample_block_def
      sample_parsed_decipher sample_env_def)
    (simp add: index_artifact_def index_runestone_def sample_etching_def index_etching_def
      apply_etching_def rune_from_etching_def reserved_value tx_cache_new_def slice_from_def
      add_input_runes_def location_rune_id_def new_entry_def ledger_from_values_def Let_def
      record_etching_def add_ledger_entries_to_db_cache_def add_ledger_entry_def add_operation_def
      end_transaction_def allocate_remaining_balances_def hm_upsert_def move_balance_def
      receiver_of_def codec)

lemma sample_order_ok: "flush_order_ok (ie_flush_order sample_env)"
  using sample_flush_ok(1) by (simp add: sample_env_def)

lemma sample_rows_below: "rows_below (unat (bd_height sample_block)) sample_tables"
  by (simp add: rows_below_iff sample_tables_def sample_block_def first_rune_def)

lemma sample_reset: "reset_max_rune_number (sample_start, sample_tables) = Some (sample_start\<lparr>ic_next_number := 1\<rparr>, sample_tables)"
  by (simp add: reset_max_rune_number_def pg_get_max_rune_number_def sample_tables_def first_rune_def)

lemma sample_index_block:
  obtains ic db where "index_block sample_env True sample_block (sample_start, sample_tables) =
    Some ((ic, db), [[48, 120, 98]])"
proof -
  let ?s = "sample_start\<lparr>ic_next_number := 1\<rparr>" and ?h = "bd_height sample_block"
  obtain ic r where tx: "index_tx sample_env sample_block (hd (bd_txs sample_block)) (?s, sample_tables) =
      Some (ic, sample_tables)"
    and r: "dc_runes (ic_db ic) = [r]" "dr_number r = 1" "dr_name r \<noteq> []" "dr_spaced_name r \<noteq> []"
      "1 < length (dr_id r)"
    using sample_index_tx by blast
  have txs: "index_txs sample_env sample_block (bd_txs sample_block) (?s, sample_tables) = Some (ic, sample_tables)"
    using tx by (simp add: sample_block_def)
  have new: "ic_db sample_start = db_cache_new" by (rule index_cache_new_db [OF sample_start])
  have "block_inv ?h sample_tables (rows_of (?s, sample_tables))"
    using sample_rows_below
    by (auto simp: block_inv_def rows_of_def new db_cache_ok_new cache_books_new rows_below_iff
        sample_tables_def db_books_empty)
  with books.transactions [OF txs refl] sample_order_ok
  have "block_inv ?h sample_tables (ic_db ic, sample_tables)" by (simp add: rows_of_def)
  then have i: "db_cache_ok ?h (ic_db ic)" "heights_le (unat ?h) (pg_update_block_height ?h sample_tables)"
    by (auto simp: block_inv_def pg_update_block_height_def intro!: heights_le_below)
  have "dr_id r \<noteq> [49]" using r(5) by auto
  moreover have "chunks 500 [r] = [[r]]" by (simp add: chunks.simps [of 500 "[r]"])
  ultimately have "insert_rune_chunks (chunks 500 (dc_runes (ic_db ic))) (db_runes (pg_update_block_height ?h sample_tables)) =
      Some [first_rune, r\<lparr>dr_cenotaph := False\<rparr>]"
    using r(1-4) by (auto simp: pg_update_block_height_def sample_tables_def first_rune_def)
  then obtain db where f: "flush (ie_flush_order sample_env) (ic_db ic) (pg_update_block_height ?h sample_tables) =
      Some (db_cache_new, db)"
    by (rule flush_cases [OF sample_order_ok i])
  have "index_block sample_env True sample_block (sample_start, sample_tables) =
      Some (((end_block sample_env ic)\<lparr>ic_db := db_cache_new\<rparr>, db), [[48, 120, 98]])"
    by (simp add: index_block_def sample_reset txs flush_index_def f Let_def) (simp add: sample_block_def)
  then show thesis by (rule that)
qed

lemma sample_indexed: "indexed sample_env (sample_start, sample_tables)"
  by (rule start [OF _ _ _ sample_start]) (simp_all add: sample_tables_def)

lemma index_block_roll_back_witness:
  "\<exists>ic db. index_block sample_env True sample_block (sample_start, sample_tables) = Some ((ic, db), [[48, 120, 98]]) \<and>
     roll_back_block 840001 db = sample_tables\<lparr>db_height := 840001\<rparr>"
proof -
  obtain ic db where i: "index_block sample_env True sample_block (sample_start, sample_tables) =
      Some ((ic, db), [[48, 120, 98]])"
    by (rule sample_index_block)
  from index_block_roll_back [OF sample_order_ok sample_indexed sample_rows_below i] i show ?thesis
    by (simp add: sample_block_def other_runes_def delete_height_def sample_tables_def first_rune_def)
qed

lemma indexed_books_witness:
  "\<exists>ic db. index_block sample_env True sample_block (sample_start, sample_tables) = Some ((ic, db), [[48, 120, 98]]) \<and>
     db_books db"
proof -
  obtain ic db where i: "index_block sample_env True sample_block (sample_start, sample_tables) =
      Some ((ic, db), [[48, 120, 98]])"
    by (rule sample_index_block)
  from indexed_books [OF sample_order_ok block [OF sample_indexed sample_rows_below i]] i show ?thesis
    by blast
qed

lemma begin_transaction_total_witness:
  "\<exists>ic. index_txs sample_env sample_block (bd_txs sample_block) (sample_start\<lparr>ic_next_number := 1\<rparr>, sample_tables) =
     Some (ic, sample_tables) \<and>
   begin_transaction sample_env sample_location [\<lparr>ti_hash = [48, 120, 97], ti_vout = 0\<rparr>] [] None 0 (ic, sample_tables) \<noteq> None"
proof -
  obtain ic where "index_tx sample_env sample_block (hd (bd_txs sample_block))
      (sample_start\<lparr>ic_next_number := 1\<rparr>, sample_tables) = Some (ic, sample_tables)"
    using sample_index_tx by blast
  then have txs: "index_txs sample_env sample_block (bd_txs sample_block) (sample_start\<lparr>ic_next_number := 1\<rparr>, sample_tables) =
      Some (ic, sample_tables)"
    by (simp add: sample_block_def)
  have "\<forall>xs. set (ie_row_order sample_env xs) \<subseteq> set xs" by (simp add: sample_env_def)
  with txs begin_transaction_total [OF sample_indexed sample_reset txs] show ?thesis
    by (auto simp: sample_env_def)
qed

end
