(* ===== verification/Mint_Samples.thy ===== *)
theory Mint_Samples
  imports Mint_Cap Chain_Samples
begin

text \<open>
  A database with a rune of the terms and the id of the one the migration inserts, blocks with
  mints of that rune, and the witnesses of the properties of mints.
\<close>

definition seed_rune :: db_rune where
  "seed_rune = first_rune
     \<lparr>dr_id := rune_id_to_string (RuneId 1 0), dr_terms_amount := Some 1, dr_terms_cap := Some 340282366920938463463374607431768211455,
      dr_terms_height_start := Some 840000, dr_terms_height_end := Some 1050000\<rparr>"

lemma sample_lawful: "lawful sample_env map_of map_of"
  using sample_order_ok by (simp add: lawful_def sample_env_def list_lru_ok)

section \<open>A block of two mints\<close>

definition mint_runestone :: runestone where
  "mint_runestone = \<lparr>rs_edicts = [], rs_etching = None, rs_mint = Some (RuneId 1 0), rs_pointer = None\<rparr>"

definition mint_script :: "instruction list" where
  "mint_script = the (encipher (\<lambda>pushes. pushes) mint_runestone)"

definition mint_tx :: "nat \<Rightarrow> instruction list tx_data" where
  "mint_tx n =
     \<lparr>td_txid = [48, 120, 98], td_index = of_nat n, td_inputs = [],
      td_outputs = [(546, [Op 1]), (0, mint_script)]\<rparr>"

definition mint_block :: "instruction list tx_data list \<Rightarrow> instruction list block_data" where
  "mint_block txs = \<lparr>bd_hash = [48, 120, 97], bd_height = 840001, bd_timestamp = 5, bd_txs = txs\<rparr>"

definition mint_parsed :: "instruction list transaction" where
  "mint_parsed =
     \<lparr>tx_id = [48, 120, 98], tx_input = [],
      tx_output = [\<lparr>out_value = 546, out_script = [Op 1]\<rparr>, \<lparr>out_value = 0, out_script = mint_script\<rparr>]\<rparr>"

lemma mint_script: "encipher (\<lambda>pushes. pushes) mint_runestone = Some mint_script"
  using body_integers_total [of mint_runestone]
  by (auto simp: mint_script_def encipher_def encipher_payload_integers)

lemma mint_parsed_decipher:
  "decipher (List.map ItemOk) mint_parsed = Some (Some (Runestone mint_runestone))"
proof -
  have ok: "runestone_ok mint_parsed mint_runestone"
    by (simp add: runestone_ok_def mint_runestone_def rune_id_valid_def)
  show ?thesis
    using decipher_encipher_at [OF sample_script_law _ ok mint_script,
      of "[\<lparr>out_value = 546, out_script = [Op 1]\<rparr>]" _ "[]"]
    by (simp add: mint_parsed_def mint_runestone_def OP_RETURN_def)
qed

lemma mint_script_return: "take 1 mint_script = [Op OP_RETURN]"
  using body_integers_total [of mint_runestone]
  by (auto simp: mint_script_def encipher_def encipher_payload_integers)

lemma mint_bitcoin_tx:
  "bitcoin_tx_from_chainhook_tx sample_env (mint_block txs) (mint_tx n) =
     Some (mint_parsed, [(0, [Op 1])], Some 0, 2)"
  using mint_script_return
  by (simp add: bitcoin_tx_from_chainhook_tx_def mint_block_def mint_tx_def mint_parsed_def sample_env_def OP_RETURN_def)

definition cap_rune :: "u128 \<Rightarrow> db_rune" where
  "cap_rune c = seed_rune\<lparr>dr_terms_cap := Some c\<rparr>"

definition cap_tables :: "u128 \<Rightarrow> database" where
  "cap_tables c = sample_tables\<lparr>db_runes := [(cap_rune c)]\<rparr>"

definition cap_start :: "u128 \<Rightarrow> (instruction list, (rune_id \<times> db_rune) list, (rune_id \<times> u128) list,
    (output_key \<times> rune_balances) list) index_cache" where
  "cap_start c = the (index_cache_new sample_env Bitcoin 10 (cap_tables c))"

lemma cap_rune_read:
  assumes "ic_runes ic = []" "ic_db ic = db_cache_new"
  shows "get_cached_rune_by_rune_id sample_env (RuneId 1 0) (ic, (cap_tables c)) =
    Some (Some (cap_rune c), ic\<lparr>ic_runes := [(RuneId 1 0, (cap_rune c))]\<rparr>, (cap_tables c))"
  using assms
  by (simp add: get_cached_rune_by_rune_id_def is_zero_id_def sample_env_def list_lru_def flush_index_def
      flush_nothing pg_get_rune_by_id_def cap_tables_def cap_rune_def seed_rune_def)

lemma cap_mints_read:
  assumes "ic_mints ic = []" "ic_db ic = db_cache_new"
  shows "get_cached_rune_total_mints sample_env (RuneId 1 0) (ic, (cap_tables c)) = Some (None, ic, (cap_tables c))"
  using assms
  by (simp add: get_cached_rune_total_mints_def is_zero_id_def sample_env_def list_lru_def flush_index_def
      flush_nothing pg_get_rune_total_mints_def cap_tables_def sample_tables_def latest_def)

lemma cap_start: "index_cache_new sample_env Bitcoin 10 (cap_tables c) = Some (cap_start c)"
  by (simp add: cap_start_def index_cache_new_def pg_get_max_rune_number_def cap_tables_def)

lemma cap_start_fields: "ic_runes (cap_start c) = []" "ic_mints (cap_start c) = []" "ic_db (cap_start c) = db_cache_new"
   "ic_block_outputs (cap_start c) = []" "ic_network (cap_start c) = Bitcoin"
  by (simp_all add: cap_start_def index_cache_new_def pg_get_max_rune_number_def cap_tables_def sample_env_def list_lru_def)

definition mint_location :: "nat \<Rightarrow> tx_location" where
  "mint_location n =
     \<lparr>tl_network = Bitcoin, tl_block_hash = [48, 120, 97], tl_block_height = 840001, tl_timestamp = 5,
      tl_tx_index = of_nat n, tl_tx_id = [48, 120, 98]\<rparr>"

abbreviation mint_tx_cache :: "nat \<Rightarrow> input_runes \<Rightarrow> instruction list tx_cache" where
  "mint_tx_cache n inputs \<equiv> tx_cache_new (mint_location n) inputs [(0, [Op 1])] (Some 0) 2"

lemma mint_begins:
  assumes "ic_network ic = Bitcoin"
  shows "index_tx sample_env (mint_block txs) (mint_tx n) (ic, db) =
    Option.bind (index_mint sample_env (RuneId 1 0)
      (ic\<lparr>ic_tx := mint_tx_cache n []\<rparr>, db)) (end_transaction sample_env)"
proof -
  have "begin_transaction sample_env (mint_location n) [] [(0, [Op 1])] (Some 0) 2 (ic, db) =
      Some (ic\<lparr>ic_tx := mint_tx_cache n []\<rparr>, db)"
    by (simp add: begin_transaction_def input_rune_balances_from_tx_inputs_def)
  moreover have "ie_instructions sample_env = List.map ItemOk" by (simp add: sample_env_def)
  ultimately show ?thesis
    unfolding index_tx_def mint_bitcoin_tx
    by (simp add: assms mint_parsed_decipher mint_tx_def mint_block_def mint_location_def [symmetric]
      index_artifact_def mint_runestone_def index_runestone_def)
qed

definition cap_known :: "u128 \<Rightarrow> (instruction list, (rune_id \<times> db_rune) list, (rune_id \<times> u128) list,
    (output_key \<times> rune_balances) list) index_cache \<Rightarrow> bool" where
  "cap_known c ic \<longleftrightarrow> ic_runes ic = [(RuneId 1 0, (cap_rune c))] \<and> ic_mints ic = [(RuneId 1 0, 1)] \<and>
     ic_network ic = Bitcoin \<and> dc_runes (ic_db ic) = [] \<and>
     tally mints_of (dc_ledger (ic_db ic)) (dr_id (cap_rune c)) = 1"

lemma cap_mintable: "is_rune_mintable (cap_rune c) n (mint_location k) \<longleftrightarrow> n < c"
  by (auto simp: is_rune_mintable_def cap_rune_def seed_rune_def first_rune_def mint_location_def)

definition mint_inputs :: input_runes where
  "mint_inputs = [(RuneId 1 0, [\<lparr>ib_address = None, ib_amount = 1\<rparr>])]"

lemma mint_entry: "\<exists>e. new_entry (mint_location n) (Some 1) (RuneId 1 0) None None None OpMint 0 = Some (e, 1) \<and>
   le_operation e = OpMint \<and> le_rune_id e = dr_id (cap_rune c) \<and> le_amount e = Some 1 \<and> le_block_height e = 840001"
  by (simp add: new_entry_def ledger_from_values_def slice_from_def mint_location_def cap_rune_def seed_rune_def)

lemma first_mint_recorded:
  assumes "0 < c"
  shows "\<exists>ic e. index_mint sample_env (RuneId 1 0)
      (cap_start c\<lparr>ic_next_number := 1, ic_tx := mint_tx_cache 1 []\<rparr>, (cap_tables c)) =
     Some (ic, (cap_tables c)) \<and> ic_runes ic = [(RuneId 1 0, (cap_rune c))] \<and> ic_mints ic = [(RuneId 1 0, 1)] \<and>
     ic_network ic = Bitcoin \<and> dc_runes (ic_db ic) = [] \<and> dc_ledger (ic_db ic) = [e] \<and>
     le_operation e = OpMint \<and> le_rune_id e = dr_id (cap_rune c) \<and> ic_block_outputs ic = [] \<and>
     ic_tx ic = (mint_tx_cache 1 mint_inputs)\<lparr>tc_next_event := 1\<rparr>"
proof -
  have a: "dr_terms_amount (cap_rune c) = Some 1" by (simp add: cap_rune_def seed_rune_def)
  obtain e where e: "new_entry (mint_location 1) (Some 1) (RuneId 1 0) None None None OpMint 0 = Some (e, 1)"
   "le_operation e = OpMint" "le_rune_id e = dr_id (cap_rune c)" "le_amount e = Some 1" "le_block_height e = 840001"
    using mint_entry by blast
  have m: "ie_mints sample_env = list_lru" by (simp add: sample_env_def)
  show ?thesis
    using e assms
    by (simp add: index_mint_def mint_with_def cap_rune_read cap_mints_read cap_start_fields apply_mint_def
      tx_cache_new_def cap_mintable unwrap_or_def a add_input_runes_def hm_upsert_def
     add_ledger_entries_to_db_cache_def add_ledger_entry_def count_mint_def db_cache_new_def m list_lru_def mint_inputs_def)
qed

lemma env_fields: "ie_address_of sample_env = (\<lambda>s n. if s = [] then None else Some [length s])"
  "ie_input_order sample_env = (\<lambda>m. m)" "ie_runes sample_env = list_lru" "ie_mints sample_env = list_lru"
  by (simp_all add: sample_env_def)

lemma mint_allocated:
  "\<exists>f. allocate_remaining_balances (ie_address_of sample_env) (ie_input_order sample_env)
      ((mint_tx_cache 1 mint_inputs)\<lparr>tc_next_event := 1\<rparr>) =
    Some ([f], (mint_tx_cache 1 [])\<lparr>tc_next_event := 2\<rparr>) \<and>
    le_operation f = OpReceive \<and> le_amount f = Some 1 \<and> le_output f = Some 0 \<and> le_rune_id f = rune_id_to_string (RuneId 1 0)"
  by (simp add: allocate_remaining_balances_def tx_cache_new_def mint_inputs_def move_balance_def receiver_of_def
      env_fields mint_location_def new_entry_def ledger_from_values_def slice_from_def Let_def)

lemma received_kept:
  assumes "le_operation f = OpReceive" "le_amount f = Some a" "le_output f = Some n" "le_rune_id f = rune_id_to_string i"
  shows "\<exists>dc' outs'. add_each_entry [f] (dc, outs) = Some (dc', outs') \<and> dc_runes dc' = dc_runes dc \<and>
    dc_ledger dc' = dc_ledger dc"
  using assms by (cases "le_address f") (simp_all add: add_ledger_entry_def add_operation_def Let_def codec)

lemma first_mint:
  assumes "0 < c"
  shows "\<exists>ic. index_tx sample_env (mint_block txs) (mint_tx 1) (cap_start c\<lparr>ic_next_number := 1\<rparr>, (cap_tables c)) =
     Some (ic, (cap_tables c)) \<and> cap_known c ic"
proof -
  obtain ic e where m: "index_mint sample_env (RuneId 1 0)
      (cap_start c\<lparr>ic_next_number := 1, ic_tx := mint_tx_cache 1 []\<rparr>, (cap_tables c)) =
     Some (ic, (cap_tables c))" "ic_runes ic = [(RuneId 1 0, (cap_rune c))]" "ic_mints ic = [(RuneId 1 0, 1)]"
     "ic_network ic = Bitcoin" "dc_runes (ic_db ic) = []" "dc_ledger (ic_db ic) = [e]"
     "le_operation e = OpMint" "le_rune_id e = dr_id (cap_rune c)" "ic_block_outputs ic = []"
     "ic_tx ic = (mint_tx_cache 1 mint_inputs)\<lparr>tc_next_event := 1\<rparr>"
    using first_mint_recorded [OF assms] by (elim exE conjE) (rule that)
  obtain f where f: "allocate_remaining_balances (ie_address_of sample_env) (ie_input_order sample_env) (ic_tx ic) =
    Some ([f], (mint_tx_cache 1 [])\<lparr>tc_next_event := 2\<rparr>)"
    "le_operation f = OpReceive" "le_amount f = Some 1" "le_output f = Some 0" "le_rune_id f = rune_id_to_string (RuneId 1 0)"
    using mint_allocated [folded m(10)] by (elim exE conjE) (rule that)
  obtain dc outs where d: "add_each_entry [f] ((ic_db ic)\<lparr>dc_ledger := [e, f]\<rparr>, []) = Some (dc, outs)"
     "dc_runes dc = []" "dc_ledger dc = [e, f]"
    using received_kept [OF f(2-5), of "(ic_db ic)\<lparr>dc_ledger := [e, f]\<rparr>" "[]"] m(5) by auto
  have "add_ledger_entries_to_db_cache [f] (ic\<lparr>ic_tx := tx\<rparr>) =
      Some (ic\<lparr>ic_tx := tx, ic_db := dc, ic_block_outputs := outs\<rparr>)" for tx
    using d(1) m(6,9) by (simp add: add_ledger_entries_to_db_cache_def del: add_each_entry.simps)
  then have "end_transaction sample_env (ic, (cap_tables c)) = Some (ic\<lparr>ic_tx :=
       (mint_tx_cache 1 [])\<lparr>tc_next_event := 2\<rparr>, ic_db := dc, ic_block_outputs := outs\<rparr>, (cap_tables c))"
    by (simp add: end_transaction_def f(1))
  moreover have "cap_known c (ic\<lparr>ic_tx := tx, ic_db := dc, ic_block_outputs := outs\<rparr>)" for tx
    using m d f(2) by (simp add: cap_known_def mints_of_def)
  ultimately have "\<exists>ic'. end_transaction sample_env (ic, (cap_tables c)) = Some (ic', (cap_tables c)) \<and> cap_known c ic'" by blast
  then show ?thesis
    using m(1) by (simp add: mint_begins cap_start_fields)
qed

lemma second_mint:
  assumes "cap_known 1 ic"
  shows "\<exists>ic'. index_tx sample_env (mint_block txs) (mint_tx 2) (ic, (cap_tables 1)) = Some (ic', (cap_tables 1)) \<and> cap_known 1 ic'"
proof -
  have c: "ic_runes ic = [(RuneId 1 0, (cap_rune 1))]" "ic_mints ic = [(RuneId 1 0, 1)]" "ic_network ic = Bitcoin"
    using assms by (simp_all add: cap_known_def)
  have "index_mint sample_env (RuneId 1 0)
      (ic\<lparr>ic_tx := mint_tx_cache 2 []\<rparr>, (cap_tables 1)) =
    Some (ic\<lparr>ic_tx := mint_tx_cache 2 []\<rparr>, (cap_tables 1))"
    by (simp add: index_mint_def mint_with_def get_cached_rune_by_rune_id_def get_cached_rune_total_mints_def
        is_zero_id_def env_fields list_lru_def c apply_mint_def tx_cache_new_def cap_mintable unwrap_or_def)
  moreover have "end_transaction sample_env (ic\<lparr>ic_tx := mint_tx_cache 2 []\<rparr>, (cap_tables 1)) =
    Some (ic\<lparr>ic_tx := mint_tx_cache 2 []\<rparr>, (cap_tables 1))"
    by (simp add: end_transaction_def allocate_remaining_balances_def tx_cache_new_def env_fields
       add_ledger_entries_to_db_cache_def)
  ultimately show ?thesis
    using assms by (simp add: mint_begins c(3)) (simp add: cap_known_def)
qed

lemma mint_rows_below: "rows_below (unat (bd_height (mint_block txs))) (cap_tables c)"
  by (simp add: rows_below_iff cap_tables_def sample_tables_def mint_block_def)

lemma mint_block_flushed:
  assumes "index_txs sample_env (mint_block txs) txs ((cap_start c)\<lparr>ic_next_number := 1\<rparr>, cap_tables c) =
      Some (ic, cap_tables c)" "cap_known c ic"
  obtains db where "index_block sample_env True (mint_block txs) (cap_start c, cap_tables c) =
      Some (((end_block sample_env ic)\<lparr>ic_db := db_cache_new\<rparr>, db), map td_txid txs)"
    "db_runes db = [cap_rune c]" "tally mints_of (db_ledger db) (dr_id (cap_rune c)) = 1"
proof -
  let ?s = "(cap_start c)\<lparr>ic_next_number := 1\<rparr>" and ?h = "bd_height (mint_block txs)"
  have "block_inv ?h (cap_tables c) (rows_of (?s, cap_tables c))"
    using mint_rows_below
    by (auto simp: block_inv_def rows_of_def cap_start_fields db_cache_ok_new cache_books_new rows_below_iff
        cap_tables_def sample_tables_def db_books_empty)
  with books.transactions [OF assms(1) refl] sample_order_ok
  have "block_inv ?h (cap_tables c) (ic_db ic, cap_tables c)" by (simp add: rows_of_def)
  then have i: "db_cache_ok ?h (ic_db ic)" "heights_le (unat ?h) (pg_update_block_height ?h (cap_tables c))"
    by (auto simp: block_inv_def pg_update_block_height_def intro!: heights_le_below)
  have "insert_rune_chunks (chunks 500 (dc_runes (ic_db ic))) (db_runes (pg_update_block_height ?h (cap_tables c))) =
      Some [cap_rune c]"
    using assms(2) by (simp add: cap_known_def pg_update_block_height_def cap_tables_def)
  then obtain db where f: "flush (ie_flush_order sample_env) (ic_db ic) (pg_update_block_height ?h (cap_tables c)) =
      Some (db_cache_new, db)"
      "db_ledger db = db_ledger (pg_update_block_height ?h (cap_tables c)) @ dc_ledger (ic_db ic)"
      "db_runes db = [cap_rune c]"
    by (rule flush_cases [OF sample_order_ok i])
  have reset: "reset_max_rune_number (cap_start c, cap_tables c) = Some (?s, cap_tables c)"
    by (simp add: reset_max_rune_number_def pg_get_max_rune_number_def cap_tables_def cap_rune_def seed_rune_def
        first_rune_def)
  have "bd_txs (mint_block txs) = txs" by (simp add: mint_block_def)
  then have "index_block sample_env True (mint_block txs) (cap_start c, cap_tables c) =
      Some (((end_block sample_env ic)\<lparr>ic_db := db_cache_new\<rparr>, db), map td_txid txs)"
    by (simp add: index_block_def reset assms(1) flush_index_def f(1) Let_def)
  moreover have "tally mints_of (db_ledger db) (dr_id (cap_rune c)) = 1"
    using f(2) assms(2) by (simp add: cap_known_def pg_update_block_height_def cap_tables_def sample_tables_def)
  ultimately show thesis using f(3) that by blast
qed

lemma two_mints:
  obtains ic db where "index_block sample_env True (mint_block [mint_tx 1, mint_tx 2]) (cap_start 1, cap_tables 1) =
    Some ((ic, db), [[48, 120, 98], [48, 120, 98]])" "db_runes db = [cap_rune 1]"
    "tally mints_of (db_ledger db) (dr_id (cap_rune 1)) = 1"
proof -
  let ?txs = "[mint_tx 1, mint_tx 2]" and ?s = "(cap_start 1)\<lparr>ic_next_number := 1\<rparr>"
  obtain ic1 where 1: "index_tx sample_env (mint_block ?txs) (mint_tx 1) (?s, cap_tables 1) = Some (ic1, cap_tables 1)"
      "cap_known 1 ic1"
    using first_mint [of 1 ?txs] by auto
  obtain ic2 where 2: "index_tx sample_env (mint_block ?txs) (mint_tx 2) (ic1, cap_tables 1) = Some (ic2, cap_tables 1)"
      "cap_known 1 ic2"
    using second_mint [OF 1(2)] by blast
  have txs: "index_txs sample_env (mint_block ?txs) ?txs (?s, cap_tables 1) = Some (ic2, cap_tables 1)"
    by (simp add: 1(1) 2(1) del: One_nat_def)
  obtain db where "index_block sample_env True (mint_block ?txs) (cap_start 1, cap_tables 1) =
      Some (((end_block sample_env ic2)\<lparr>ic_db := db_cache_new\<rparr>, db), map td_txid ?txs)"
    "db_runes db = [cap_rune 1]" "tally mints_of (db_ledger db) (dr_id (cap_rune 1)) = 1"
    by (rule mint_block_flushed [OF txs 2(2)])
  then show thesis by (intro that) (simp_all add: mint_tx_def)
qed

lemma cap_served: "served sample_env 840000 840000 (cap_start c, (cap_tables c))"
proof (rule serve)
  show "seeded 840000 (cap_tables c)" by (simp add: seeded_def cap_tables_def cap_rune_def seed_rune_def)
  show "index_cache_new sample_env Bitcoin 10 (cap_tables c) = Some (cap_start c)" by (rule cap_start)
qed (simp_all add: cap_tables_def sample_tables_def)

text \<open>Two mints of a rune with a cap of one: the first is recorded, the second refused.\<close>

lemma mint_cap_holds_witness:
  "\<exists>ic db. index_block sample_env True (mint_block [mint_tx 1, mint_tx 2]) (cap_start 1, cap_tables 1) =
     Some ((ic, db), [[48, 120, 98], [48, 120, 98]]) \<and>
     tally mints_of (db_ledger db) (dr_id (cap_rune 1)) = 1 \<and> supply_value su_total_mints db (dr_id (cap_rune 1)) \<le> 1"
proof -
  obtain ic db where i: "index_block sample_env True (mint_block [mint_tx 1, mint_tx 2]) (cap_start 1, cap_tables 1) =
      Some ((ic, db), [[48, 120, 98], [48, 120, 98]])" "db_runes db = [cap_rune 1]"
    "tally mints_of (db_ledger db) (dr_id (cap_rune 1)) = 1"
    by (rule two_mints)
  have "served sample_env 840000 (Suc (unat (bd_height (mint_block [mint_tx 1, mint_tx 2])))) (ic, db)"
    by (rule serve_block [OF cap_served _ _ i(1)]) (simp_all add: mint_block_def mint_tx_def)
  from mint_cap_holds [OF sample_lawful this, of "cap_rune 1" "RuneId 1 0" 1] i show ?thesis
    by (simp add: cap_rune_def seed_rune_def is_zero_id_def)
qed

section \<open>A mint of a rune that was rolled back\<close>

text \<open>
  The rune has a cap of two. A block with one mint is indexed, and that block and the one of the
  etching are rolled back; the next block mints again, with the caches of the first.
\<close>

lemma one_mint:
  obtains ic db where "index_block sample_env True (mint_block [mint_tx 1]) (cap_start 2, cap_tables 2) =
    Some ((ic, db), [[48, 120, 98]])" "db_runes db = [cap_rune 2]"
    "ic_runes ic = [(RuneId 1 0, cap_rune 2)]" "ic_mints ic = [(RuneId 1 0, 1)]" "ic_db ic = db_cache_new"
proof -
  let ?s = "(cap_start 2)\<lparr>ic_next_number := 1\<rparr>"
  obtain ic1 where 1: "index_tx sample_env (mint_block [mint_tx 1]) (mint_tx 1) (?s, cap_tables 2) = Some (ic1, cap_tables 2)"
      "cap_known 2 ic1"
    using first_mint [of 2 "[mint_tx 1]"] by auto
  have txs: "index_txs sample_env (mint_block [mint_tx 1]) [mint_tx 1] (?s, cap_tables 2) = Some (ic1, cap_tables 2)"
    by (simp add: 1(1) del: One_nat_def)
  obtain db where db: "index_block sample_env True (mint_block [mint_tx 1]) (cap_start 2, cap_tables 2) =
      Some (((end_block sample_env ic1)\<lparr>ic_db := db_cache_new\<rparr>, db), map td_txid [mint_tx 1])"
    "db_runes db = [cap_rune 2]" "tally mints_of (db_ledger db) (dr_id (cap_rune 2)) = 1"
    by (rule mint_block_flushed [OF txs 1(2)])
  have ids: "map td_txid [mint_tx 1] = [[48, 120, 98]]" by (simp add: mint_tx_def)
  have "ic_runes (end_block sample_env ic1) = ic_runes ic1" "ic_mints (end_block sample_env ic1) = ic_mints ic1"
    by (simp_all add: end_block_def split: prod.split)
  then show thesis using 1(2) by (intro that [OF db(1) [unfolded ids] db(2)]) (simp_all add: cap_known_def)
qed

lemma stale_rune_mints_witness:
  "\<exists>ic db ic' e. index_block sample_env True (mint_block [mint_tx 1]) (cap_start 2, cap_tables 2) =
       Some ((ic, db), [[48, 120, 98]]) \<and>
     (let db = roll_back_block 840000 (roll_back_block 840001 db) in
       pg_get_rune_by_id (RuneId 1 0) db = None \<and>
       index_mint sample_env (RuneId 1 0) (ic\<lparr>ic_tx := mint_tx_cache 1 []\<rparr>, db) = Some (ic', db) \<and>
       dc_ledger (ic_db ic') = [e] \<and> le_operation e = OpMint)"
proof -
  obtain ic db where i: "index_block sample_env True (mint_block [mint_tx 1]) (cap_start 2, cap_tables 2) =
    Some ((ic, db), [[48, 120, 98]])" "db_runes db = [cap_rune 2]"
    "ic_runes ic = [(RuneId 1 0, cap_rune 2)]" "ic_mints ic = [(RuneId 1 0, 1)]" "ic_db ic = db_cache_new"
    by (rule one_mint)
  let ?ic = "ic\<lparr>ic_tx := mint_tx_cache 1 []\<rparr>" and ?db = "roll_back_block 840001 db"
  have runes: "db_runes ?db = [cap_rune 2]"
    by (simp add: roll_back_block_def pg_roll_back_block_def delete_height_def i(2) cap_rune_def seed_rune_def first_rune_def)
  have place: "place_of (?ic, ?db) = mint_location 1" by (simp add: place_of_def tx_cache_new_def)
  have "pg_get_rune_by_id (RuneId 1 0) (roll_back_block 840000 ?db) = None \<and>
    (\<exists>ic' e. index_mint sample_env (RuneId 1 0) (?ic, roll_back_block 840000 ?db) = Some (ic', roll_back_block 840000 ?db) \<and>
      dc_ledger (ic_db ic') = dc_ledger (ic_db ?ic) @ [e] \<and> le_operation e = OpMint \<and>
      le_rune_id e = rune_id_to_string (RuneId 1 0)) \<and>
    (\<exists>fresh'. index_mint sample_env (RuneId 1 0) (cap_start 2, roll_back_block 840000 ?db) =
      Some (fresh', roll_back_block 840000 ?db) \<and> ic_db fresh' = db_cache_new)"
  proof (rule stale_rune_mints [OF sample_lawful, where r = "cap_rune 2" and n = 1])
    show "pg_get_rune_by_id (RuneId 1 0) ?db = Some (cap_rune 2)"
      by (simp add: pg_get_rune_by_id_def runes) (simp add: cap_rune_def seed_rune_def)
    show "is_rune_mintable (cap_rune 2) 1 (place_of (?ic, ?db))" by (simp add: place cap_mintable del: One_nat_def)
    show "location_ok (place_of (?ic, ?db))" unfolding place by (simp add: mint_location_def location_ok_def)
  qed (simp_all add: runes i cap_start_fields is_zero_id_def cap_rune_def seed_rune_def first_rune_def)
  with i show ?thesis by (auto simp: Let_def db_cache_new_def)
qed

end
