(* ===== verification/Sat_Numbers.thy ===== *)
theory Sat_Numbers
  imports Rune_Id Rune_Name
begin

text \<open>
  Satoshis and where they are mined (\<^verbatim>\<open>crates/ordinals/src/sat.rs\<close>, \<^verbatim>\<open>epoch.rs\<close>, \<^verbatim>\<open>height.rs\<close>,
  \<^verbatim>\<open>degree.rs\<close>, \<^verbatim>\<open>decimal_sat.rs\<close>, \<^verbatim>\<open>rarity.rs\<close>). Main facts: the table of epochs agrees with the
  subsidies, every sat below the supply is mined at exactly one height and offset and the two
  functions that go there and back are inverse to each other, and the quick test for common
  sats agrees with the rarity. Integer operations wrap; a division by zero and a failed
  conversion are \<open>None\<close>.

  \<open>Amount::ONE_BTC\<close> is the constant of the \<^verbatim>\<open>bitcoin\<close> crate.
\<close>

section \<open>Types and constants\<close>

datatype sat = Sat (sat_n: u64)
datatype epoch = Epoch (epoch_n: u32)
datatype height = Height (height_n: u32)

text \<open>\<open>+\<close> and \<open>+=\<close>.\<close>

definition sat_add :: "sat \<Rightarrow> u64 \<Rightarrow> sat" where
  [simp]: "sat_add s n = Sat (sat_n s + n)"

definition CYCLE_EPOCHS :: u32 where
  "CYCLE_EPOCHS = 6"

definition COIN_VALUE :: u64 where
  "COIN_VALUE = 100000000"

definition ONE_BTC :: u64 where
  "ONE_BTC = 100000000"

definition SUPPLY :: u64 where
  "SUPPLY = 2099999997690000"

definition LAST :: sat where
  "LAST = Sat (SUPPLY - 1)"

definition STARTING_SATS :: "u64 list" where
  "STARTING_SATS =
     [0, 1050000000000000, 1575000000000000, 1837500000000000, 1968750000000000,
      2034375000000000, 2067187500000000, 2083593750000000, 2091796875000000, 2095898437500000,
      2097949218750000, 2098974609270000, 2099487304530000, 2099743652160000, 2099871825870000,
      2099935912620000, 2099967955890000, 2099983977420000, 2099991988080000, 2099995993410000,
      2099997995970000, 2099998997250000, 2099999497890000, 2099999748210000, 2099999873370000,
      2099999935950000, 2099999967240000, 2099999982780000, 2099999990550000, 2099999994330000,
      2099999996220000, 2099999997060000, 2099999997480000, SUPPLY]"

definition FIRST_POST_SUBSIDY :: epoch where
  "FIRST_POST_SUBSIDY = Epoch 33"

section \<open>Epochs\<close>

definition epoch_subsidy :: "epoch \<Rightarrow> u64" where
  "epoch_subsidy e =
     (if epoch_n e < epoch_n FIRST_POST_SUBSIDY then drop_bit (unat (epoch_n e)) (50 * ONE_BTC) else 0)"

definition epoch_starting_sat :: "epoch \<Rightarrow> sat" where
  "epoch_starting_sat e =
     Sat (case vec_get STARTING_SATS (unat (epoch_n e)) of Some s \<Rightarrow> s | None \<Rightarrow> last STARTING_SATS)"

definition epoch_starting_height :: "epoch \<Rightarrow> height" where
  "epoch_starting_height e = Height (epoch_n e * SUBSIDY_HALVING_INTERVAL)"

text \<open>The chain of comparisons: the first entry of the table from \<open>i\<close> on that is above the sat.\<close>

fun epoch_chain :: "u64 \<Rightarrow> u32 \<Rightarrow> u64 list \<Rightarrow> u32" where
  "epoch_chain s i [] = i"
| "epoch_chain s i (b # bs) = (if s < b then i else epoch_chain s (i + 1) bs)"

definition epoch_from_sat :: "sat \<Rightarrow> epoch" where
  "epoch_from_sat s = Epoch (epoch_chain (sat_n s) 0 (tl STARTING_SATS))"

definition epoch_from_height :: "height \<Rightarrow> epoch" where
  "epoch_from_height h = Epoch (height_n h div SUBSIDY_HALVING_INTERVAL)"

section \<open>Heights\<close>

definition height_subsidy :: "height \<Rightarrow> u64" where
  "height_subsidy h = epoch_subsidy (epoch_from_height h)"

definition height_starting_sat :: "height \<Rightarrow> sat" where
  "height_starting_sat h =
     (let e = epoch_from_height h
      in sat_add (epoch_starting_sat e)
        (ucast (height_n h - height_n (epoch_starting_height e)) * epoch_subsidy e))"

definition height_period_offset :: "height \<Rightarrow> u32" where
  "height_period_offset h = height_n h mod DIFFCHANGE_INTERVAL"

definition height_add :: "height \<Rightarrow> u32 \<Rightarrow> height" where
  "height_add h n = Height (height_n h + n)"

definition height_sub :: "height \<Rightarrow> u32 \<Rightarrow> height" where
  "height_sub h n = Height (height_n h - n)"

section \<open>Sats\<close>

definition sat_epoch :: "sat \<Rightarrow> epoch" where
  "sat_epoch s = epoch_from_sat s"

definition epoch_position :: "sat \<Rightarrow> u64" where
  "epoch_position s = sat_n s - sat_n (epoch_starting_sat (sat_epoch s))"

text \<open>\<open>/\<close> and \<open>%\<close>: a panic when the divisor is zero.\<close>

definition div_u64 :: "u64 \<Rightarrow> u64 \<Rightarrow> u64 option" where
  "div_u64 a b = (if b = 0 then None else Some (a div b))"

definition rem_u64 :: "u64 \<Rightarrow> u64 \<Rightarrow> u64 option" where
  "rem_u64 a b = (if b = 0 then None else Some (a mod b))"

definition sat_height :: "sat \<Rightarrow> height option" where
  "sat_height s =
     do {
       q \<leftarrow> div_u64 (epoch_position s) (epoch_subsidy (sat_epoch s));
       n \<leftarrow> try_from q;
       Some (height_add (epoch_starting_height (sat_epoch s)) n)
     }"

definition sat_third :: "sat \<Rightarrow> u64 option" where
  "sat_third s = rem_u64 (epoch_position s) (epoch_subsidy (sat_epoch s))"

definition sat_cycle :: "sat \<Rightarrow> u32" where
  "sat_cycle s = epoch_n (epoch_from_sat s) div CYCLE_EPOCHS"

definition sat_period :: "sat \<Rightarrow> u32 option" where
  "sat_period s = do { h \<leftarrow> sat_height s; Some (height_n h div DIFFCHANGE_INTERVAL) }"

definition sat_nineball :: "sat \<Rightarrow> bool" where
  "sat_nineball s \<longleftrightarrow> sat_n s \<ge> 50 * COIN_VALUE * 9 \<and> sat_n s < 50 * COIN_VALUE * 10"

definition sat_coin :: "sat \<Rightarrow> bool" where
  "sat_coin s \<longleftrightarrow> sat_n s mod COIN_VALUE = 0"

definition sat_common :: "sat \<Rightarrow> bool option" where
  "sat_common s =
     (let e = sat_epoch s
      in do { r \<leftarrow> rem_u64 (sat_n s - sat_n (epoch_starting_sat e)) (epoch_subsidy e); Some (r \<noteq> 0) })"

section \<open>Degrees, decimals and rarity\<close>

record degree =
  deg_hour :: u32
  deg_minute :: u32
  deg_second :: u32
  deg_third :: u64

definition degree_from_sat :: "sat \<Rightarrow> degree option" where
  "degree_from_sat s =
     do {
       h \<leftarrow> sat_height s;
       t \<leftarrow> sat_third s;
       let n = height_n h;
       Some \<lparr>deg_hour = n div (CYCLE_EPOCHS * SUBSIDY_HALVING_INTERVAL),
         deg_minute = n mod SUBSIDY_HALVING_INTERVAL, deg_second = n mod DIFFCHANGE_INTERVAL,
         deg_third = t\<rparr>
     }"

record decimal_sat =
  ds_height :: height
  ds_offset :: u64

definition decimal_from_sat :: "sat \<Rightarrow> decimal_sat option" where
  "decimal_from_sat s =
     do { h \<leftarrow> sat_height s; t \<leftarrow> sat_third s; Some \<lparr>ds_height = h, ds_offset = t\<rparr> }"

datatype rarity = Common | Uncommon | Rare | Epic | Legendary | Mythic

definition rarity_from_sat :: "sat \<Rightarrow> rarity option" where
  "rarity_from_sat s =
     do {
       d \<leftarrow> degree_from_sat s;
       Some
         (if deg_hour d = 0 \<and> deg_minute d = 0 \<and> deg_second d = 0 \<and> deg_third d = 0 then Mythic
          else if deg_minute d = 0 \<and> deg_second d = 0 \<and> deg_third d = 0 then Legendary
          else if deg_minute d = 0 \<and> deg_third d = 0 then Epic
          else if deg_second d = 0 \<and> deg_third d = 0 then Rare
          else if deg_third d = 0 then Uncommon
          else Common)
     }"

fun rarity_u8 :: "rarity \<Rightarrow> u8" where
  "rarity_u8 Common = 0"
| "rarity_u8 Uncommon = 1"
| "rarity_u8 Rare = 2"
| "rarity_u8 Epic = 3"
| "rarity_u8 Legendary = 4"
| "rarity_u8 Mythic = 5"

definition rarity_try_from :: "u8 \<Rightarrow> u8 + rarity" where
  "rarity_try_from n =
     (if n = 0 then Inr Common else if n = 1 then Inr Uncommon else if n = 2 then Inr Rare
      else if n = 3 then Inr Epic else if n = 4 then Inr Legendary else if n = 5 then Inr Mythic
      else Inl n)"

fun rarity_str :: "rarity \<Rightarrow> ustr" where
  "rarity_str Common = lit ''common''"
| "rarity_str Uncommon = lit ''uncommon''"
| "rarity_str Rare = lit ''rare''"
| "rarity_str Epic = lit ''epic''"
| "rarity_str Legendary = lit ''legendary''"
| "rarity_str Mythic = lit ''mythic''"

definition rarity_from_str :: "ustr \<Rightarrow> ustr + rarity" where
  "rarity_from_str s =
     (if s = lit ''common'' then Inr Common
      else if s = lit ''uncommon'' then Inr Uncommon
      else if s = lit ''rare'' then Inr Rare
      else if s = lit ''epic'' then Inr Epic
      else if s = lit ''legendary'' then Inr Legendary
      else if s = lit ''mythic'' then Inr Mythic
      else Inl (lit ''invalid rarity `'' @ s @ lit ''`''))"

section \<open>The table of epochs\<close>

text \<open>Subsidy and first sat of epoch \<open>k\<close> as numbers.\<close>

definition subsidy :: "nat \<Rightarrow> nat" where
  "subsidy k = (if k < 33 then 5000000000 div 2 ^ k else 0)"

definition start :: "nat \<Rightarrow> nat" where
  "start k = unat (STARTING_SATS ! min k 33)"

lemma length_STARTING_SATS [simp]: "length STARTING_SATS = 34"
  by (simp add: STARTING_SATS_def)

lemma start_step:
  assumes "k < 33"
  shows "start (Suc k) = start k + 210000 * subsidy k"
proof -
  have "list_all (\<lambda>k. start (Suc k) = start k + 210000 * subsidy k) [0..<33]"
    by (simp add: upt_rec start_def subsidy_def STARTING_SATS_def SUPPLY_def)
  with assms show ?thesis by (simp add: list_all_iff)
qed

lemma start_0 [simp]: "start 0 = 0"
  by (simp add: start_def STARTING_SATS_def)

lemma start_last: "start 33 = 2099999997690000"
  by (simp add: start_def STARTING_SATS_def SUPPLY_def)

lemma subsidy_pos: "k < 33 \<Longrightarrow> 0 < subsidy k"
proof -
  assume k: "k < 33"
  then have "(2 :: nat) ^ k \<le> 2 ^ 32" by (intro power_increasing) simp_all
  then have "2 ^ k \<le> (5000000000 :: nat)" by simp
  then have "0 < 5000000000 div (2 :: nat) ^ k" by (simp add: div_greater_zero_iff)
  then show ?thesis using k by (simp add: subsidy_def)
qed

lemma subsidy_le: "subsidy k \<le> 5000000000"
  by (simp add: subsidy_def)

lemma start_mono: "j \<le> k \<Longrightarrow> k \<le> 33 \<Longrightarrow> start j \<le> start k"
proof (induction k)
  case (Suc k)
  then show ?case using start_step [of k] by (cases "j = Suc k") simp_all
qed simp

lemma start_bound: "k \<le> 33 \<Longrightarrow> start k \<le> 2099999997690000"
  using start_mono [of k 33] by (simp add: start_last)

lemma epoch_subsidy_nat: "unat (epoch_subsidy (Epoch e)) = subsidy (unat e)"
proof (cases "unat e < 33")
  case True
  then have "e < 33" by (simp add: word_less_nat_alt)
  then have "epoch_subsidy (Epoch e) = drop_bit (unat e) (50 * ONE_BTC)"
    by (simp only: epoch_subsidy_def epoch.sel FIRST_POST_SUBSIDY_def if_True)
  moreover have "unat (50 * ONE_BTC) = 5000000000" by (simp add: ONE_BTC_def)
  ultimately have "unat (epoch_subsidy (Epoch e)) = 5000000000 div 2 ^ unat e"
    by (simp only: unat_drop_bit_eq) (simp only: drop_bit_eq_div)
  with True show ?thesis by (simp only: subsidy_def if_True)
next
  case False
  then have "\<not> e < 33" by (simp add: word_less_nat_alt)
  with False show ?thesis by (simp add: epoch_subsidy_def FIRST_POST_SUBSIDY_def subsidy_def)
qed

lemma epoch_starting_sat_nat: "unat (sat_n (epoch_starting_sat (Epoch e))) = start (unat e)"
  by (simp add: epoch_starting_sat_def vec_get_def start_def last_conv_nth min_def
      flip: length_0_conv)

section \<open>From sats to epochs\<close>

lemma epoch_chain_count:
  "epoch_chain s i bs = i + of_nat (length (takeWhile (\<lambda>b. b \<le> s) bs))"
  by (induction bs arbitrary: i) (auto simp: not_less)

lemma start_tl: "k < 33 \<Longrightarrow> unat (tl STARTING_SATS ! k) = start (Suc k)"
  by (simp add: nth_tl start_def)

lemma epoch_of_sat:
  assumes "k < 33" "start k \<le> unat s" "unat s < start (Suc k)"
  shows "epoch_from_sat (Sat s) = Epoch (of_nat k)"
proof -
  have len: "length (tl STARTING_SATS) = 33" by simp
  have "takeWhile (\<lambda>b. b \<le> s) (tl STARTING_SATS) = take k (tl STARTING_SATS)"
  proof (rule takeWhile_eq_take_P_nth)
    show "tl STARTING_SATS ! i \<le> s" if "i < k" "i < length (tl STARTING_SATS)" for i
    proof -
      have "start (Suc i) \<le> start k" using that assms(1) by (intro start_mono) simp_all
      then show ?thesis using that assms(2) len by (simp add: word_le_nat_alt start_tl)
    qed
    show "\<not> tl STARTING_SATS ! k \<le> s"
      using assms by (simp add: word_le_nat_alt start_tl)
  qed
  then show ?thesis using assms(1) by (simp add: epoch_from_sat_def epoch_chain_count)
qed

lemma epoch_exists:
  assumes "n < 2099999997690000"
  obtains k where "k < 33" "start k \<le> n" "n < start (Suc k)"
proof -
  have "\<exists>k. k \<le> 33 \<and> n < start k" using assms by (intro exI [of _ 33]) (simp add: start_last)
  define k where "k = (LEAST k. n < start k)"
  have k: "n < start k" unfolding k_def by (rule LeastI [of _ 33]) (use assms start_last in simp)
  have "k \<le> 33" unfolding k_def by (rule Least_le) (use assms start_last in simp)
  have "k \<noteq> 0" using k by (cases "k = 0") auto
  then obtain j where j: "k = Suc j" by (cases k) auto
  have "\<not> n < start j" unfolding k_def by (rule not_less_Least) (use j k_def in simp)
  with j k \<open>k \<le> 33\<close> show thesis by (intro that [of j]) simp_all
qed

lemma epoch_position_nat:
  assumes "k < 33" "start k \<le> unat s" "unat s < start (Suc k)"
  shows "unat (epoch_position (Sat s)) = unat s - start k"
    "unat (epoch_subsidy (sat_epoch (Sat s))) = subsidy k"
    "sat_epoch (Sat s) = Epoch (of_nat k)"
proof -
  have k: "unat (of_nat k :: u32) = k" using assms(1) by (simp add: unat_of_nat_small)
  show e: "sat_epoch (Sat s) = Epoch (of_nat k)"
    unfolding sat_epoch_def by (rule epoch_of_sat [OF assms])
  show "unat (epoch_subsidy (sat_epoch (Sat s))) = subsidy k" by (simp add: e epoch_subsidy_nat k)
  have "sat_n (epoch_starting_sat (Epoch (of_nat k))) \<le> s"
    using assms(2) by (simp add: word_le_nat_alt epoch_starting_sat_nat k)
  then show "unat (epoch_position (Sat s)) = unat s - start k"
    by (simp add: epoch_position_def e unat_diff_le epoch_starting_sat_nat k)
qed

section \<open>Height and offset\<close>

text \<open>The sat mined at offset \<open>t\<close> of block \<open>q\<close> of epoch \<open>k\<close>.\<close>

definition mined :: "nat \<Rightarrow> nat \<Rightarrow> nat \<Rightarrow> nat" where
  "mined k q t = start k + q * subsidy k + t"

lemma mined_bounds:
  assumes "k < 33" "q < 210000" "t < subsidy k"
  shows "start k \<le> mined k q t" "mined k q t < start (Suc k)" "mined k q t < 2099999997690000"
proof -
  have "q * subsidy k + t < (q + 1) * subsidy k" using assms(3) by simp
  also have "\<dots> \<le> 210000 * subsidy k" using assms(2) by (intro mult_right_mono) simp_all
  finally show "mined k q t < start (Suc k)" using start_step [OF assms(1)] by (simp add: mined_def)
  then show "mined k q t < 2099999997690000" using start_bound [of "Suc k"] assms(1) by simp
qed (simp add: mined_def)

lemma mined_exists:
  assumes "n < 2099999997690000"
  obtains k q t where "k < 33" "q < 210000" "t < subsidy k" "n = mined k q t"
proof -
  obtain k where k: "k < 33" "start k \<le> n" "n < start (Suc k)" by (rule epoch_exists [OF assms])
  have p: "0 < subsidy k" by (rule subsidy_pos [OF k(1)])
  let ?x = "n - start k"
  have "?x < 210000 * subsidy k" using k start_step [OF k(1)] by simp
  then have "?x div subsidy k < 210000" using p by (simp add: less_mult_imp_div_less)
  moreover have "?x mod subsidy k < subsidy k" using p by simp
  moreover have "n = mined k (?x div subsidy k) (?x mod subsidy k)"
    using k(2) by (simp add: mined_def add.assoc)
  ultimately show thesis using that k(1) by blast
qed

lemma unat_block: "k < 33 \<Longrightarrow> q < 210000 \<Longrightarrow> unat (of_nat (k * 210000 + q) :: u32) = k * 210000 + q"
  by (intro unat_of_nat_small) (simp add: trans_less_add2)

lemma sat_common_third: "sat_common s = map_option (\<lambda>r. r \<noteq> 0) (sat_third s)"
  by (simp add: sat_common_def sat_third_def epoch_position_def rem_u64_def Let_def)

lemma sat_height_mined:
  assumes "k < 33" "q < 210000" "t < subsidy k" "unat s = mined k q t"
  shows "sat_height (Sat s) = Some (Height (of_nat (k * 210000 + q)))"
    "sat_third (Sat s) = Some (of_nat t)"
    "sat_common (Sat s) = Some (t \<noteq> 0)"
proof -
  note m = mined_bounds [OF assms(1-3)]
  note p = epoch_position_nat [OF assms(1) m(1,2) [folded assms(4)]]
  have pos: "0 < subsidy k" by (rule subsidy_pos [OF assms(1)])
  have x: "unat (epoch_position (Sat s)) = q * subsidy k + t" by (simp add: p(1) assms(4) mined_def)
  have nz: "epoch_subsidy (sat_epoch (Sat s)) \<noteq> 0" using p(2) pos by (auto simp del: epoch.sel)
  have d: "unat (epoch_position (Sat s) div epoch_subsidy (sat_epoch (Sat s))) = q"
    using assms(3) by (simp add: unat_div x p(2))
  have r: "unat (epoch_position (Sat s) mod epoch_subsidy (sat_epoch (Sat s))) = t"
    using assms(3) by (simp add: unat_mod x p(2))
  have t: "epoch_position (Sat s) mod epoch_subsidy (sat_epoch (Sat s)) = of_nat t"
    by (rule word_of_unat [OF r])
  have "(try_from (epoch_position (Sat s) div epoch_subsidy (sat_epoch (Sat s))) :: u32 option) = Some (of_nat q)"
    using assms(2) by (simp add: try_from_def d) (metis d of_nat_unat ucast_id)
  then show "sat_height (Sat s) = Some (Height (of_nat (k * 210000 + q)))"
    using nz by (simp add: sat_height_def div_u64_def height_add_def epoch_starting_height_def p(3)
        SUBSIDY_HALVING_INTERVAL_def)
  show "sat_third (Sat s) = Some (of_nat t)" using nz t by (simp add: sat_third_def rem_u64_def)
  have "unat (of_nat t :: u64) = t"
    using assms(3) subsidy_le [of k] by (intro unat_of_nat_small) simp
  then have "(of_nat t :: u64) = 0 \<longleftrightarrow> t = 0" by (auto simp del: of_nat_eq_0_iff) 
  then show "sat_common (Sat s) = Some (t \<noteq> 0)"
    by (simp add: sat_common_third \<open>sat_third (Sat s) = Some (of_nat t)\<close>)
qed

lemma starting_sat_mined:
  assumes "k < 33" "q < 210000"
  shows "unat (height_subsidy (Height (of_nat (k * 210000 + q)))) = subsidy k"
    "t < subsidy k \<Longrightarrow> unat (sat_n (height_starting_sat (Height (of_nat (k * 210000 + q)))) + of_nat t) = mined k q t"
proof -
  define n :: u32 where "n = of_nat (k * 210000 + q)"
  have n: "unat n = k * 210000 + q" unfolding n_def by (rule unat_block [OF assms])
  have k: "unat (of_nat k :: u32) = k" using assms(1) by (simp add: unat_of_nat_small)
  have "unat (n div SUBSIDY_HALVING_INTERVAL) = k"
    using assms(2) by (simp add: unat_div n SUBSIDY_HALVING_INTERVAL_def)
  then have e: "epoch_from_height (Height n) = Epoch (of_nat k)"
    unfolding epoch_from_height_def by (metis height.sel word_of_unat)
  show "unat (height_subsidy (Height (of_nat (k * 210000 + q)))) = subsidy k"
    unfolding n_def [symmetric] by (simp add: height_subsidy_def e epoch_subsidy_nat k)
  show "unat (sat_n (height_starting_sat (Height (of_nat (k * 210000 + q)))) + of_nat t) = mined k q t"
    if t: "t < subsidy k"
  proof -
    have q: "n - of_nat k * SUBSIDY_HALVING_INTERVAL = of_nat q"
      by (simp add: n_def SUBSIDY_HALVING_INTERVAL_def)
    have "ucast (of_nat q :: u32) = (of_nat q :: u64)"
      using assms(2) by (intro word_of_unat) (simp add: unat_ucast_up unat_of_nat_small)
    moreover have "epoch_subsidy (Epoch (of_nat k)) = of_nat (subsidy k)"
      by (rule word_of_unat) (simp add: epoch_subsidy_nat k)
    moreover have "sat_n (epoch_starting_sat (Epoch (of_nat k))) = of_nat (start k)"
      by (rule word_of_unat) (simp add: epoch_starting_sat_nat k)
    ultimately have "sat_n (height_starting_sat (Height n)) + of_nat t = of_nat (mined k q t)"
      by (simp add: height_starting_sat_def e epoch_starting_height_def mined_def Let_def q)
    moreover have "mined k q t < 2 ^ 64" using mined_bounds(3) [OF assms t] by simp
    ultimately show ?thesis unfolding n_def [symmetric] by (simp add: unat_of_nat_small)
  qed
qed

lemma sat_height_beyond:
  assumes "2099999997690000 \<le> unat s"
  shows "sat_height (Sat s) = None" "sat_third (Sat s) = None"
proof -
  have "tl STARTING_SATS ! i \<le> s" if "i < 33" for i
    using start_bound [of "Suc i"] that assms by (simp add: word_le_nat_alt start_tl)
  then have tw: "takeWhile (\<lambda>b. b \<le> s) (tl STARTING_SATS) = tl STARTING_SATS"
    by (auto simp: takeWhile_eq_all_conv in_set_conv_nth simp flip: length_greater_0_conv)
  have "length (takeWhile (\<lambda>b. b \<le> s) (tl STARTING_SATS)) = 33" by (subst tw) simp
  then have "epoch_from_sat (Sat s) = Epoch 33"
    by (simp add: epoch_from_sat_def epoch_chain_count)
  then have "epoch_subsidy (sat_epoch (Sat s)) = 0"
    by (simp add: sat_epoch_def epoch_subsidy_def FIRST_POST_SUBSIDY_def)
  then show "sat_height (Sat s) = None" "sat_third (Sat s) = None"
    by (simp_all add: sat_height_def sat_third_def div_u64_def rem_u64_def)
qed

lemma word_nat: "unat x = n \<Longrightarrow> n < 2 ^ LENGTH('a) \<Longrightarrow> unat (of_nat n :: 'a::len word) = unat x"
  by (simp add: unat_of_nat_small)

lemma subsidy_word: "unat (of_nat t :: u64) = t" if "t < subsidy k"
  using that subsidy_le [of k] by (intro unat_of_nat_small) simp

text \<open>A sat of the supply, with its epoch, block and offset.\<close>

lemma sat_cases:
  assumes "unat (sat_n s) < 2099999997690000"
  obtains k q t where "k < 33" "q < 210000" "t < subsidy k" "unat (sat_n s) = mined k q t"
    "sat_height s = Some (Height (of_nat (k * 210000 + q)))" "sat_third s = Some (of_nat t)"
    "of_nat t < height_subsidy (Height (of_nat (k * 210000 + q)))"
    "sat_n (height_starting_sat (Height (of_nat (k * 210000 + q)))) + of_nat t = sat_n s"
proof -
  obtain k q t where m: "k < 33" "q < 210000" "t < subsidy k" "unat (sat_n s) = mined k q t"
    by (rule mined_exists [OF assms])
  have "of_nat t < height_subsidy (Height (of_nat (k * 210000 + q)))"
    unfolding word_less_nat_alt starting_sat_mined(1) [OF m(1,2)] subsidy_word [OF m(3)] by (rule m(3))
  moreover have "sat_n (height_starting_sat (Height (of_nat (k * 210000 + q)))) + of_nat t = sat_n s"
    unfolding word_unat_eq_iff starting_sat_mined(2) [OF m(1-3)] m(4) ..
  ultimately show thesis
    using that [OF m] sat_height_mined(1,2) [OF m] by simp
qed

lemma height_cases:
  assumes "unat (height_n h) < 6930000"
  obtains k q where "k < 33" "q < 210000" "h = Height (of_nat (k * 210000 + q))"
proof -
  let ?n = "unat (height_n h)"
  have "?n div 210000 < 33" using assms by (simp add: less_mult_imp_div_less)
  moreover have "?n mod 210000 < 210000" by simp
  moreover have "h = Height (of_nat (?n div 210000 * 210000 + ?n mod 210000))"
    by (cases h) (simp add: ucast_id del: of_nat_add of_nat_mult)
  ultimately show thesis by (rule that)
qed

section \<open>Properties\<close>

text \<open>
  C37. Every sat of the supply has a block and an offset in it: the height exists, lies in the
  33 epochs with a subsidy, the offset is below the subsidy of the block, and the first sat of
  the block plus the offset is the sat. Beyond the supply both computations panic.
\<close>

theorem sat_position:
  "if sat_n s < SUPPLY
   then \<exists>h t. sat_height s = Some h \<and> sat_third s = Some t \<and> height_n h < 6930000 \<and>
     t < height_subsidy h \<and> sat_n (height_starting_sat h) + t = sat_n s
   else sat_height s = None \<and> sat_third s = None"
proof (cases "sat_n s < SUPPLY")
  case True
  then have "unat (sat_n s) < 2099999997690000" by (simp add: SUPPLY_def word_less_nat_alt)
  then obtain k q t where c: "k < 33" "q < 210000" "t < subsidy k"
    "sat_height s = Some (Height (of_nat (k * 210000 + q)))" "sat_third s = Some (of_nat t)"
    "of_nat t < height_subsidy (Height (of_nat (k * 210000 + q)))"
    "sat_n (height_starting_sat (Height (of_nat (k * 210000 + q)))) + of_nat t = sat_n s"
    by (rule sat_cases)
  have "(of_nat (k * 210000 + q) :: u32) < 6930000"
    using c(1,2) unfolding word_less_nat_alt unat_block [OF c(1,2)] by simp
  with True c show ?thesis by (auto simp del: of_nat_add of_nat_mult)
next
  case False
  then show ?thesis
    using sat_height_beyond [of "sat_n s"] by (simp add: SUPPLY_def word_less_nat_alt)
qed

text \<open>
  The way back: the sat at an offset below the subsidy of a block of the first 33 epochs is
  mined in that block, at that offset. So heights with offsets and sats of the supply
  correspond one to one.
\<close>

lemma block_position:
  assumes "height_n h < 6930000" "t < height_subsidy h"
  shows "sat_height (Sat (sat_n (height_starting_sat h) + t)) = Some h \<and>
    sat_third (Sat (sat_n (height_starting_sat h) + t)) = Some t"
proof -
  from assms(1) have "unat (height_n h) < 6930000" by (simp add: word_less_nat_alt)
  then obtain k q where h: "k < 33" "q < 210000" "h = Height (of_nat (k * 210000 + q))"
    by (rule height_cases)
  have t: "unat t < subsidy k"
    using assms(2) unfolding word_less_nat_alt h(3) starting_sat_mined(1) [OF h(1,2)] .
  have "unat (sat_n (height_starting_sat h) + t) = mined k q (unat t)"
    using starting_sat_mined(2) [OF h(1,2) t] by (simp add: h(3) ucast_id del: of_nat_add of_nat_mult)
  from sat_height_mined(1,2) [OF h(1,2) t this] show ?thesis by (simp add: h(3) ucast_id)
qed

lemma block_position_witness:
  "sat_height (Sat (sat_n (height_starting_sat (Height 210001)) + 7)) = Some (Height 210001)"
proof -
  have "height_subsidy (Height 210001) = 2500000000"
    by (simp add: height_subsidy_def epoch_from_height_def epoch_subsidy_def FIRST_POST_SUBSIDY_def
        SUBSIDY_HALVING_INTERVAL_def ONE_BTC_def)
  with block_position [of "Height 210001" 7] show ?thesis by simp
qed

text \<open>
  The quick test for common sats agrees with the rarity: it panics where the rarity does,
  and elsewhere it holds exactly for the sats that are not the first of a block.
\<close>

lemma common_iff_rarity:
  "sat_common s = map_option (\<lambda>r. r = Common) (rarity_from_sat s)"
proof (cases "unat (sat_n s) < 2099999997690000")
  case True
  then obtain k q t where "k < 33" "q < 210000" "t < subsidy k"
    "sat_height s = Some (Height (of_nat (k * 210000 + q)))" "sat_third s = Some (of_nat t)"
    by (rule sat_cases)
  then show ?thesis
    by (simp add: sat_common_third rarity_from_sat_def degree_from_sat_def Let_def)
next
  case False
  then show ?thesis
    using sat_height_beyond [of "sat_n s"]
    by (simp add: sat_common_third rarity_from_sat_def degree_from_sat_def)
qed

end
