(* ===== verification/Sat_Text.thy ===== *)
theory Sat_Text
  imports Sat_Numbers
begin

text \<open>
  The notations of a sat (\<^verbatim>\<open>crates/ordinals/src/sat.rs\<close>): integer, name, degree, decimal. Main
  facts: every sat of the supply is read back from each of its notations, and whatever parses
  is a sat of the supply. The percentile notation computes with floating point numbers and is
  the parameter \<open>percentile\<close>.
\<close>

section \<open>Errors\<close>

datatype parse_float_error = FloatEmpty | FloatInvalid

datatype sat_error_kind =
    IntegerRange | NameRange | NameCharacter | Percentile | BlockOffset | MissingPeriod
  | TrailingCharacters | MissingDegree | MissingMinute | MissingSecond | PeriodOffset
  | EpochOffset | EpochPeriodMismatch | ParseInt parse_int_error | ParseFloat parse_float_error

record sat_error =
  se_input :: ustr
  se_kind :: sat_error_kind

definition sat_error :: "sat_error_kind \<Rightarrow> ustr \<Rightarrow> sat_error" where
  "sat_error k s = \<lparr>se_input = s, se_kind = k\<rparr>"

fun sat_error_kind_fmt :: "sat_error_kind \<Rightarrow> ustr" where
  "sat_error_kind_fmt IntegerRange = lit ''invalid integer range''"
| "sat_error_kind_fmt NameRange = lit ''invalid name range''"
| "sat_error_kind_fmt NameCharacter = lit ''invalid character in name''"
| "sat_error_kind_fmt Percentile = lit ''invalid percentile''"
| "sat_error_kind_fmt BlockOffset = lit ''invalid block offset''"
| "sat_error_kind_fmt MissingPeriod = lit ''missing period''"
| "sat_error_kind_fmt TrailingCharacters = lit ''trailing character''"
| "sat_error_kind_fmt MissingDegree = lit ''missing degree symbol''"
| "sat_error_kind_fmt MissingMinute = lit ''missing minute symbol''"
| "sat_error_kind_fmt MissingSecond = lit ''missing second symbol''"
| "sat_error_kind_fmt PeriodOffset = lit ''invalid period offset''"
| "sat_error_kind_fmt EpochOffset = lit ''invalid epoch offset''"
| "sat_error_kind_fmt EpochPeriodMismatch =
     lit ''relationship between epoch offset and period offset must be multiple of 336''"
| "sat_error_kind_fmt (ParseInt e) = lit ''invalid integer: '' @ parse_int_error_fmt e"
| "sat_error_kind_fmt (ParseFloat e) = lit ''invalid float: '' @
     (case e of FloatEmpty \<Rightarrow> lit ''cannot parse float from empty string''
      | FloatInvalid \<Rightarrow> lit ''invalid float literal'')"

definition sat_error_fmt :: "sat_error \<Rightarrow> ustr" where
  "sat_error_fmt e =
     lit ''failed to parse sat `'' @ se_input e @ lit ''`: '' @ sat_error_kind_fmt (se_kind e)"

section \<open>Printing\<close>

function sat_name_loop :: "u64 \<Rightarrow> ustr \<Rightarrow> ustr" where
  "sat_name_loop x name =
     (if x > 0
      then sat_name_loop ((x - 1) div 26)
             (name @ [lit ''abcdefghijklmnopqrstuvwxyz'' ! unat ((x - 1) mod 26)])
      else name)"
  by pat_completeness auto
termination
proof (relation "measure (\<lambda>(x, s). unat x)", goal_cases)
  case 1
  show ?case by simp
next
  case (2 x s)
  then have "unat (x - 1) = unat x - 1" and "0 < unat x"
    by (simp_all add: unat_minus_one unat_gt_0 word_gt_0)
  then show ?case by (simp add: unat_div)
qed

declare sat_name_loop.simps [simp del]

definition sat_name :: "sat \<Rightarrow> ustr" where
  "sat_name s = rev (sat_name_loop (SUPPLY - sat_n s) [])"

definition degree_fmt :: "degree \<Rightarrow> ustr" where
  "degree_fmt d =
     dec (unat (deg_hour d)) @ 0xB0 # dec (unat (deg_minute d)) @ 0x2032 #
     dec (unat (deg_second d)) @ 0x2033 # dec (unat (deg_third d)) @ [0x2034]"

definition decimal_fmt :: "decimal_sat \<Rightarrow> ustr" where
  "decimal_fmt d = dec (unat (height_n (ds_height d))) @ 46 # dec (unat (ds_offset d))"

section \<open>Parsing\<close>

text \<open>\<open>s.parse()\<close> with the error wrapped for the input \<open>input\<close>.\<close>

definition parse_for :: "ustr \<Rightarrow> nat \<Rightarrow> ustr \<Rightarrow> sat_error + nat" where
  "parse_for input bound s =
     (case parse_uint bound s of Inl e \<Rightarrow> Inl (sat_error (ParseInt e) input) | Inr n \<Rightarrow> Inr n)"

fun from_name_loop :: "ustr \<Rightarrow> u64 \<Rightarrow> ustr \<Rightarrow> sat_error + u64" where
  "from_name_loop input x [] = Inr x"
| "from_name_loop input x (c # cs) =
     (if 97 \<le> c \<and> c \<le> 122
      then
        (let x = x * 26 + of_nat c - 97 + 1
         in if x > SUPPLY then Inl (sat_error NameRange input) else from_name_loop input x cs)
      else Inl (sat_error NameCharacter input))"

definition sat_from_name :: "ustr \<Rightarrow> sat_error + sat" where
  "sat_from_name s =
     (case from_name_loop s 0 s of Inl e \<Rightarrow> Inl e | Inr x \<Rightarrow> Inr (Sat (SUPPLY - x)))"

definition HALVING_INCREMENT :: u32 where
  "HALVING_INCREMENT = SUBSIDY_HALVING_INTERVAL mod DIFFCHANGE_INTERVAL"

text \<open>The epoch and height of a degree, or the error where its offsets do not fit together.\<close>

definition degree_height :: "ustr \<Rightarrow> u32 \<Rightarrow> u32 \<Rightarrow> u32 \<Rightarrow> sat_error + height" where
  "degree_height input cycle_number epoch_offset period_offset =
     (let cycle_start_epoch = cycle_number * CYCLE_EPOCHS;
          relationship = period_offset + SUBSIDY_HALVING_INTERVAL * CYCLE_EPOCHS - epoch_offset
      in if relationship mod HALVING_INCREMENT \<noteq> 0
         then Inl (sat_error EpochPeriodMismatch input)
         else
           (let epochs_since_cycle_start = relationship mod DIFFCHANGE_INTERVAL div HALVING_INCREMENT;
                epoch = cycle_start_epoch + epochs_since_cycle_start
            in Inr (Height (epoch * SUBSIDY_HALVING_INTERVAL + epoch_offset))))"

text \<open>What follows the double prime: the offset in the block, zero when there is none.\<close>

definition degree_block :: "ustr \<Rightarrow> ustr \<Rightarrow> sat_error + nat \<times> ustr" where
  "degree_block input rest =
     (case split_once 0x2034 rest of
        Some (block_offset, rest) \<Rightarrow>
          (case parse_for input (2 ^ 64) block_offset of Inl e \<Rightarrow> Inl e | Inr n \<Rightarrow> Inr (n, rest))
      | None \<Rightarrow> Inr (0, rest))"

definition sat_from_degree :: "ustr \<Rightarrow> sat_error + sat" where
  "sat_from_degree d =
     (case split_once 0xB0 d of None \<Rightarrow> Inl (sat_error MissingDegree d) | Some (cycle, rest) \<Rightarrow>
     (case parse_for d (2 ^ 32) cycle of Inl e \<Rightarrow> Inl e | Inr cycle_number \<Rightarrow>
     (case split_once 0x2032 rest of None \<Rightarrow> Inl (sat_error MissingMinute d) | Some (offset, rest) \<Rightarrow>
     (case parse_for d (2 ^ 32) offset of Inl e \<Rightarrow> Inl e | Inr epoch_offset \<Rightarrow>
     if (of_nat epoch_offset :: u32) \<ge> SUBSIDY_HALVING_INTERVAL then Inl (sat_error EpochOffset d) else
     (case split_once 0x2033 rest of None \<Rightarrow> Inl (sat_error MissingSecond d) | Some (offset, rest) \<Rightarrow>
     (case parse_for d (2 ^ 32) offset of Inl e \<Rightarrow> Inl e | Inr period_offset \<Rightarrow>
     if (of_nat period_offset :: u32) \<ge> DIFFCHANGE_INTERVAL then Inl (sat_error PeriodOffset d) else
     (case degree_height d (of_nat cycle_number) (of_nat epoch_offset) (of_nat period_offset) of
        Inl e \<Rightarrow> Inl e | Inr h \<Rightarrow>
     (case degree_block d rest of Inl e \<Rightarrow> Inl e | Inr (block_offset, rest) \<Rightarrow>
     if rest \<noteq> [] then Inl (sat_error TrailingCharacters d)
     else if of_nat block_offset \<ge> height_subsidy h then Inl (sat_error BlockOffset d)
     else Inr (sat_add (height_starting_sat h) (of_nat block_offset))))))))))"

definition sat_from_decimal :: "ustr \<Rightarrow> sat_error + sat" where
  "sat_from_decimal d =
     (case split_once 46 d of None \<Rightarrow> Inl (sat_error MissingPeriod d) | Some (height, offset) \<Rightarrow>
     (case parse_for d (2 ^ 32) height of Inl e \<Rightarrow> Inl e | Inr h \<Rightarrow>
     (case parse_for d (2 ^ 64) offset of Inl e \<Rightarrow> Inl e | Inr t \<Rightarrow>
     if of_nat t \<ge> height_subsidy (Height (of_nat h)) then Inl (sat_error BlockOffset d)
     else Inr (sat_add (height_starting_sat (Height (of_nat h))) (of_nat t)))))"

definition sat_from_str :: "(ustr \<Rightarrow> sat_error + sat) \<Rightarrow> ustr \<Rightarrow> sat_error + sat" where
  "sat_from_str percentile s =
     (if list_ex (\<lambda>c. 97 \<le> c \<and> c \<le> 122) s then sat_from_name s
      else if 0xB0 \<in> set s then sat_from_degree s
      else if 37 \<in> set s then percentile s
      else if 46 \<in> set s then sat_from_decimal s
      else
        (case parse_for s (2 ^ 64) s of
           Inl e \<Rightarrow> Inl e
         | Inr n \<Rightarrow>
             if of_nat n > sat_n LAST then Inl (sat_error IntegerRange s) else Inr (Sat (of_nat n))))"

section \<open>Names\<close>

definition lower :: "ustr \<Rightarrow> ustr" where
  "lower s = map (\<lambda>c. c + 32) s"

lemma lower_nth: "d < 26 \<Longrightarrow> lit ''abcdefghijklmnopqrstuvwxyz'' ! d = 97 + d"
  by (simp add: lit_def less_Suc_eq numeral_eq_Suc) (elim disjE; simp)

lemma sat_name_loop_letters: "sat_name_loop x s = s @ rev (lower (letters (unat x)))"
proof (induction x s rule: sat_name_loop.induct)
  case (1 x s)
  show ?case
  proof (cases "x > 0")
    case True
    then have u: "unat (x - 1) = unat x - 1" and p: "0 < unat x"
      by (simp_all add: unat_minus_one unat_gt_0 word_gt_0)
    have "unat ((x - 1) mod 26) < 26" using u by (simp add: unat_mod)
    then show ?thesis using 1 True p
      by (simp add: sat_name_loop.simps [of x s] letters.simps [of "unat x"] lower_nth lower_def
          unat_div unat_mod u)
  qed (simp add: sat_name_loop.simps [of 0 s] word_gt_0 lower_def)
qed

lemma sat_name_letters: "sat_name s = lower (letters (unat (SUPPLY - sat_n s)))"
  by (simp add: sat_name_def sat_name_loop_letters)

lemma from_name_loop_foldl:
  assumes "is_name s" "y \<le> 2099999997690000"
    and "foldl (\<lambda>y c. y * 26 + (c - 64)) y s \<le> 2099999997690000"
  shows "from_name_loop input (of_nat y) (lower s) = Inr (of_nat (foldl (\<lambda>y c. y * 26 + (c - 64)) y s))"
  using assms
proof (induction s arbitrary: y)
  case (Cons c s)
  let ?z = "y * 26 + (c - 64)"
  from Cons.prems have c: "65 \<le> c" "c \<le> 90" and s: "is_name s" by (simp_all add: is_name_def)
  have z: "?z \<le> 2099999997690000"
    using foldl_letters_ge [of ?z s] Cons.prems(3) by simp
  have "of_nat y * 26 + of_nat (c + 32) - 97 + 1 = (of_nat ?z :: u64)"
    using c by (simp add: of_nat_diff)
  moreover have "\<not> (of_nat ?z :: u64) > SUPPLY"
    using z by (simp add: SUPPLY_def word_less_nat_alt unat_of_nat_small del: of_nat_add of_nat_mult)
  moreover have "from_name_loop input (of_nat ?z) (lower s) =
      Inr (of_nat (foldl (\<lambda>y c. y * 26 + (c - 64)) ?z s))"
    by (rule Cons.IH [OF s z]) (use Cons.prems(3) in simp)
  ultimately show ?case
    using c by (simp add: lower_def Let_def del: of_nat_add of_nat_mult of_nat_diff)
qed (simp add: lower_def)

lemma sat_from_name_name:
  assumes "unat (sat_n s) < 2099999997690000"
  shows "sat_from_name (sat_name s) = Inr s"
proof -
  have le: "sat_n s \<le> SUPPLY" using assms by (simp add: SUPPLY_def word_le_nat_alt)
  then have u: "unat (SUPPLY - sat_n s) = 2099999997690000 - unat (sat_n s)"
    by (simp add: unat_diff_le) (simp add: SUPPLY_def)
  have "from_name_loop (sat_name s) (of_nat 0) (lower (letters (unat (SUPPLY - sat_n s)))) =
      Inr (of_nat (foldl (\<lambda>y c. y * 26 + (c - 64)) 0 (letters (unat (SUPPLY - sat_n s)))))"
    by (rule from_name_loop_foldl)
      (simp_all add: is_name_letters letters_val_letters u flip: letters_val_def)
  then have "from_name_loop (sat_name s) 0 (sat_name s) = Inr (SUPPLY - sat_n s)"
    by (simp add: sat_name_letters letters_val_letters ucast_id flip: letters_val_def)
  then show ?thesis by (simp add: sat_from_name_def)
qed

lemma sat_name_lowercase:
  assumes "unat (sat_n s) < 2099999997690000"
  shows "list_ex (\<lambda>c. 97 \<le> c \<and> c \<le> 122) (sat_name s)"
proof -
  have "sat_n s \<noteq> SUPPLY" using assms by (auto simp: SUPPLY_def)
  then have "unat (SUPPLY - sat_n s) \<noteq> 0" by (simp add: unat_eq_zero)
  then have "letters (unat (SUPPLY - sat_n s)) \<noteq> []" by simp
  then obtain c cs where l: "letters (unat (SUPPLY - sat_n s)) = c # cs" by (cases "letters (unat (SUPPLY - sat_n s))") auto
  then have "65 \<le> c \<and> c \<le> 90" using is_name_letters [of "unat (SUPPLY - sat_n s)"] by (simp add: is_name_def)
  then show ?thesis by (simp add: sat_name_letters l lower_def)
qed

section \<open>Degrees and decimals\<close>

lemma dec_notin: "57 < c \<or> c < 48 \<Longrightarrow> c \<notin> set (dec n)"
  using dec_digit [of c n] by auto

lemma split_once_dec: "57 < c \<or> c < 48 \<Longrightarrow> split_once c (dec n @ c # rest) = Some (dec n, rest)"
  by (intro split_once_append dec_notin)

lemma parse_for_dec [codec]: "n < b \<Longrightarrow> parse_for input b (dec n) = Inr n"
  by (simp add: parse_for_def parse_uint_dec)

text \<open>The position in the difficulty period tells the epoch within the cycle.\<close>

lemma degree_relationship:
  fixes k q :: nat
  assumes "q < 210000"
  defines "r \<equiv> (k * 210000 + q) mod 2016 + 1260000 - q"
  shows "r mod 336 = 0" "r mod 2016 div 336 = k mod 6"
proof -
  define m where "m = (k * 210000 + q) div 2016"
  have "(k * 210000 + q) mod 2016 + 2016 * m = k * 210000 + q" by (simp add: m_def)
  then have r: "r + 2016 * m = k * 210000 + 1260000" using assms(1) by (simp add: r_def)
  have "k = 6 * (k div 6) + k mod 6" by simp
  then obtain a b where k: "k = 6 * a + b" "b < 6" "b = k mod 6" by (metis mod_less_divisor zero_less_numeral)
  have "r + 2016 * m = 336 * (k * 625 + 3750)" using r by simp
  then have "(r + 336 * (6 * m)) mod 336 = 0" by simp
  then show "r mod 336 = 0" by (simp only: mod_mult_self2)
  have "r + 2016 * m = 336 * b + 2016 * (a * 625 + b * 104 + 625)" using r k(1) by simp
  then have "(r + 2016 * m) mod 2016 = (336 * b + 2016 * (a * 625 + b * 104 + 625)) mod 2016" by simp
  then have "r mod 2016 = (336 * b) mod 2016" by (simp only: mod_mult_self2)
  also have "\<dots> = 336 * b" using k(2) by simp
  finally show "r mod 2016 div 336 = k mod 6" using k(3) by simp
qed

lemma degree_height_mined:
  assumes "k < 33" "q < 210000"
  defines "n \<equiv> k * 210000 + q"
  shows "degree_height input (of_nat (n div 1260000)) (of_nat q) (of_nat (n mod 2016)) = Inr (Height (of_nat n))"
proof -
  let ?r = "n mod 2016 + 1260000 - q"
  note rel = degree_relationship [OF assms(2), of k, folded n_def]
  have n6: "n div 1260000 = k div 6" using assms(2) by (simp add: n_def)
  have r: "(of_nat (n mod 2016) + SUBSIDY_HALVING_INTERVAL * CYCLE_EPOCHS - of_nat q :: u32) = of_nat ?r"
    using assms(2) by (simp add: SUBSIDY_HALVING_INTERVAL_def CYCLE_EPOCHS_def of_nat_diff)
  have "?r < 2 ^ 32" by (simp add: less_imp_diff_less trans_less_add2 mod_less_divisor [THEN less_trans])
  then have ru: "unat (of_nat ?r :: u32) = ?r" by (simp add: unat_of_nat_small)
  have m1: "(of_nat ?r :: u32) mod HALVING_INCREMENT = 0"
    using rel(1) ru by (simp add: HALVING_INCREMENT_def SUBSIDY_HALVING_INTERVAL_def DIFFCHANGE_INTERVAL_def
        word_unat_eq_iff unat_mod del: of_nat_add of_nat_diff)
  have m2: "(of_nat ?r :: u32) mod DIFFCHANGE_INTERVAL div HALVING_INCREMENT = of_nat (k mod 6)"
    using rel(2) ru by (intro word_of_unat)
      (simp add: HALVING_INCREMENT_def SUBSIDY_HALVING_INTERVAL_def DIFFCHANGE_INTERVAL_def
        unat_mod unat_div del: of_nat_add of_nat_diff)
  have "(of_nat (k div 6 * 6 + k mod 6) :: u32) = of_nat (k div 6) * 6 + of_nat (k mod 6)"
    by (simp only: of_nat_add of_nat_mult of_nat_numeral)
  then have e: "(of_nat (k div 6) * CYCLE_EPOCHS + of_nat (k mod 6) :: u32) = of_nat k"
    by (simp only: CYCLE_EPOCHS_def div_mult_mod_eq)
  show ?thesis
    unfolding degree_height_def Let_def n6 r m1 m2 e
    by (simp add: n_def SUBSIDY_HALVING_INTERVAL_def)
qed

lemma degree_from_sat_mined:
  assumes "k < 33" "q < 210000" "sat_height s = Some (Height (of_nat (k * 210000 + q)))" "sat_third s = Some t"
  shows "degree_from_sat s = Some \<lparr>deg_hour = of_nat ((k * 210000 + q) div 1260000), deg_minute = of_nat q,
    deg_second = of_nat ((k * 210000 + q) mod 2016), deg_third = t\<rparr>"
proof -
  define n :: u32 where "n = of_nat (k * 210000 + q)"
  have u: "unat n = k * 210000 + q" unfolding n_def by (rule unat_block [OF assms(1,2)])
  have "n div (CYCLE_EPOCHS * SUBSIDY_HALVING_INTERVAL) = of_nat ((k * 210000 + q) div 1260000)"
    by (rule word_of_unat) (simp add: unat_div u CYCLE_EPOCHS_def SUBSIDY_HALVING_INTERVAL_def)
  moreover have "n mod SUBSIDY_HALVING_INTERVAL = of_nat q"
    using assms(2) by (intro word_of_unat) (simp add: unat_mod u SUBSIDY_HALVING_INTERVAL_def)
  moreover have "n mod DIFFCHANGE_INTERVAL = of_nat ((k * 210000 + q) mod 2016)"
    by (rule word_of_unat) (simp add: unat_mod u DIFFCHANGE_INTERVAL_def)
  ultimately show ?thesis
    unfolding degree_from_sat_def assms(3,4) n_def [symmetric] by simp
qed

section \<open>Round trips of the notations\<close>

lemma no_lowercase_dec: "\<not> list_ex (\<lambda>c. 97 \<le> c \<and> c \<le> 122) (dec n)"
  using dec_digit [of _ n] by (fastforce simp: list_ex_iff)

lemma sat_from_decimal_fmt:
  assumes "unat (sat_n s) < 2099999997690000" "decimal_from_sat s = Some d"
  shows "sat_from_str percentile (decimal_fmt d) = Inr s"
proof -
  obtain k q t where c: "k < 33" "q < 210000"
    "sat_height s = Some (Height (of_nat (k * 210000 + q)))" "sat_third s = Some (of_nat t)"
    "of_nat t < height_subsidy (Height (of_nat (k * 210000 + q)))"
    "sat_n (height_starting_sat (Height (of_nat (k * 210000 + q)))) + of_nat t = sat_n s"
    by (rule sat_cases [OF assms(1)])
  define n t' where "n = (of_nat (k * 210000 + q) :: u32)" and "t' = (of_nat t :: u64)"
  note c = c(3-6) [folded n_def t'_def]
  have d: "d = \<lparr>ds_height = Height n, ds_offset = t'\<rparr>"
    using assms(2) c(1,2) by (simp add: decimal_from_sat_def)
  have "unat n < 2 ^ 32" "unat t' < 2 ^ 64" using unsigned_less [of n] unsigned_less [of t'] by simp_all
  then have "sat_from_decimal (decimal_fmt d) = Inr s"
    using c(3,4) by (simp add: sat_from_decimal_def decimal_fmt_def d split_once_dec parse_for_dec not_le ucast_id
        del: power_numeral)
  moreover have "\<not> list_ex (\<lambda>c. 97 \<le> c \<and> c \<le> 122) (decimal_fmt d)"
    using no_lowercase_dec by (simp add: decimal_fmt_def)
  moreover have "0xB0 \<notin> set (decimal_fmt d)" "37 \<notin> set (decimal_fmt d)" "46 \<in> set (decimal_fmt d)"
    by (simp_all add: decimal_fmt_def dec_notin)
  ultimately show ?thesis by (simp add: sat_from_str_def)
qed

lemma sat_from_degree_fmt:
  assumes "unat (sat_n s) < 2099999997690000" "degree_from_sat s = Some d"
  shows "sat_from_str percentile (degree_fmt d) = Inr s"
proof -
  obtain k q t where c: "k < 33" "q < 210000"
    "sat_height s = Some (Height (of_nat (k * 210000 + q)))" "sat_third s = Some (of_nat t)"
    "of_nat t < height_subsidy (Height (of_nat (k * 210000 + q)))"
    "sat_n (height_starting_sat (Height (of_nat (k * 210000 + q)))) + of_nat t = sat_n s"
    by (rule sat_cases [OF assms(1)])
  let ?n = "k * 210000 + q"
  define a b e :: u32 and t' :: u64 where "a = of_nat (?n div 1260000)" and "b = of_nat q"
    and "e = of_nat (?n mod 2016)" and "t' = of_nat t"
  have d: "d = \<lparr>deg_hour = a, deg_minute = b, deg_second = e, deg_third = t'\<rparr>"
    using assms(2) degree_from_sat_mined [OF c(1-4)] by (simp add: a_def b_def e_def t'_def)
  have h: "degree_height input a b e = Inr (Height (of_nat ?n))" for input
    unfolding a_def b_def e_def by (rule degree_height_mined [OF c(1,2)])
  have range: "unat a < 2 ^ 32" "unat b < 2 ^ 32" "unat e < 2 ^ 32" "unat t' < 2 ^ 64"
    using unsigned_less [of a] unsigned_less [of b] unsigned_less [of e] unsigned_less [of t'] by simp_all
  have small: "b < SUBSIDY_HALVING_INTERVAL" "e < DIFFCHANGE_INTERVAL"
    using c(2) by (simp_all add: b_def e_def word_less_nat_alt SUBSIDY_HALVING_INTERVAL_def DIFFCHANGE_INTERVAL_def
        unat_of_nat_small)
  note t = c(5,6) [folded t'_def]
  have "sat_from_degree (degree_fmt d) = Inr s"
    using range small t
    by (simp add: sat_from_degree_def degree_fmt_def d split_once_dec parse_for_dec ucast_id h degree_block_def not_le
        del: power_numeral of_nat_add of_nat_mult)
  moreover have "\<not> list_ex (\<lambda>c. 97 \<le> c \<and> c \<le> 122) (degree_fmt d)"
    using no_lowercase_dec by (simp add: degree_fmt_def)
  moreover have "0xB0 \<in> set (degree_fmt d)" by (simp add: degree_fmt_def)
  ultimately show ?thesis by (simp add: sat_from_str_def)
qed

lemma sat_from_integer:
  assumes "unat (sat_n s) < 2099999997690000"
  shows "sat_from_str percentile (dec (unat (sat_n s))) = Inr s"
proof -
  have "sat_n s \<le> sat_n LAST" using assms by (simp add: LAST_def SUPPLY_def word_le_nat_alt)
  moreover have "unat (sat_n s) < 2 ^ 64" using unsigned_less [of "sat_n s"] by simp
  ultimately show ?thesis
    using no_lowercase_dec
    by (simp add: sat_from_str_def dec_notin parse_for_dec ucast_id not_less del: power_numeral)
qed

section \<open>Whatever parses is a sat of the supply\<close>

lemma block_sat_bound:
  assumes "\<not> t \<ge> height_subsidy h"
  shows "sat_n (height_starting_sat h) + t \<le> sat_n LAST"
proof -
  have less: "unat t < unat (height_subsidy h)" using assms by (simp add: word_le_nat_alt)
  have e: "unat (height_subsidy h) = Sat_Numbers.subsidy (unat (height_n h div SUBSIDY_HALVING_INTERVAL))"
    by (simp add: height_subsidy_def epoch_from_height_def epoch_subsidy_nat)
  have "unat (height_n h div SUBSIDY_HALVING_INTERVAL) < 33"
    using less e by (simp add: subsidy_def split: if_splits)
  then have "unat (height_n h) div 210000 < 33" by (simp add: unat_div SUBSIDY_HALVING_INTERVAL_def)
  then have "unat (height_n h) < 6930000" by (simp add: div_less_iff_less_mult)
  then obtain k q where h: "k < 33" "q < 210000" "h = Height (of_nat (k * 210000 + q))"
    by (rule height_cases)
  have t: "unat t < Sat_Numbers.subsidy k" using less unfolding h(3) starting_sat_mined(1) [OF h(1,2)] .
  have "unat (sat_n (height_starting_sat h) + t) = mined k q (unat t)"
    using starting_sat_mined(2) [OF h(1,2) t] by (simp add: h(3) ucast_id del: of_nat_add of_nat_mult)
  with mined_bounds(3) [OF h(1,2) t] show ?thesis by (simp add: LAST_def SUPPLY_def word_le_nat_alt)
qed

lemma from_name_loop_bound:
  assumes "from_name_loop input x s = Inr y" "x \<le> SUPPLY"
  shows "y \<le> SUPPLY \<and> (s \<noteq> [] \<longrightarrow> 0 < unat y) \<and> (s = [] \<longrightarrow> y = x)"
  using assms
proof (induction input x s rule: from_name_loop.induct)
  case (2 input x c cs)
  let ?z = "x * 26 + of_nat c - 97 + 1"
  from "2.prems"(1) have c: "97 \<le> c" "c \<le> 122" and z: "\<not> ?z > SUPPLY"
    and rest: "from_name_loop input ?z cs = Inr y"
    by (auto simp: Let_def split: if_splits)
  have x: "unat x \<le> 2099999997690000" using "2.prems"(2) by (simp add: SUPPLY_def word_le_nat_alt)
  have a: "?z = of_nat (unat x * 26 + (c - 97) + 1)" using c by (simp add: of_nat_diff)
  have b: "unat (of_nat (unat x * 26 + (c - 97) + 1) :: u64) = unat x * 26 + (c - 97) + 1"
    using x c by (intro unat_of_nat_small) simp
  have p: "0 < unat ?z" unfolding a b by simp
  have "y \<le> SUPPLY \<and> (cs \<noteq> [] \<longrightarrow> 0 < unat y) \<and> (cs = [] \<longrightarrow> y = ?z)"
    by (rule "2.IH" [OF _ refl z rest]) (use c z in \<open>simp_all add: not_less\<close>)
  with p show ?case by (cases "cs = []") auto
qed simp

lemma sat_from_name_bound:
  assumes "sat_from_name s = Inr x" "s \<noteq> []"
  shows "sat_n x \<le> sat_n LAST"
proof -
  from assms(1) obtain y where y: "from_name_loop s 0 s = Inr y" and x: "x = Sat (SUPPLY - y)"
    by (auto simp: sat_from_name_def split: sum.splits)
  from from_name_loop_bound [OF y] assms(2) have b: "y \<le> SUPPLY" "0 < unat y" by simp_all
  have "unat (SUPPLY - y) = unat SUPPLY - unat y" by (rule unat_diff_le [OF b(1)])
  with b(2) show ?thesis by (simp add: x LAST_def word_le_nat_alt SUPPLY_def)
qed

text \<open>A percentile parser that accepts nothing, for the examples.\<close>

definition no_percentile :: "ustr \<Rightarrow> sat_error + sat" where
  "no_percentile s = Inl (sat_error Percentile s)"

section \<open>Properties\<close>

text \<open>
  C38. Every sat of the supply is read back from each of its notations: its number, its name,
  its decimal (height and offset) and its degree.
\<close>

theorem sat_notations:
  assumes "sat_n s < SUPPLY"
  shows "sat_from_str percentile (dec (unat (sat_n s))) = Inr s \<and>
    sat_from_str percentile (sat_name s) = Inr s \<and>
    (\<exists>d. decimal_from_sat s = Some d \<and> sat_from_str percentile (decimal_fmt d) = Inr s) \<and>
    (\<exists>d. degree_from_sat s = Some d \<and> sat_from_str percentile (degree_fmt d) = Inr s)"
proof -
  have s: "unat (sat_n s) < 2099999997690000" using assms by (simp add: SUPPLY_def word_less_nat_alt)
  then obtain k q t where "sat_height s = Some (Height (of_nat (k * 210000 + q)))" "sat_third s = Some (of_nat t)"
    by (rule sat_cases)
  then obtain d e where d: "decimal_from_sat s = Some d" and e: "degree_from_sat s = Some e"
    by (simp add: decimal_from_sat_def degree_from_sat_def Let_def)
  have "sat_from_str percentile (sat_name s) = Inr s"
    by (simp add: sat_from_str_def sat_name_lowercase [OF s] sat_from_name_name [OF s])
  then show ?thesis
    using sat_from_integer [OF s] sat_from_decimal_fmt [OF s d] sat_from_degree_fmt [OF s e] d e by blast
qed

lemma sat_notations_witness:
  "sat_from_str no_percentile (sat_name (Sat 2099999997689999)) = Inr (Sat 2099999997689999)"
  using sat_notations [of "Sat 2099999997689999" no_percentile] by (simp add: SUPPLY_def)

text \<open>
  Whatever parses, in any notation, is a sat of the supply, as long as the percentile
  notation keeps to it.
\<close>

lemma sat_parse_bound:
  assumes "sat_from_str percentile s = Inr x"
    and "\<And>t y. percentile t = Inr y \<Longrightarrow> sat_n y \<le> sat_n LAST"
  shows "sat_n x \<le> sat_n LAST"
proof -
  consider (name) "list_ex (\<lambda>c. 97 \<le> c \<and> c \<le> 122) s" "sat_from_name s = Inr x"
    | (degree) "sat_from_degree s = Inr x" | (percentile) "percentile s = Inr x"
    | (decimal) "sat_from_decimal s = Inr x" | (integer) n where "x = Sat (of_nat n)" "\<not> of_nat n > sat_n LAST"
    using assms(1) by (auto simp: sat_from_str_def split: if_splits sum.splits)
  then show ?thesis
  proof cases
    case name
    then have "s \<noteq> []" by auto
    with name show ?thesis by (simp add: sat_from_name_bound)
  next
    case degree
    then show ?thesis
      by (auto simp: sat_from_degree_def split: option.splits sum.splits prod.splits if_splits
          intro: block_sat_bound)
  next
    case percentile
    then show ?thesis by (rule assms(2))
  next
    case decimal
    then show ?thesis
      by (auto simp: sat_from_decimal_def split: option.splits sum.splits prod.splits if_splits
          intro: block_sat_bound)
  next
    case integer
    then show ?thesis by (simp add: not_less)
  qed
qed

lemma sat_parse_bound_witness:
  "sat_from_str no_percentile (dec 17) = Inr (Sat 17) \<and> sat_n (Sat 17) \<le> sat_n LAST"
proof -
  have "sat_from_str no_percentile (dec 17) = Inr (Sat 17)"
    using sat_from_integer [of "Sat 17" no_percentile] by simp
  from sat_parse_bound [OF this] this show ?thesis by (simp add: no_percentile_def)
qed

text \<open>
  The parser accepts degrees that denote no sat: the multiplication of the cycle number
  wraps, so the first sat of cycle 715827883 is read as the first sat of epoch 2, whose
  degree is another.
\<close>

lemma degree_cycle_wraps:
  "sat_from_degree (dec 715827883 @ 0xB0 # dec 0 @ 0x2032 # dec 0 @ [0x2033]) = Inr (Sat 1575000000000000) \<and>
   degree_from_sat (Sat 1575000000000000) =
     Some \<lparr>deg_hour = 0, deg_minute = 0, deg_second = 672, deg_third = 0\<rparr>"
proof
  have h: "degree_height s 715827883 0 0 = Inr (Height 420000)" for s
    by (simp add: degree_height_def CYCLE_EPOCHS_def SUBSIDY_HALVING_INTERVAL_def HALVING_INCREMENT_def
        DIFFCHANGE_INTERVAL_def Let_def)
  have sub: "height_subsidy (Height 420000) = 1250000000"
    by (simp add: height_subsidy_def epoch_from_height_def epoch_subsidy_def FIRST_POST_SUBSIDY_def
        SUBSIDY_HALVING_INTERVAL_def ONE_BTC_def)
  have st: "height_starting_sat (Height 420000) = Sat 1575000000000000"
    by (simp add: height_starting_sat_def epoch_from_height_def epoch_starting_sat_def epoch_starting_height_def
        SUBSIDY_HALVING_INTERVAL_def vec_get_def STARTING_SATS_def Let_def)
  show "sat_from_degree (dec 715827883 @ 0xB0 # dec 0 @ 0x2032 # dec 0 @ [0x2033]) = Inr (Sat 1575000000000000)"
    by (simp add: sat_from_degree_def split_once_dec parse_for_dec SUBSIDY_HALVING_INTERVAL_def
        DIFFCHANGE_INTERVAL_def h degree_block_def sub st)
  show "degree_from_sat (Sat 1575000000000000) =
      Some \<lparr>deg_hour = 0, deg_minute = 0, deg_second = 672, deg_third = 0\<rparr>"
    using sat_height_mined [of 2 0 0 1575000000000000]
    by (simp add: degree_from_sat_def mined_def start_def subsidy_def STARTING_SATS_def CYCLE_EPOCHS_def
        SUBSIDY_HALVING_INTERVAL_def DIFFCHANGE_INTERVAL_def Let_def)
qed

end
