(* ===== verification/Charm.thy ===== *)
theory Charm
  imports Sat_Text
begin

text \<open>
  Charms as bits of a 16 bit set (\<^verbatim>\<open>crates/ordinals/src/charm.rs\<close>) and the charms of a sat
  (\<^verbatim>\<open>sat.rs\<close>). Main facts: setting and clearing a charm touch its own bit only, the list of a
  set has exactly the charms that are set, the charms of a sat are those of its number and
  rarity, and charms and rarities are read back from their text.
\<close>

unbundle bit_operations_syntax

datatype charm =
    CharmCoin | CharmCursed | CharmEpic | CharmLegendary | CharmLost | CharmNineball
  | CharmRare | CharmReinscription | CharmUnbound | CharmUncommon | CharmVindicated
  | CharmMythic | CharmBurned

fun charm_index :: "charm \<Rightarrow> nat" where
  "charm_index CharmCoin = 0"
| "charm_index CharmCursed = 1"
| "charm_index CharmEpic = 2"
| "charm_index CharmLegendary = 3"
| "charm_index CharmLost = 4"
| "charm_index CharmNineball = 5"
| "charm_index CharmRare = 6"
| "charm_index CharmReinscription = 7"
| "charm_index CharmUnbound = 8"
| "charm_index CharmUncommon = 9"
| "charm_index CharmVindicated = 10"
| "charm_index CharmMythic = 11"
| "charm_index CharmBurned = 12"

definition charm_all :: "charm list" where
  "charm_all =
     [CharmCoin, CharmUncommon, CharmRare, CharmEpic, CharmLegendary, CharmMythic,
      CharmNineball, CharmReinscription, CharmCursed, CharmUnbound, CharmLost,
      CharmVindicated, CharmBurned]"

definition charm_flag :: "charm \<Rightarrow> u16" where
  "charm_flag c = push_bit (charm_index c) 1"

definition charm_set :: "charm \<Rightarrow> u16 \<Rightarrow> u16" where
  "charm_set c charms = charms OR charm_flag c"

definition charm_is_set :: "charm \<Rightarrow> u16 \<Rightarrow> bool" where
  "charm_is_set c charms \<longleftrightarrow> charms AND charm_flag c \<noteq> 0"

definition charm_unset :: "charm \<Rightarrow> u16 \<Rightarrow> u16" where
  "charm_unset c charms = charms AND NOT (charm_flag c)"

definition charm_charms :: "u16 \<Rightarrow> charm list" where
  "charm_charms charms = filter (\<lambda>c. charm_is_set c charms) charm_all"

fun charm_icon :: "charm \<Rightarrow> ustr" where
  "charm_icon CharmBurned = [0x1F525]"
| "charm_icon CharmCoin = [0x1FA99]"
| "charm_icon CharmCursed = [0x1F479]"
| "charm_icon CharmEpic = [0x1FABB]"
| "charm_icon CharmLegendary = [0x1F31D]"
| "charm_icon CharmLost = [0x1F914]"
| "charm_icon CharmMythic = [0x1F383]"
| "charm_icon CharmNineball = [0x39, 0xFE0F, 0x20E3]"
| "charm_icon CharmRare = [0x1F9FF]"
| "charm_icon CharmReinscription = [0x267B, 0xFE0F]"
| "charm_icon CharmUnbound = [0x1F513]"
| "charm_icon CharmUncommon = [0x1F331]"
| "charm_icon CharmVindicated = [0x2764, 0xFE0F, 0x200D, 0x1F525]"

fun charm_str :: "charm \<Rightarrow> ustr" where
  "charm_str CharmBurned = lit ''burned''"
| "charm_str CharmCoin = lit ''coin''"
| "charm_str CharmCursed = lit ''cursed''"
| "charm_str CharmEpic = lit ''epic''"
| "charm_str CharmLegendary = lit ''legendary''"
| "charm_str CharmLost = lit ''lost''"
| "charm_str CharmMythic = lit ''mythic''"
| "charm_str CharmNineball = lit ''nineball''"
| "charm_str CharmRare = lit ''rare''"
| "charm_str CharmReinscription = lit ''reinscription''"
| "charm_str CharmUnbound = lit ''unbound''"
| "charm_str CharmUncommon = lit ''uncommon''"
| "charm_str CharmVindicated = lit ''vindicated''"

definition charm_from_str :: "ustr \<Rightarrow> ustr + charm" where
  "charm_from_str s =
     (if s = lit ''burned'' then Inr CharmBurned
      else if s = lit ''coin'' then Inr CharmCoin
      else if s = lit ''cursed'' then Inr CharmCursed
      else if s = lit ''epic'' then Inr CharmEpic
      else if s = lit ''legendary'' then Inr CharmLegendary
      else if s = lit ''lost'' then Inr CharmLost
      else if s = lit ''mythic'' then Inr CharmMythic
      else if s = lit ''nineball'' then Inr CharmNineball
      else if s = lit ''rare'' then Inr CharmRare
      else if s = lit ''reinscription'' then Inr CharmReinscription
      else if s = lit ''unbound'' then Inr CharmUnbound
      else if s = lit ''uncommon'' then Inr CharmUncommon
      else if s = lit ''vindicated'' then Inr CharmVindicated
      else Inl (lit ''invalid charm `'' @ s @ lit ''`''))"

definition sat_charms :: "sat \<Rightarrow> u16 option" where
  "sat_charms s =
     do {
       let charms = 0;
       let charms = (if sat_nineball s then charm_set CharmNineball charms else charms);
       let charms = (if sat_coin s then charm_set CharmCoin charms else charms);
       r \<leftarrow> rarity_from_sat s;
       Some
         (case r of
            Common \<Rightarrow> charms
          | Epic \<Rightarrow> charm_set CharmEpic charms
          | Legendary \<Rightarrow> charm_set CharmLegendary charms
          | Mythic \<Rightarrow> charm_set CharmMythic charms
          | Rare \<Rightarrow> charm_set CharmRare charms
          | Uncommon \<Rightarrow> charm_set CharmUncommon charms)
     }"

section \<open>Bits\<close>

lemma charm_index_less: "charm_index c < 16"
  by (cases c) simp_all

lemma charm_index_inj [simp]: "charm_index c = charm_index d \<longleftrightarrow> c = d"
  by (cases c; cases d) simp_all

lemma in_charm_all: "c \<in> set charm_all"
  by (cases c) (simp_all add: charm_all_def)

lemma bit_charm_flag: "bit (charm_flag c) n \<longleftrightarrow> n = charm_index c"
  using charm_index_less [of c] by (auto simp: charm_flag_def bit_simps)

lemma charm_is_set_bit: "charm_is_set c m \<longleftrightarrow> bit m (charm_index c)"
proof -
  have "m AND charm_flag c = 0 \<longleftrightarrow> \<not> bit m (charm_index c)"
    unfolding bit_eq_iff [where 'a = "16 word"] bit_and_iff bit_charm_flag
    using charm_index_less [of c] by auto
  then show ?thesis by (simp add: charm_is_set_def)
qed

lemma charm_is_set_simps [simp]:
  "charm_is_set c 0 = False"
  "charm_is_set c (charm_set d m) \<longleftrightarrow> c = d \<or> charm_is_set c m"
  "charm_is_set c (charm_unset d m) \<longleftrightarrow> c \<noteq> d \<and> charm_is_set c m"
  using charm_index_less [of c]
  by (auto simp: charm_is_set_bit charm_set_def charm_unset_def bit_simps bit_charm_flag)

section \<open>Properties\<close>

text \<open>
  The charms of a sat of the supply are exactly: coin and nineball by its number, and the
  charm of its rarity unless it is common. \<open>charms\<close> lists each of them once.
\<close>

lemma sat_charms_exact:
  assumes "sat_n s < SUPPLY"
  shows "\<exists>m r. sat_charms s = Some m \<and> rarity_from_sat s = Some r \<and> distinct (charm_charms m) \<and>
    set (charm_charms m) =
      {c. c = CharmNineball \<and> sat_nineball s \<or> c = CharmCoin \<and> sat_coin s \<or>
        (r, c) \<in> {(Uncommon, CharmUncommon), (Rare, CharmRare), (Epic, CharmEpic),
          (Legendary, CharmLegendary), (Mythic, CharmMythic)}}"
proof -
  have "unat (sat_n s) < 2099999997690000" using assms by (simp add: SUPPLY_def word_less_nat_alt)
  then obtain k q t where "sat_height s = Some (Height (of_nat (k * 210000 + q)))" "sat_third s = Some (of_nat t)"
    by (rule sat_cases)
  then obtain r where r: "rarity_from_sat s = Some r"
    by (simp add: rarity_from_sat_def degree_from_sat_def Let_def)
  define base where "base =
    (let charms = (if sat_nineball s then charm_set CharmNineball 0 else 0)
     in if sat_coin s then charm_set CharmCoin charms else charms)"
  have base: "charm_is_set c base \<longleftrightarrow> c = CharmNineball \<and> sat_nineball s \<or> c = CharmCoin \<and> sat_coin s" for c
    by (cases "sat_nineball s"; cases "sat_coin s") (auto simp: base_def)
  define m where "m = (case r of Common \<Rightarrow> base | Epic \<Rightarrow> charm_set CharmEpic base
    | Legendary \<Rightarrow> charm_set CharmLegendary base | Mythic \<Rightarrow> charm_set CharmMythic base
    | Rare \<Rightarrow> charm_set CharmRare base | Uncommon \<Rightarrow> charm_set CharmUncommon base)"
  have m: "sat_charms s = Some m"
    by (cases r) (simp_all add: sat_charms_def r m_def base_def Let_def)
  have "charm_is_set c m \<longleftrightarrow> c = CharmNineball \<and> sat_nineball s \<or> c = CharmCoin \<and> sat_coin s \<or>
      (r, c) \<in> {(Uncommon, CharmUncommon), (Rare, CharmRare), (Epic, CharmEpic),
        (Legendary, CharmLegendary), (Mythic, CharmMythic)}" for c
    by (cases r) (simp_all add: m_def base disj_commute disj_left_commute)
  moreover have "distinct (charm_charms m)" 
    unfolding charm_charms_def by (rule distinct_filter) (simp add: charm_all_def)
  ultimately show ?thesis
    using m r in_charm_all unfolding charm_charms_def set_filter by blast
qed

lemma sat_charms_exact_witness:
  "\<exists>m. sat_charms (Sat 0) = Some m \<and> CharmCoin \<in> set (charm_charms m)"
  using sat_charms_exact [of "Sat 0"] by (force simp: SUPPLY_def sat_coin_def)

lemma charm_from_str_str [codec]: "charm_from_str (charm_str c) = Inr c"
  by (cases c) (simp_all add: charm_from_str_def lit_def)

lemma if_InrD: "(if p then Inr a else x) = Inr c \<Longrightarrow> (\<not> p \<Longrightarrow> x = Inr c \<Longrightarrow> q) \<Longrightarrow> (p \<Longrightarrow> a = c \<Longrightarrow> q) \<Longrightarrow> q"
  by (cases p) auto

lemma charm_from_str_Inr: "charm_from_str s = Inr c \<Longrightarrow> s = charm_str c"
  unfolding charm_from_str_def
  by (elim if_InrD) (simp_all only: sum.distinct, (erule subst, simp only: charm_str.simps)+)

lemma rarity_from_str_str [codec]: "rarity_from_str (rarity_str r) = Inr r"
  by (cases r) (simp_all add: rarity_from_str_def lit_def)

lemma rarity_from_str_Inr: "rarity_from_str s = Inr r \<Longrightarrow> s = rarity_str r"
  by (auto simp: rarity_from_str_def split: if_splits)

text \<open>
  Charms and rarities are read back from their text, rarities also from their number, and
  nothing else is read as one.
\<close>

lemma charm_rarity_text:
  "(charm_from_str s = Inr c \<longleftrightarrow> s = charm_str c) \<and>
   (rarity_from_str s = Inr r \<longleftrightarrow> s = rarity_str r) \<and>
   (rarity_try_from n = Inr r \<longleftrightarrow> n = rarity_u8 r)"
proof (intro conjI)
  show "charm_from_str s = Inr c \<longleftrightarrow> s = charm_str c"
    using charm_from_str_str charm_from_str_Inr by blast
  show "rarity_from_str s = Inr r \<longleftrightarrow> s = rarity_str r"
    using rarity_from_str_str rarity_from_str_Inr by blast
  show "rarity_try_from n = Inr r \<longleftrightarrow> n = rarity_u8 r"
    by (cases r) (auto simp: rarity_try_from_def)
qed

end
