(* ===== verification/Pile.thy ===== *)
theory Pile
  imports Artifact
begin

text \<open>
  Amounts with a divisibility as text (\<^verbatim>\<open>crates/ordinals/src/pile.rs\<close>) and places of sats in
  outputs (\<^verbatim>\<open>sat_point.rs\<close>). Main facts: the digits printed denote the amount exactly,
  without trailing zeros, and printing panics exactly for a divisibility above 38; a sat point
  is read back from its text and from its bytes.

  Printing, parsing and encoding of an \<open>OutPoint\<close> and the encoding of a \<open>u64\<close> belong to the
  \<^verbatim>\<open>bitcoin\<close> crate and are parameters.
\<close>

section \<open>Piles\<close>

record pile =
  pl_amount :: u128
  pl_divisibility :: u8
  pl_symbol :: "uchar option"

definition checked_pow10 :: "nat \<Rightarrow> u128 option" where
  "checked_pow10 n = (if (10 :: nat) ^ n < 2 ^ 128 then Some (10 ^ n) else None)"

text \<open>The loop that strips zeros; the code enters it with a fraction that is not zero.\<close>

function strip_zeros :: "u128 \<Rightarrow> nat \<Rightarrow> u128 \<times> nat" where
  "strip_zeros fractional width =
     (if fractional \<noteq> 0 \<and> fractional mod 10 = 0 then strip_zeros (fractional div 10) (width - 1)
      else (fractional, width))"
  by pat_completeness auto
termination
proof (relation "measure (\<lambda>(f, w). unat f)", goal_cases)
  case 1
  show ?case by simp
next
  case (2 f w)
  then have "0 < unat f" by (simp add: unat_gt_0)
  then show ?case by (simp add: unat_div)
qed

declare strip_zeros.simps [simp del]

definition pad_zeros :: "nat \<Rightarrow> ustr \<Rightarrow> ustr" where
  "pad_zeros width s = replicate (width - length s) 48 @ s"

definition pile_fmt :: "pile \<Rightarrow> ustr option" where
  "pile_fmt p =
     do {
       cutoff \<leftarrow> checked_pow10 (unat (pl_divisibility p));
       let whole = pl_amount p div cutoff;
       let fractional = pl_amount p mod cutoff;
       let number =
         (if fractional = 0 then dec (unat whole)
          else
            (let (fractional, width) = strip_zeros fractional (unat (pl_divisibility p))
             in dec (unat whole) @ 46 # pad_zeros width (dec (unat fractional))));
       Some (number @ 0xA0 # [unwrap_or 0xA4 (pl_symbol p)])
     }"

section \<open>Digits\<close>

definition digits_val :: "ustr \<Rightarrow> nat" where
  "digits_val s = foldl (\<lambda>a c. a * 10 + (c - 48)) 0 s"

lemma digits_val_snoc [simp]: "digits_val (s @ [c]) = digits_val s * 10 + (c - 48)"
  by (simp add: digits_val_def)

lemma digits_val_dec: "digits_val (dec n) = n"
proof (induction n rule: dec.induct)
  case (1 n)
  show ?case
  proof (cases "n < 10")
    case True
    then show ?thesis by (simp add: dec.simps [of n] digits_val_def)
  next
    case False
    with 1 show ?thesis by (subst dec.simps) simp
  qed
qed

lemma digits_val_zeros: "digits_val (replicate k 48 @ s) = digits_val s"
proof -
  have "foldl (\<lambda>a c. a * 10 + (c - 48)) 0 (replicate k 48) = (0 :: nat)" by (induction k) simp_all
  then show ?thesis by (simp add: digits_val_def)
qed

lemma length_dec: "0 < k \<Longrightarrow> n < 10 ^ k \<Longrightarrow> length (dec n) \<le> k"
proof (induction n arbitrary: k rule: dec.induct)
  case (1 n)
  show ?case
  proof (cases "n < 10")
    case True
    with "1.prems" show ?thesis by (simp add: dec.simps [of n])
  next
    case False
    then obtain j where k: "k = Suc j" "0 < j"
      using "1.prems" by (cases k; cases "k - 1") auto
    have "n div 10 < 10 ^ j" using "1.prems" k by (simp add: less_mult_imp_div_less mult.commute)
    with "1.IH" [OF False, of j] k have "length (dec (n div 10)) \<le> j" by simp
    with False k show ?thesis by (subst dec.simps) simp
  qed
qed

lemma last_dec: "last (dec n) = 48 + n mod 10"
  by (subst dec.simps) simp

lemma strip_zeros_spec:
  assumes "f \<noteq> 0" "unat f < 10 ^ w"
  obtains f' w' where "strip_zeros f w = (f', w')" "w' \<le> w" "unat f = unat f' * 10 ^ (w - w')"
    "unat f' mod 10 \<noteq> 0" "unat f' < 10 ^ w'"
  using assms
proof (induction f w arbitrary: thesis rule: strip_zeros.induct)
  case (1 f w)
  have nz: "0 < unat f" using "1.prems"(2) by (simp add: unat_gt_0)
  have m: "f mod 10 = 0 \<longleftrightarrow> unat f mod 10 = 0" by (simp add: word_unat_eq_iff unat_mod)
  show ?case
  proof (cases "f mod 10 = 0")
    case False
    then show ?thesis
      using "1.prems" m by (intro "1.prems"(1) [of f w]) (simp_all add: strip_zeros.simps [of f w])
  next
    case True
    with m have d: "unat f = 10 * unat (f div 10)" by (auto simp: unat_div)
    with nz have f0: "f div 10 \<noteq> 0" by auto
    have "w \<noteq> 0" using "1.prems"(3) nz by (cases "w = 0") auto
    then obtain v where w: "w = Suc v" by (cases w) auto
    have less: "unat (f div 10) < 10 ^ (w - 1)" using "1.prems"(3) d w by simp
    obtain f' w' where s: "strip_zeros (f div 10) (w - 1) = (f', w')" "w' \<le> w - 1"
      "unat (f div 10) = unat f' * 10 ^ (w - 1 - w')" "unat f' mod 10 \<noteq> 0" "unat f' < 10 ^ w'"
      by (rule "1.IH" [OF conjI [OF "1.prems"(2) True] _ f0 less])
    show ?thesis
    proof (rule "1.prems"(1) [of f' w'])
      show "strip_zeros f w = (f', w')" using s(1) True "1.prems"(2) by (simp add: strip_zeros.simps [of f w])
      show "unat f = unat f' * 10 ^ (w - w')" using d s(2,3) w by (simp add: Suc_diff_le)
    qed (use s w in simp_all)
  qed
qed

lemma dec_digits: "set (dec n) \<subseteq> {48..57}"
  using dec_digit by force

lemma pad_zeros_digits: "set (pad_zeros w (dec n)) \<subseteq> {48..57}"
  using dec_digits [of n] by (auto simp: pad_zeros_def)

section \<open>Sat points\<close>

record sat_point =
  sp_outpoint :: out_point
  sp_offset :: u64

text \<open>\<open>rsplit_once(':')\<close>\<close>

definition rsplit_once :: "uchar \<Rightarrow> ustr \<Rightarrow> (ustr \<times> ustr) option" where
  "rsplit_once c s = map_option (\<lambda>(a, b). (rev b, rev a)) (split_once c (rev s))"

datatype 'e sat_point_error = SpColon ustr | SpOffset ustr parse_int_error | SpOutpoint ustr 'e

definition sat_point_fmt :: "(out_point \<Rightarrow> ustr) \<Rightarrow> sat_point \<Rightarrow> ustr" where
  "sat_point_fmt outpoint_fmt p = outpoint_fmt (sp_outpoint p) @ 58 # dec (unat (sp_offset p))"

definition sat_point_from_str ::
    "(ustr \<Rightarrow> 'e + out_point) \<Rightarrow> ustr \<Rightarrow> 'e sat_point_error + sat_point" where
  "sat_point_from_str outpoint_parse s =
     (case rsplit_once 58 s of
        None \<Rightarrow> Inl (SpColon s)
      | Some (outpoint, offset) \<Rightarrow>
          (case outpoint_parse outpoint of
             Inl err \<Rightarrow> Inl (SpOutpoint outpoint err)
           | Inr o1 \<Rightarrow>
               (case parse_uint (2 ^ 64) offset of
                  Inl err \<Rightarrow> Inl (SpOffset offset err)
                | Inr n \<Rightarrow> Inr \<lparr>sp_outpoint = o1, sp_offset = of_nat n\<rparr>)))"

definition sat_point_error_fmt :: "('e \<Rightarrow> ustr) \<Rightarrow> (parse_int_error \<Rightarrow> ustr) \<Rightarrow> 'e sat_point_error \<Rightarrow> ustr" where
  "sat_point_error_fmt outpoint_err int_err e =
     (case e of
        SpColon s \<Rightarrow> lit ''satpoint `'' @ s @ lit ''` missing colon''
      | SpOffset offset err \<Rightarrow> lit ''satpoint offset `'' @ offset @ lit ''` invalid: '' @ int_err err
      | SpOutpoint outpoint err \<Rightarrow>
          lit ''satpoint outpoint `'' @ outpoint @ lit ''` invalid: '' @ outpoint_err err)"

text \<open>An encoder appends bytes and returns their number, a decoder takes them off the input.\<close>

definition sat_point_encode ::
    "(out_point \<Rightarrow> u8 list) \<Rightarrow> (u64 \<Rightarrow> u8 list) \<Rightarrow> sat_point \<Rightarrow> u8 list \<Rightarrow> u8 list \<times> nat" where
  "sat_point_encode outpoint_bytes offset_bytes p out =
     (let len = length (outpoint_bytes (sp_outpoint p));
          out = out @ outpoint_bytes (sp_outpoint p)
      in (out @ offset_bytes (sp_offset p), len + length (offset_bytes (sp_offset p))))"

definition sat_point_decode ::
    "(u8 list \<Rightarrow> (out_point \<times> u8 list) option) \<Rightarrow> (u8 list \<Rightarrow> (u64 \<times> u8 list) option) \<Rightarrow> u8 list
     \<Rightarrow> (sat_point \<times> u8 list) option" where
  "sat_point_decode outpoint_decode offset_decode d =
     do {
       (o1, d) \<leftarrow> outpoint_decode d;
       (n, d) \<leftarrow> offset_decode d;
       Some (\<lparr>sp_outpoint = o1, sp_offset = n\<rparr>, d)
     }"

section \<open>Properties\<close>

text \<open>
  C40. The text of a pile denotes its amount exactly: the whole part in decimal, and after a
  point, unless the fraction is zero, decimal digits (\<open>0\<close> to \<open>9\<close> and nothing else, so that the
  fraction is padded with zeros) whose value scaled to the divisibility is the
  fraction, at most as many as the divisibility and not ending in zero. Printing panics exactly
  when the divisibility is above 38.
\<close>

theorem pile_fmt_exact:
  "case pile_fmt p of
     None \<Rightarrow> 38 < unat (pl_divisibility p)
   | Some s \<Rightarrow>
       unat (pl_divisibility p) \<le> 38 \<and>
       (\<exists>whole digits. s = whole @ (if digits = [] then [] else 46 # digits) @ [0xA0, unwrap_or 0xA4 (pl_symbol p)] \<and>
         whole = dec (unat (pl_amount p) div 10 ^ unat (pl_divisibility p)) \<and>
         set (whole @ digits) \<subseteq> {48..57} \<and>
         length digits \<le> unat (pl_divisibility p) \<and> last (46 # digits) \<noteq> 48 \<and>
         digits_val whole * 10 ^ unat (pl_divisibility p) +
           digits_val digits * 10 ^ (unat (pl_divisibility p) - length digits) = unat (pl_amount p))"
proof -
  let ?d = "unat (pl_divisibility p)" and ?a = "unat (pl_amount p)"
  have pow: "(10 :: nat) ^ ?d < 2 ^ 128 \<longleftrightarrow> ?d \<le> 38"
  proof
    assume "(10 :: nat) ^ ?d < 2 ^ 128"
    also have "(2 :: nat) ^ 128 < 10 ^ 39" by simp
    finally show "?d \<le> 38" by (simp add: power_strict_increasing_iff del: power_numeral)
  next
    assume "?d \<le> 38"
    then have "(10 :: nat) ^ ?d \<le> 10 ^ 38" by (intro power_increasing) simp_all
    also have "\<dots> < 2 ^ 128" by simp
    finally show "(10 :: nat) ^ ?d < 2 ^ 128" .
  qed
  show ?thesis
  proof (cases "?d \<le> 38")
    case False
    then show ?thesis using pow by (simp add: pile_fmt_def checked_pow10_def)
  next
    case True
    let ?c = "10 ^ ?d :: u128"
    have c: "unat ?c = 10 ^ ?d" using pow True unat_of_nat_small [of "10 ^ ?d", where 'a = 128] by simp
    have w: "unat (pl_amount p div ?c) = ?a div 10 ^ ?d" and f: "unat (pl_amount p mod ?c) = ?a mod 10 ^ ?d"
      by (simp_all add: unat_div unat_mod c)
    have a: "?a div 10 ^ ?d * 10 ^ ?d + ?a mod 10 ^ ?d = ?a" by (rule div_mult_mod_eq)
    show ?thesis
    proof (cases "pl_amount p mod ?c = 0")
      case z: True
      then have "?a mod 10 ^ ?d = 0" using f by simp
      with a have a': "?a div 10 ^ ?d * 10 ^ ?d = ?a" by simp
      have "pile_fmt p = Some (dec (?a div 10 ^ ?d) @ [0xA0, unwrap_or 0xA4 (pl_symbol p)])"
        using True pow z by (simp add: pile_fmt_def checked_pow10_def w)
      then show ?thesis
        using True a' by (simp only: option.case)
          (intro conjI exI [of _ "dec (?a div 10 ^ ?d)"] exI [of _ "[]"];
           simp add: digits_val_dec digits_val_def [of "[]"] dec_digits)
    next
      case nz: False
      have "unat (pl_amount p mod ?c) < 10 ^ ?d" by (simp add: f)
      then obtain f' w' where s: "strip_zeros (pl_amount p mod ?c) ?d = (f', w')" "w' \<le> ?d"
        "unat (pl_amount p mod ?c) = unat f' * 10 ^ (?d - w')" "unat f' mod 10 \<noteq> 0" "unat f' < 10 ^ w'"
        by (rule strip_zeros_spec [OF nz])
      have "w' \<noteq> 0" using s(4,5) by (cases "w' = 0") auto
      then have len: "length (pad_zeros w' (dec (unat f'))) = w'"
        using length_dec [OF _ s(5)] by (simp add: pad_zeros_def)
      have ne: "pad_zeros w' (dec (unat f')) \<noteq> []" by (simp add: pad_zeros_def)
      have "last (pad_zeros w' (dec (unat f'))) \<noteq> 48" using s(4) by (simp add: pad_zeros_def last_dec)
      moreover have "?a div 10 ^ ?d * 10 ^ ?d + unat f' * 10 ^ (?d - w') = ?a" using a s(3) f by simp
      moreover have "pile_fmt p = Some (dec (?a div 10 ^ ?d) @ 46 # pad_zeros w' (dec (unat f')) @
          [0xA0, unwrap_or 0xA4 (pl_symbol p)])"
        using True pow nz s(1) by (simp add: pile_fmt_def checked_pow10_def w)
      ultimately show ?thesis
        using True s(2) ne by (simp only: option.case)
          (intro conjI exI [of _ "dec (?a div 10 ^ ?d)"] exI [of _ "pad_zeros w' (dec (unat f'))"];
           simp add: digits_val_dec digits_val_zeros len dec_digits pad_zeros_digits;
           simp add: pad_zeros_def digits_val_zeros digits_val_dec)
    qed
  qed
qed

text \<open>
  A sat point is read back from its text and from its encoding, as far as the outpoint is:
  the last colon separates the offset whatever the text of the outpoint contains.
\<close>

lemma sat_point_round_trip:
  assumes "outpoint_parse (outpoint_fmt (sp_outpoint p)) = Inr (sp_outpoint p)"
    and "\<And>d. outpoint_decode (outpoint_bytes (sp_outpoint p) @ d) = Some (sp_outpoint p, d)"
    and "\<And>d. offset_decode (offset_bytes (sp_offset p) @ d) = Some (sp_offset p, d)"
  shows "sat_point_from_str outpoint_parse (sat_point_fmt outpoint_fmt p) = Inr p \<and>
    sat_point_decode outpoint_decode offset_decode
      (fst (sat_point_encode outpoint_bytes offset_bytes p []) @ rest) = Some (p, rest)"
proof -
  have "58 \<notin> set (dec (unat (sp_offset p)))" using dec_digit [of 58] by auto
  then have "rsplit_once 58 (sat_point_fmt outpoint_fmt p) =
      Some (outpoint_fmt (sp_outpoint p), dec (unat (sp_offset p)))"
    by (simp add: rsplit_once_def sat_point_fmt_def split_once_append)
  moreover have "unat (sp_offset p) < 2 ^ 64" using unsigned_less [of "sp_offset p"] by simp
  ultimately show ?thesis
    using assms by (simp add: sat_point_from_str_def parse_uint_dec sat_point_encode_def sat_point_decode_def
        ucast_id Let_def del: power_numeral)
qed

definition sample_point :: sat_point where
  "sample_point = \<lparr>sp_outpoint = \<lparr>op_txid = lit ''ab'', op_vout = 7\<rparr>, sp_offset = 9\<rparr>"

text \<open>A parser and codecs that know outpoints of the transaction \<open>ab\<close>.\<close>

definition sample_outpoint_fmt :: "out_point \<Rightarrow> ustr" where
  "sample_outpoint_fmt q = op_txid q @ 58 # dec (unat (op_vout q))"

definition sample_outpoint_parse :: "ustr \<Rightarrow> unit + out_point" where
  "sample_outpoint_parse s =
     (case split_once 58 s of None \<Rightarrow> Inl ()
      | Some (t, v) \<Rightarrow> (case parse_uint (2 ^ 32) v of Inl _ \<Rightarrow> Inl ()
        | Inr n \<Rightarrow> Inr \<lparr>op_txid = t, op_vout = of_nat n\<rparr>))"

lemma sat_point_round_trip_witness:
  "sat_point_from_str sample_outpoint_parse (sat_point_fmt sample_outpoint_fmt sample_point) = Inr sample_point \<and>
   sat_point_decode (\<lambda>d. Some (\<lparr>op_txid = lit ''ab'', op_vout = ucast (hd d)\<rparr>, tl d)) (\<lambda>d. Some (ucast (hd d), tl d))
     (fst (sat_point_encode (\<lambda>q. [ucast (op_vout q)]) (\<lambda>n. [ucast n]) sample_point []) @ [3]) = Some (sample_point, [3])"
proof (rule sat_point_round_trip)
  show "sample_outpoint_parse (sample_outpoint_fmt (sp_outpoint sample_point)) = Inr (sp_outpoint sample_point)"
    by (simp add: sample_outpoint_parse_def sample_outpoint_fmt_def sample_point_def lit_def parse_uint_dec)
qed (simp_all add: sample_point_def)

end
