(* ===== verification/Pg_Types.thy ===== *)
theory Pg_Types
  imports Artifact
begin

text \<open>
  The binary forms in which integers travel to and from Postgres (\<^verbatim>\<open>src/db/types/\<close>): 128 and
  64 bit integers as \<open>numeric\<close>, 32 bit ones as \<open>bigint\<close>, bytes as \<open>smallint\<close>. Main facts: what
  is written is read back, also after the server has dropped trailing groups of zeros, and a
  number that does not fit is read modulo \<open>2 ^ 128\<close>. \<open>None\<close> is a panic.
\<close>

section \<open>Big-endian bytes\<close>

text \<open>\<open>put_u16\<close>, \<open>put_i16\<close>, \<open>put_u64\<close> and \<open>from_be_bytes\<close>.\<close>

fun be_bytes :: "nat \<Rightarrow> nat \<Rightarrow> u8 list" where
  "be_bytes 0 n = []"
| "be_bytes (Suc k) n = be_bytes k (n div 256) @ [of_nat (n mod 256)]"

definition from_be_bytes :: "u8 list \<Rightarrow> nat" where
  "from_be_bytes bs = foldl (\<lambda>a b. a * 256 + unat b) 0 bs"

lemma length_be_bytes [simp]: "length (be_bytes k n) = k"
  by (induction k n rule: be_bytes.induct) simp_all

lemma from_be_bytes_be_bytes [codec]: "from_be_bytes (be_bytes k n) = n mod 256 ^ k"
proof (induction k n rule: be_bytes.induct)
  case (2 k n)
  have "unat (of_nat (n mod 256) :: u8) = n mod 256" by (intro unat_of_nat_small) simp
  with 2 have "from_be_bytes (be_bytes (Suc k) n) = n div 256 mod 256 ^ k * 256 + n mod 256"
    by (simp add: from_be_bytes_def)
  also have "\<dots> = n mod 256 ^ Suc k" by (simp add: mod_mult2_eq mult.commute)
  finally show ?case .
qed (simp add: from_be_bytes_def)

lemma be_bytes_add: "be_bytes (j + k) n = be_bytes j (n div 256 ^ k) @ be_bytes k n"
  by (induction k arbitrary: n) (simp_all add: div_mult2_eq)

section \<open>Numeric\<close>

function pg_digits :: "u128 \<Rightarrow> u16 list \<Rightarrow> u16 list" where
  "pg_digits num digits =
     (if num \<noteq> 0 then pg_digits (num div 10000) (digits @ [ucast (num mod 10000)]) else digits)"
  by pat_completeness auto
termination
proof (relation "measure (\<lambda>(n, d). unat n)", goal_cases)
  case 1
  show ?case by simp
next
  case (2 n d)
  then have "0 < unat n" by (simp add: unat_gt_0)
  then show ?case by (simp add: unat_div)
qed

declare pg_digits.simps [simp del]

definition pg_wire :: "nat \<Rightarrow> u16 list \<Rightarrow> u8 list" where
  "pg_wire weight digits =
     be_bytes 2 (length digits) @ be_bytes 2 weight @ be_bytes 2 0 @ be_bytes 2 0 @
     concat (map (\<lambda>d. be_bytes 2 (unat d)) digits)"

definition u128_into_pg_numeric_bytes :: "u128 \<Rightarrow> u8 list \<Rightarrow> u8 list" where
  "u128_into_pg_numeric_bytes number out =
     (let digits = rev (pg_digits number []);
          num_digits = length digits;
          weight = (if num_digits = 0 then 0 else num_digits - 1)
      in out @ pg_wire weight digits)"

definition read_two_bytes :: "u8 list \<Rightarrow> (u16 \<times> u8 list) option" where
  "read_two_bytes raw =
     (if length raw < 2 then None else Some (of_nat (from_be_bytes (take 2 raw)), drop 2 raw))"

fun read_groups :: "nat \<Rightarrow> u8 list \<Rightarrow> u16 list option" where
  "read_groups 0 raw = Some []"
| "read_groups (Suc n) raw =
     do { (g, raw) \<leftarrow> read_two_bytes raw; gs \<leftarrow> read_groups n raw; Some (g # gs) }"

text \<open>\<open>for i in 0..(weight + 1)\<close> over \<open>i16\<close>: empty when the bound is not positive.\<close>

definition pg_numeric_bytes_to_u128 :: "u8 list \<Rightarrow> u128 option" where
  "pg_numeric_bytes_to_u128 raw =
     do {
       (num_groups, raw) \<leftarrow> read_two_bytes raw;
       (weight, raw) \<leftarrow> read_two_bytes raw;
       (sign, raw) \<leftarrow> read_two_bytes raw;
       (scale, raw) \<leftarrow> read_two_bytes raw;
       groups \<leftarrow> read_groups (unat num_groups) raw;
       Some (fold (\<lambda>i result.
           result + ucast (unwrap_or 0 (vec_get groups i)) * 10000 ^ (unat weight - i))
         [0..<nat (sint (weight + 1))] 0)
     }"

definition u64_from_sql :: "u8 list \<Rightarrow> u64 option" where
  "u64_from_sql raw = do { n \<leftarrow> pg_numeric_bytes_to_u128 raw; try_from n }"

definition u64_to_sql :: "u64 \<Rightarrow> u8 list \<Rightarrow> u8 list" where
  "u64_to_sql n out = u128_into_pg_numeric_bytes (ucast n) out"

section \<open>Bigint and smallint\<close>

definition u32_to_sql :: "u32 \<Rightarrow> u8 list \<Rightarrow> u8 list" where
  "u32_to_sql n out = out @ be_bytes 8 (unat n)"

definition u32_from_sql :: "u8 list \<Rightarrow> u32 option" where
  "u32_from_sql raw =
     (if length raw < 8 then None else Some (of_nat (from_be_bytes (take 4 (drop 4 raw)))))"

definition u8_to_sql :: "u8 \<Rightarrow> u8 list \<Rightarrow> u8 list" where
  "u8_to_sql n out = out @ be_bytes 2 (unat n)"

definition u8_from_sql :: "u8 list \<Rightarrow> u8 option" where
  "u8_from_sql raw =
     (if length raw < 2 then None else Some (of_nat (from_be_bytes (take 1 (drop 1 raw)))))"

section \<open>Reading what was written\<close>

lemma read_two_bytes_be: "n < 2 ^ 16 \<Longrightarrow> read_two_bytes (be_bytes 2 n @ rest) = Some (of_nat n, rest)"
  by (simp add: read_two_bytes_def from_be_bytes_be_bytes)

lemma read_groups_wire:
  "read_groups (length gs) (concat (map (\<lambda>d. be_bytes 2 (unat d)) gs) @ rest) = Some gs"
proof (induction gs)
  case (Cons g gs)
  have "unat g < 2 ^ 16" using unsigned_less [of g] by simp
  then show ?case using Cons by (simp add: read_two_bytes_be ucast_id del: power_numeral)
qed simp

lemma fold_sum: "fold (\<lambda>i r. r + f i) xs (a :: 'a::comm_monoid_add) = a + sum_list (map f xs)"
  by (induction xs arbitrary: a) (simp_all add: add.assoc)

lemma of_nat_sums: "of_nat (\<Sum>x\<leftarrow>xs. f x) = (\<Sum>x\<leftarrow>xs. of_nat (f x))"
  by (induction xs) simp_all

text \<open>The number a weight and its groups stand for.\<close>

definition wire_value :: "nat \<Rightarrow> u16 list \<Rightarrow> nat" where
  "wire_value w gs = (\<Sum>i\<leftarrow>[0..<Suc w]. unat (unwrap_or 0 (vec_get gs i)) * 10000 ^ (w - i))"

lemma decode_wire:
  assumes "length gs < 2 ^ 16" "w < 2 ^ 15 - 1"
  shows "pg_numeric_bytes_to_u128 (pg_wire w gs) = Some (of_nat (wire_value w gs))"
proof -
  have w16: "w < 2 ^ 16" using assms(2) by simp
  have w: "unat (of_nat w :: u16) = w" using assms(2) by (intro unat_of_nat_small) simp
  have "sint (of_nat (Suc w) :: u16) = int (Suc w)"
    using assms(2) by (subst signed_of_nat, subst signed_take_bit_int_eq_self) simp_all
  then have s: "nat (sint (of_nat w + 1 :: u16)) = Suc w" by (simp add: add.commute)
  have l: "unat (of_nat (length gs) :: u16) = length gs" using assms(1) by (simp add: unat_of_nat_small)
  have g: "read_groups (length gs) (concat (map (\<lambda>d. be_bytes 2 (unat d)) gs)) = Some gs"
    using read_groups_wire [of gs "[]"] by simp
  have u: "(of_nat (unat x * 10000 ^ k) :: u128) = ucast x * 10000 ^ k" for x :: u16 and k
    by simp
  have "pg_numeric_bytes_to_u128 (pg_wire w gs) =
      Some (fold (\<lambda>i r. r + ucast (unwrap_or 0 (vec_get gs i)) * 10000 ^ (w - i)) [0..<Suc w] 0)"
    using assms w w16 s l g
    by (simp add: pg_numeric_bytes_to_u128_def pg_wire_def read_two_bytes_be del: upt_Suc power_numeral)
  also have "\<dots> = Some (of_nat (wire_value w gs))"
    by (simp add: fold_sum wire_value_def of_nat_sums u del: upt_Suc)
  finally show ?thesis .
qed

text \<open>The server drops trailing groups of zeros; reading fills them in again.\<close>

lemma wire_value_zeros [simp]: "wire_value w (gs @ replicate k 0) = wire_value w gs"
proof -
  have "unwrap_or 0 (vec_get (gs @ replicate k 0) i) = unwrap_or 0 (vec_get gs i)" for i
    by (simp add: vec_get_def unwrap_or_def nth_append)
  then show ?thesis by (simp add: wire_value_def)
qed

lemma vec_get_Cons_Suc [simp]: "vec_get (x # xs) (Suc i) = vec_get xs i"
  by (simp add: vec_get_def)

fun limbs :: "u16 list \<Rightarrow> nat" where
  "limbs [] = 0"
| "limbs (d # ds) = unat d + 10000 * limbs ds"

lemma wire_value_Cons: "wire_value (Suc w) (g # gs) = unat g * 10000 ^ Suc w + wire_value w gs"
proof -
  have "wire_value (Suc w) (g # gs) =
      (\<Sum>i\<leftarrow>0 # map Suc [0..<Suc w]. unat (unwrap_or 0 (vec_get (g # gs) i)) * 10000 ^ (Suc w - i))"
    unfolding wire_value_def by (simp only: map_Suc_upt upt_conv_Cons [OF zero_less_Suc, of "Suc w"])
  also have "\<dots> = unat g * 10000 ^ Suc w + wire_value w gs"
    by (simp add: wire_value_def comp_def vec_get_def [of "g # gs" 0] unwrap_or_def [of 0 "Some g"]
      del: upt_Suc)
  finally show ?thesis .
qed

lemma limbs_append: "limbs (xs @ ys) = limbs xs + 10000 ^ length xs * limbs ys"
  by (induction xs) (simp_all add: algebra_simps)

lemma wire_value_limbs: "gs \<noteq> [] \<Longrightarrow> wire_value (length gs - 1) gs = limbs (rev gs)"
proof (induction gs)
  case (Cons g gs)
  show ?case
  proof (cases gs)
    case Nil
    then show ?thesis by (simp add: wire_value_def vec_get_def unwrap_or_def)
  next
    case (Cons h t)
    then have "wire_value (length t) gs = limbs (rev gs)" using Cons.IH by simp
    then show ?thesis
      using wire_value_Cons [of "length t" g gs] Cons by (simp add: limbs_append algebra_simps)
  qed
qed simp

lemma pg_digits_limbs:
  "\<exists>ds. pg_digits n acc = acc @ ds \<and> limbs ds = unat n \<and> (\<forall>k. unat n < 10000 ^ k \<longrightarrow> length ds \<le> k)"
proof (induction n acc rule: pg_digits.induct)
  case (1 n acc)
  show ?case
  proof (cases "n = 0")
    case True
    then show ?thesis by (intro exI [of _ "[]"]) (simp add: pg_digits.simps [of 0])
  next
    case False
    define d :: u16 where "d = ucast (n mod 10000)"
    have "unat (n mod 10000) < 10000" by (simp add: unat_mod)
    then have d: "unat d = unat n mod 10000"
      by (simp add: d_def unat_mod unsigned_ucast_eq take_bit_nat_eq_self)
    obtain ds where ds: "pg_digits (n div 10000) (acc @ [d]) = (acc @ [d]) @ ds"
        "limbs ds = unat (n div 10000)" "\<forall>k. unat (n div 10000) < 10000 ^ k \<longrightarrow> length ds \<le> k"
      using 1 [OF False] unfolding d_def by blast
    have "length (d # ds) \<le> k" if "unat n < 10000 ^ k" for k
    proof (cases k)
      case 0
      then show ?thesis using that False by (simp add: unat_eq_0)
    next
      case (Suc j)
      then have "unat (n div 10000) < 10000 ^ j" using that
        by (simp add: unat_div less_mult_imp_div_less mult.commute)
      then show ?thesis using ds(3) Suc by simp
    qed
    moreover have "pg_digits n acc = acc @ d # ds"
      using False ds(1) by (simp add: pg_digits.simps [of n] d_def)
    moreover have "limbs (d # ds) = unat n" using ds(2) d by (simp add: unat_div)
    ultimately show ?thesis by blast
  qed
qed

lemma u128_limbs: "unat (n :: u128) < 10000 ^ 10"
proof -
  have "unat n < 2 ^ 128" using unsigned_less [of n] by simp
  then show ?thesis by simp
qed

definition pg_groups :: "u128 \<Rightarrow> u16 list" where
  "pg_groups n = rev (pg_digits n [])"

lemma into_wire: "u128_into_pg_numeric_bytes n out = out @ pg_wire (length (pg_groups n) - 1) (pg_groups n)"
  by (simp add: u128_into_pg_numeric_bytes_def pg_groups_def Let_def)

lemma pg_groups: "length (pg_groups n) \<le> 10" "wire_value (length (pg_groups n) - 1) (pg_groups n) = unat n"
proof -
  obtain ds where ds: "pg_digits n [] = ds" "limbs ds = unat n" "length ds \<le> 10"
    using pg_digits_limbs [of n "[]"] u128_limbs [of n] by auto
  then show "length (pg_groups n) \<le> 10" by (simp add: pg_groups_def)
  show "wire_value (length (pg_groups n) - 1) (pg_groups n) = unat n"
  proof (cases "ds = []")
    case True
    then show ?thesis using ds by (simp add: pg_groups_def wire_value_def vec_get_def unwrap_or_def)
  next
    case False
    then show ?thesis using wire_value_limbs [of "rev ds"] ds by (simp add: pg_groups_def)
  qed
qed

lemma decode_groups:
  assumes "pg_groups n = gs @ replicate k 0"
  shows "pg_numeric_bytes_to_u128 (pg_wire (length (pg_groups n) - 1) gs) = Some n"
proof -
  have "length gs \<le> 10" "length (pg_groups n) \<le> 10" using pg_groups(1) [of n] assms by simp_all
  then have "pg_numeric_bytes_to_u128 (pg_wire (length (pg_groups n) - 1) gs) =
      Some (of_nat (wire_value (length (pg_groups n) - 1) (gs @ replicate k 0)))"
    by (subst decode_wire) simp_all
  then show ?thesis using pg_groups(2) [of n] by (simp flip: assms)
qed

lemma decode_into: "pg_numeric_bytes_to_u128 (u128_into_pg_numeric_bytes n []) = Some n"
  using decode_groups [of n "pg_groups n" 0] by (simp add: into_wire)

section \<open>Properties\<close>

text \<open>
  A 128 bit integer written to a \<open>numeric\<close> column is read back unchanged, also when the server
  returns it without its trailing groups of zeros.
\<close>

lemma pg_numeric_round_trip:
  assumes "rev (pg_digits n []) = gs @ replicate k 0"
  shows "pg_numeric_bytes_to_u128 (u128_into_pg_numeric_bytes n []) = Some n \<and>
    pg_numeric_bytes_to_u128 (pg_wire (length gs + k - 1) gs) = Some n"
  using decode_into decode_groups [of n gs k] assms by (simp_all add: pg_groups_def)

theorem pg_numeric_round_trip_witness:
  "pg_numeric_bytes_to_u128 (u128_into_pg_numeric_bytes 80000000000000000 []) =
     Some 80000000000000000 \<and>
   pg_numeric_bytes_to_u128 (pg_wire 4 [8]) = Some 80000000000000000"
proof -
  have r: "replicate 4 (0 :: u16) = [0, 0, 0, 0]" by (simp add: numeral_eq_Suc)
  have "rev (pg_digits 80000000000000000 []) = [8] @ replicate 4 0"
    by (simp add: pg_digits.simps r)
  from pg_numeric_round_trip [OF this] show ?thesis by simp
qed

text \<open>
  The other integer columns: what is written to a \<open>numeric\<close>, \<open>bigint\<close> or \<open>smallint\<close> column from
  64, 32 and 8 bits is read back unchanged.
\<close>

lemma pg_integers_round_trip:
  "u64_from_sql (u64_to_sql a []) = Some a \<and> u32_from_sql (u32_to_sql b []) = Some b \<and>
   u8_from_sql (u8_to_sql c []) = Some c"
proof -
  have "u64_from_sql (u64_to_sql a []) = Some a"
    by (simp add: u64_from_sql_def u64_to_sql_def decode_into)
  moreover have b: "unat b mod 4294967296 = unat b" using unsigned_less [of b] by (intro mod_less) simp
  moreover have c: "unat c mod 256 = unat c" using unsigned_less [of c] by (intro mod_less) simp
  moreover have "u32_from_sql (u32_to_sql b []) = Some b"
    using be_bytes_add [of 4 4 "unat b"] b
    by (simp add: u32_from_sql_def u32_to_sql_def from_be_bytes_be_bytes)
  moreover have "u8_from_sql (u8_to_sql c []) = Some c"
    using be_bytes_add [of 1 1 "unat c", unfolded one_add_one] c
    by (simp add: u8_from_sql_def u8_to_sql_def from_be_bytes_def)
  ultimately show ?thesis by blast
qed

end
