(* ===== verification/Sql_Rows.thy ===== *)
theory Sql_Rows
  imports Pg_Types Database
begin

text \<open>
  The rows of the tables as they travel to and from Postgres: the parameters of the insertions
  of \<^verbatim>\<open>src/db/mod.rs\<close> and the reading of rows in \<^verbatim>\<open>src/db/models/\<close>. Main facts: a ledger entry is read
  back as it was written, a rune up to its column \<open>cenotaph\<close>, which the insertion leaves out; and
  no statement has more parameters than the protocol allows. This is why \<^verbatim>\<open>Database\<close> can hold
  the rows themselves.

  \<open>None\<close> is the panic of \<open>row.get\<close>.
\<close>

section \<open>Columns\<close>

text \<open>A value of a column in binary form, with the type of the column.\<close>

datatype cell =
  Null
| Text ustr
| Numeric "u8 list"
| Bigint "u8 list"
| Smallint "u8 list"
| Enum "u8 list"
| Flag bool

type_synonym pg_row = "ustr \<Rightarrow> cell option"

definition cell_u128 :: "u128 \<Rightarrow> cell" where
  "cell_u128 n = Numeric (u128_into_pg_numeric_bytes n [])"

definition cell_u64 :: "u64 \<Rightarrow> cell" where
  "cell_u64 n = Numeric (u64_to_sql n [])"

definition cell_u32 :: "u32 \<Rightarrow> cell" where
  "cell_u32 n = Bigint (u32_to_sql n [])"

definition cell_u8 :: "u8 \<Rightarrow> cell" where
  "cell_u8 n = Smallint (u8_to_sql n [])"

definition cell_opt :: "('a \<Rightarrow> cell) \<Rightarrow> 'a option \<Rightarrow> cell" where
  "cell_opt f x = (case x of None \<Rightarrow> Null | Some a \<Rightarrow> f a)"

text \<open>\<open>as_str().as_bytes()\<close> of ASCII words.\<close>

definition operation_to_sql :: "operation \<Rightarrow> u8 list \<Rightarrow> u8 list" where
  "operation_to_sql x out = out @ map of_nat (operation_str x)"

text \<open>Bytes that are not UTF-8 and words that are not operations are errors alike.\<close>

definition operation_from_sql :: "u8 list \<Rightarrow> operation option" where
  "operation_from_sql raw = (case operation_from_str (map unat raw) of Inl _ \<Rightarrow> None | Inr x \<Rightarrow> Some x)"

text \<open>\<open>row.get\<close> at the types of the code; each type accepts columns of one type.\<close>

fun text_from :: "cell \<Rightarrow> ustr option" where
  "text_from (Text s) = Some s"
| "text_from _ = None"

fun u128_from :: "cell \<Rightarrow> u128 option" where
  "u128_from (Numeric raw) = pg_numeric_bytes_to_u128 raw"
| "u128_from _ = None"

fun u64_from :: "cell \<Rightarrow> u64 option" where
  "u64_from (Numeric raw) = u64_from_sql raw"
| "u64_from _ = None"

fun u32_from :: "cell \<Rightarrow> u32 option" where
  "u32_from (Bigint raw) = u32_from_sql raw"
| "u32_from _ = None"

fun u8_from :: "cell \<Rightarrow> u8 option" where
  "u8_from (Smallint raw) = u8_from_sql raw"
| "u8_from _ = None"

fun operation_from :: "cell \<Rightarrow> operation option" where
  "operation_from (Enum raw) = operation_from_sql raw"
| "operation_from _ = None"

fun flag_from :: "cell \<Rightarrow> bool option" where
  "flag_from (Flag b) = Some b"
| "flag_from _ = None"

definition get_col :: "pg_row \<Rightarrow> (cell \<Rightarrow> 'a option) \<Rightarrow> string \<Rightarrow> 'a option" where
  "get_col row rd name = Option.bind (row (lit name)) rd"

definition get_opt :: "pg_row \<Rightarrow> (cell \<Rightarrow> 'a option) \<Rightarrow> string \<Rightarrow> 'a option option" where
  "get_opt row rd name =
     Option.bind (row (lit name)) (\<lambda>c. if c = Null then Some None else map_option Some (rd c))"

section \<open>Ledger entries\<close>

definition ledger_columns :: "string list" where
  "ledger_columns =
     [''rune_id'', ''block_hash'', ''block_height'', ''tx_index'', ''event_index'', ''tx_id'', ''output'', ''address'',
      ''receiver_address'', ''amount'', ''operation'', ''timestamp'']"

definition ledger_params :: "ledger_entry \<Rightarrow> cell list" where
  "ledger_params e =
     [Text (le_rune_id e), Text (le_block_hash e), cell_u64 (le_block_height e), cell_u32 (le_tx_index e),
      cell_u32 (le_event_index e), Text (le_tx_id e), cell_opt cell_u32 (le_output e),
      cell_opt Text (le_address e), cell_opt Text (le_receiver e), cell_opt cell_u128 (le_amount e),
      Enum (operation_to_sql (le_operation e) []), cell_u32 (le_timestamp e)]"

definition ledger_from_pg_row :: "pg_row \<Rightarrow> ledger_entry option" where
  "ledger_from_pg_row row =
     do {
       rid \<leftarrow> get_col row text_from ''rune_id'';
       hash \<leftarrow> get_col row text_from ''block_hash'';
       height \<leftarrow> get_col row u64_from ''block_height'';
       tx_index \<leftarrow> get_col row u32_from ''tx_index'';
       event_index \<leftarrow> get_col row u32_from ''event_index'';
       txid \<leftarrow> get_col row text_from ''tx_id'';
       out \<leftarrow> get_opt row u32_from ''output'';
       address \<leftarrow> get_opt row text_from ''address'';
       receiver \<leftarrow> get_opt row text_from ''receiver_address'';
       amount \<leftarrow> get_opt row u128_from ''amount'';
       op \<leftarrow> get_col row operation_from ''operation'';
       timestamp \<leftarrow> get_col row u32_from ''timestamp'';
       Some \<lparr>le_rune_id = rid, le_block_hash = hash, le_block_height = height, le_tx_index = tx_index,
         le_event_index = event_index, le_tx_id = txid, le_output = out, le_address = address,
         le_receiver = receiver, le_amount = amount, le_operation = op, le_timestamp = timestamp\<rparr>
     }"

section \<open>Runes\<close>

definition rune_columns :: "string list" where
  "rune_columns =
     [''id'', ''number'', ''name'', ''spaced_name'', ''block_hash'', ''block_height'', ''tx_index'', ''tx_id'',
      ''divisibility'', ''premine'', ''symbol'', ''terms_amount'', ''terms_cap'', ''terms_height_start'',
      ''terms_height_end'', ''terms_offset_start'', ''terms_offset_end'', ''turbo'', ''timestamp'']"

definition rune_params :: "db_rune \<Rightarrow> cell list" where
  "rune_params r =
     [Text (dr_id r), cell_u32 (dr_number r), Text (dr_name r), Text (dr_spaced_name r), Text (dr_block_hash r),
      cell_u64 (dr_block_height r), cell_u32 (dr_tx_index r), Text (dr_tx_id r), cell_u8 (dr_divisibility r),
      cell_u128 (dr_premine r), Text (dr_symbol r), cell_opt cell_u128 (dr_terms_amount r),
      cell_opt cell_u128 (dr_terms_cap r), cell_opt cell_u64 (dr_terms_height_start r),
      cell_opt cell_u64 (dr_terms_height_end r), cell_opt cell_u64 (dr_terms_offset_start r),
      cell_opt cell_u64 (dr_terms_offset_end r), Flag (dr_turbo r), cell_u32 (dr_timestamp r)]"

definition rune_from_pg_row :: "pg_row \<Rightarrow> db_rune option" where
  "rune_from_pg_row row =
     do {
       i \<leftarrow> get_col row text_from ''id'';
       number \<leftarrow> get_col row u32_from ''number'';
       name \<leftarrow> get_col row text_from ''name'';
       spaced_name \<leftarrow> get_col row text_from ''spaced_name'';
       hash \<leftarrow> get_col row text_from ''block_hash'';
       height \<leftarrow> get_col row u64_from ''block_height'';
       tx_index \<leftarrow> get_col row u32_from ''tx_index'';
       txid \<leftarrow> get_col row text_from ''tx_id'';
       divisibility \<leftarrow> get_col row u8_from ''divisibility'';
       premine \<leftarrow> get_col row u128_from ''premine'';
       symbol \<leftarrow> get_col row text_from ''symbol'';
       amount \<leftarrow> get_opt row u128_from ''terms_amount'';
       cap \<leftarrow> get_opt row u128_from ''terms_cap'';
       height_start \<leftarrow> get_opt row u64_from ''terms_height_start'';
       height_end \<leftarrow> get_opt row u64_from ''terms_height_end'';
       offset_start \<leftarrow> get_opt row u64_from ''terms_offset_start'';
       offset_end \<leftarrow> get_opt row u64_from ''terms_offset_end'';
       turbo \<leftarrow> get_col row flag_from ''turbo'';
       cenotaph \<leftarrow> get_col row flag_from ''cenotaph'';
       timestamp \<leftarrow> get_col row u32_from ''timestamp'';
       Some \<lparr>dr_id = i, dr_number = number, dr_name = name, dr_spaced_name = spaced_name, dr_block_hash = hash,
         dr_block_height = height, dr_tx_index = tx_index, dr_tx_id = txid, dr_divisibility = divisibility,
         dr_premine = premine, dr_symbol = symbol, dr_terms_amount = amount, dr_terms_cap = cap,
         dr_terms_height_start = height_start, dr_terms_height_end = height_end,
         dr_terms_offset_start = offset_start, dr_terms_offset_end = offset_end, dr_turbo = turbo,
         dr_cenotaph = cenotaph, dr_timestamp = timestamp\<rparr>
     }"

section \<open>The server\<close>

text \<open>
  The server gives back the values it was given, columns that were left out at their defaults. A
  number comes in its own form \<open>num\<close>, which may drop trailing groups of zeros.
\<close>

fun returned :: "(u8 list \<Rightarrow> u8 list) \<Rightarrow> cell \<Rightarrow> cell" where
  "returned num (Numeric raw) = Numeric (num raw)"
| "returned num c = c"

definition numbers_kept :: "(u8 list \<Rightarrow> u8 list) \<Rightarrow> bool" where
  "numbers_kept num \<longleftrightarrow>
     (\<forall>n. \<exists>gs k. rev (pg_digits n []) = gs @ replicate k 0 \<and>
        num (u128_into_pg_numeric_bytes n []) = pg_wire (length gs + k - 1) gs)"

definition stored :: "(u8 list \<Rightarrow> u8 list) \<Rightarrow> string list \<Rightarrow> cell list \<Rightarrow> (string \<times> cell) list \<Rightarrow> pg_row" where
  "stored num columns params defaults =
     map_of (map (\<lambda>(name, c). (lit name, c)) (zip columns (map (returned num) params) @ defaults))"

section \<open>Reading back\<close>

lemma lit_eq: "lit s = lit t \<longleftrightarrow> s = t"
proof -
  have "inj (of_char :: char \<Rightarrow> nat)" by (simp add: inj_def)
  then show ?thesis by (simp add: lit_def inj_map_eq_map)
qed

lemma operation_read: "operation_from_sql (operation_to_sql x []) = Some x"
  by (cases x) (simp_all add: operation_from_sql_def operation_to_sql_def operation_from_str_def lit_def unat_of_nat take_bit_nat_eq_self)

lemma cells_read:
  assumes "numbers_kept num"
  shows "u128_from (returned num (cell_u128 n)) = Some n" "u64_from (returned num (cell_u64 h)) = Some h"
    "u32_from (returned num (cell_u32 i)) = Some i" "u8_from (returned num (cell_u8 b)) = Some b"
    "operation_from (returned num (Enum (operation_to_sql x []))) = Some x"
proof -
  have num: "pg_numeric_bytes_to_u128 (num (u128_into_pg_numeric_bytes m [])) = Some m" for m
  proof -
    obtain gs k where g: "rev (pg_digits m []) = gs @ replicate k 0"
      "num (u128_into_pg_numeric_bytes m []) = pg_wire (length gs + k - 1) gs"
      using assms unfolding numbers_kept_def by blast
    from decode_groups [of m gs k] g show ?thesis by (simp add: pg_groups_def)
  qed
  show "u128_from (returned num (cell_u128 n)) = Some n" "u64_from (returned num (cell_u64 h)) = Some h"
    using num by (simp_all add: cell_u128_def cell_u64_def u64_to_sql_def u64_from_sql_def)
  show "u32_from (returned num (cell_u32 i)) = Some i" "u8_from (returned num (cell_u8 b)) = Some b"
    using pg_integers_round_trip by (simp_all add: cell_u32_def cell_u8_def)
  show "operation_from (returned num (Enum (operation_to_sql x []))) = Some x"
    by (simp add: operation_read)
qed

lemma stored_lookup:
  assumes "length columns = length params"
  shows "stored num columns params defaults (lit name) =
    (case map_of (zip columns params) name of Some c \<Rightarrow> Some (returned num c) | None \<Rightarrow> map_of defaults name)"
proof -
  have lits: "map_of (map (\<lambda>(s, c). (lit s, c)) xs) (lit name) = map_of xs name" for xs :: "(string \<times> cell) list"
    by (induction xs) (auto simp: lit_eq)
  have "map_of (zip columns (map (returned num) params)) = map_option (returned num) \<circ> map_of (zip columns params)"
    by (simp add: map_of_map zip_map2)
  then show ?thesis
    by (simp add: stored_def lits map_of_append map_add_def del: map_append split: option.split)
qed

lemma get_opt_read:
  assumes "row (lit name) = Some (returned num (cell_opt f x))"
    and "\<And>a. rd (returned num (f a)) = Some a" "\<And>a. f a \<noteq> Null"
  shows "get_opt row rd name = Some x"
proof -
  have "returned num (f a) \<noteq> Null" for a using assms(3) [of a] by (cases "f a") simp_all
  with assms(1,2) show ?thesis by (cases x) (simp_all add: get_opt_def cell_opt_def)
qed

lemma get_col_read:
  "row (lit name) = Some c \<Longrightarrow> rd c = Some a \<Longrightarrow> get_col row rd name = Some a"
  by (simp add: get_col_def)

lemma cell_not_null: "cell_u128 n \<noteq> Null" "cell_u64 h \<noteq> Null" "cell_u32 i \<noteq> Null" "Text s \<noteq> Null"
  by (simp_all add: cell_u128_def cell_u64_def cell_u32_def)

lemmas opt_reads = get_opt_read [where f = cell_u128, OF _ cells_read(1) cell_not_null(1)]
  get_opt_read [where f = cell_u64, OF _ cells_read(2) cell_not_null(2)]
  get_opt_read [where f = cell_u32, OF _ cells_read(3) cell_not_null(3)]
  get_opt_read [where f = Text and rd = text_from, simplified]

lemma ledger_read:
  assumes "numbers_kept num"
  shows "ledger_from_pg_row (stored num ledger_columns (ledger_params e) []) = Some e"
proof -
  let ?row = "stored num ledger_columns (ledger_params e) []"
  have l: "length ledger_columns = length (ledger_params e)" by (simp add: ledger_columns_def ledger_params_def)
  note look = stored_lookup [OF l, of num "[]"] and defs = ledger_columns_def ledger_params_def
  have "get_col ?row text_from ''rune_id'' = Some (le_rune_id e)" "get_col ?row text_from ''block_hash'' = Some (le_block_hash e)"
    "get_col ?row text_from ''tx_id'' = Some (le_tx_id e)"
    by (simp_all add: get_col_def look) (simp_all add: defs)
  moreover have "get_col ?row u64_from ''block_height'' = Some (le_block_height e)"
    "get_col ?row u32_from ''tx_index'' = Some (le_tx_index e)" "get_col ?row u32_from ''event_index'' = Some (le_event_index e)"
    "get_col ?row u32_from ''timestamp'' = Some (le_timestamp e)"
    "get_col ?row operation_from ''operation'' = Some (le_operation e)"
    by (simp_all add: get_col_def look) (simp_all add: defs cells_read [OF assms] del: returned.simps)
  moreover have "get_opt ?row u32_from ''output'' = Some (le_output e)" "get_opt ?row text_from ''address'' = Some (le_address e)"
    "get_opt ?row text_from ''receiver_address'' = Some (le_receiver e)" "get_opt ?row u128_from ''amount'' = Some (le_amount e)"
    by (rule opt_reads(1,2,3) [OF _ assms] opt_reads(4); simp add: look; simp add: defs)+
  ultimately show ?thesis by (simp add: ledger_from_pg_row_def)
qed

lemma rune_read:
  assumes "numbers_kept num"
  shows "rune_from_pg_row (stored num rune_columns (rune_params r) [(''cenotaph'', Flag False)]) = Some (r\<lparr>dr_cenotaph := False\<rparr>)"
proof -
  let ?row = "stored num rune_columns (rune_params r) [(''cenotaph'', Flag False)]"
  have l: "length rune_columns = length (rune_params r)" by (simp add: rune_columns_def rune_params_def)
  note look = stored_lookup [OF l, of num "[(''cenotaph'', Flag False)]"] and defs = rune_columns_def rune_params_def
  have "get_col ?row text_from ''id'' = Some (dr_id r)" "get_col ?row text_from ''name'' = Some (dr_name r)"
    "get_col ?row text_from ''spaced_name'' = Some (dr_spaced_name r)" "get_col ?row text_from ''block_hash'' = Some (dr_block_hash r)"
    "get_col ?row text_from ''tx_id'' = Some (dr_tx_id r)" "get_col ?row text_from ''symbol'' = Some (dr_symbol r)"
    "get_col ?row flag_from ''turbo'' = Some (dr_turbo r)" "get_col ?row flag_from ''cenotaph'' = Some False"
    by (simp_all add: get_col_def look) (simp_all add: defs)
  moreover have "get_col ?row u64_from ''block_height'' = Some (dr_block_height r)"
    "get_col ?row u32_from ''number'' = Some (dr_number r)" "get_col ?row u32_from ''tx_index'' = Some (dr_tx_index r)"
    "get_col ?row u32_from ''timestamp'' = Some (dr_timestamp r)" "get_col ?row u8_from ''divisibility'' = Some (dr_divisibility r)"
    "get_col ?row u128_from ''premine'' = Some (dr_premine r)"
    by (simp_all add: get_col_def look) (simp_all add: defs cells_read [OF assms] del: returned.simps)
  moreover have "get_opt ?row u128_from ''terms_amount'' = Some (dr_terms_amount r)" "get_opt ?row u128_from ''terms_cap'' = Some (dr_terms_cap r)"
    "get_opt ?row u64_from ''terms_height_start'' = Some (dr_terms_height_start r)"
    "get_opt ?row u64_from ''terms_height_end'' = Some (dr_terms_height_end r)"
    "get_opt ?row u64_from ''terms_offset_start'' = Some (dr_terms_offset_start r)"
    "get_opt ?row u64_from ''terms_offset_end'' = Some (dr_terms_offset_end r)"
    by (rule opt_reads(1,2) [OF _ assms]; simp add: look; simp add: defs)+
  ultimately show ?thesis by (simp add: rune_from_pg_row_def)
qed

text \<open>
  The rows of a statement are those of one chunk, and the protocol counts parameters in 16 bits.
\<close>

lemma chunks_length: "0 < n \<Longrightarrow> ys \<in> set (chunks n xs) \<Longrightarrow> length ys \<le> n"
  by (induction n xs rule: chunks.induct) (subst (asm) (2) chunks.simps, auto split: if_splits)

lemma statement_parameters:
  assumes "rs \<in> set (chunks 500 rows)"
  shows "length (concat (map rune_params rs)) < 2 ^ 16"
    and "es \<in> set (chunks 500 entries) \<Longrightarrow> length (concat (map ledger_params es)) < 2 ^ 16"
proof -
  have "length (concat (map rune_params rs)) = 19 * length rs" for rs
    by (induction rs) (simp_all add: rune_params_def)
  then show "length (concat (map rune_params rs)) < 2 ^ 16" using chunks_length [OF _ assms] by simp
  have "length (concat (map ledger_params es)) = 12 * length es" for es
    by (induction es) (simp_all add: ledger_params_def)
  then show "es \<in> set (chunks 500 entries) \<Longrightarrow> length (concat (map ledger_params es)) < 2 ^ 16"
    using chunks_length [of 500 es entries] by simp
qed

section \<open>Properties\<close>

text \<open>
  C36. The tables give back what the statements put into them: a ledger entry is read as it was
  written, amounts, heights, missing values and the name of the operation included, and a rune
  is read as it was written but for its flag \<open>cenotaph\<close>, which is always read as false.
\<close>

theorem rows_read_back:
  assumes "numbers_kept num"
  shows "ledger_from_pg_row (stored num ledger_columns (ledger_params e) []) = Some e \<and>
    rune_from_pg_row (stored num rune_columns (rune_params r) [(''cenotaph'', Flag False)]) =
      Some (r\<lparr>dr_cenotaph := False\<rparr>)"
  using ledger_read [OF assms] rune_read [OF assms] by blast

definition sample_row :: ledger_entry where
  "sample_row =
     \<lparr>le_rune_id = lit ''840000:1'', le_block_hash = lit ''ab'', le_block_height = 840001, le_tx_index = 2,
      le_event_index = 0, le_tx_id = lit ''cd'', le_output = Some 1, le_address = None, le_receiver = Some (lit ''bc1q''),
      le_amount = Some 340282366920938463463374607431768211455, le_operation = OpSend, le_timestamp = 7\<rparr>"

lemma id_numbers_kept: "numbers_kept id"
  unfolding numbers_kept_def
proof
  fix n
  have "rev (pg_digits n []) = pg_groups n @ replicate 0 0 \<and>
      id (u128_into_pg_numeric_bytes n []) = pg_wire (length (pg_groups n) + 0 - 1) (pg_groups n)"
    by (simp add: into_wire pg_groups_def)
  then show "\<exists>gs k. rev (pg_digits n []) = gs @ replicate k 0 \<and>
      id (u128_into_pg_numeric_bytes n []) = pg_wire (length gs + k - 1) gs"
    by blast
qed

lemma rows_read_back_witness:
  "ledger_from_pg_row (stored id ledger_columns (ledger_params sample_row) []) = Some sample_row"
  using rows_read_back [OF id_numbers_kept, of sample_row] by blast

end
