(* ===== verification/Mempool.thy ===== *)
theory Mempool
  imports Index_Cache
begin

text \<open>
  Transactions that are not in a block yet (\<^verbatim>\<open>src/mempool.rs\<close>): the entries of the mempool ledger
  that a transaction makes. Main facts: a movement takes inputs from the back, and so makes
  the entries the index makes on the reversed inputs; nothing is created; what is left over is
  burnt unless the runestone has a pointer.

  The orders of iteration of hash maps, the functions of the \<^verbatim>\<open>bitcoin\<close> crate and the number of
  parameters a statement may have are parameters. \<open>None\<close> is a panic or the exit of the program.
\<close>

section \<open>Entries\<close>

record mempool_entry =
  me_rune_id :: ustr
  me_event_index :: u32
  me_tx_id :: ustr
  me_output :: "u32 option"
  me_address :: "ustr option"
  me_receiver :: "ustr option"
  me_amount :: "u128 option"
  me_operation :: operation

definition UNINCLUDED_RUNE_ID :: rune_id where
  "UNINCLUDED_RUNE_ID = RuneId 0 0"

definition mempool_from_values ::
    "u128 option \<Rightarrow> rune_id \<Rightarrow> u32 option \<Rightarrow> ustr option \<Rightarrow> ustr option \<Rightarrow> operation \<Rightarrow> ustr \<Rightarrow> u32
     \<Rightarrow> mempool_entry" where
  "mempool_from_values amount rid out address receiver op txid event_index =
     \<lparr>me_rune_id = rune_id_to_string rid, me_event_index = event_index, me_tx_id = txid,
      me_output = out, me_address = address, me_receiver = receiver, me_amount = amount,
      me_operation = op\<rparr>"

definition new_mempool_entry ::
    "u128 option \<Rightarrow> rune_id \<Rightarrow> u32 option \<Rightarrow> ustr option \<Rightarrow> ustr option \<Rightarrow> operation \<Rightarrow> ustr \<Rightarrow> u32
     \<Rightarrow> mempool_entry \<times> u32" where
  "new_mempool_entry amount rid out address receiver op txid next_event_index =
     (mempool_from_values amount rid out address receiver op txid next_event_index,
      next_event_index + 1)"

section \<open>Moving balances\<close>

text \<open>The loop over the inputs, which \<open>pop\<close>s them from the back of the vector.\<close>

function take_back ::
    "u128 \<Rightarrow> u128 \<Rightarrow> (u128 \<times> ustr) list \<Rightarrow> input_balance list
     \<Rightarrow> u128 \<times> (u128 \<times> ustr) list \<times> input_balance list" where
  "take_back amount total_sent senders input_balances =
     (if input_balances = [] then (total_sent, senders, [])
      else
        let b = last input_balances;
            bs = butlast input_balances;
            balance_taken =
              (if amount = 0 then ib_amount b else min (ib_amount b) (amount - total_sent));
            total_sent = total_sent + balance_taken;
            senders =
              (case ib_address b of None \<Rightarrow> senders | Some a \<Rightarrow> senders @ [(balance_taken, a)])
        in if balance_taken < ib_amount b
           then (total_sent, senders,
             bs @ [\<lparr>ib_address = ib_address b, ib_amount = ib_amount b - balance_taken\<rparr>])
           else if total_sent = amount then (total_sent, senders, bs)
           else take_back amount total_sent senders bs)"
  by pat_completeness auto
termination by (relation "measure (\<lambda>(a, t, s, bs). length bs)") auto

declare take_back.simps [simp del]

fun mempool_senders ::
    "ustr \<Rightarrow> rune_id \<Rightarrow> u32 option \<Rightarrow> ustr option \<Rightarrow> operation \<Rightarrow> (u128 \<times> ustr) list \<Rightarrow> u32
     \<Rightarrow> mempool_entry list \<times> u32" where
  "mempool_senders txid rid out receiver op [] idx = ([], idx)"
| "mempool_senders txid rid out receiver op ((taken, sender) # ss) idx =
     (let (e, idx) = new_mempool_entry (Some taken) rid out (Some sender) receiver op txid idx;
          (es, idx) = mempool_senders txid rid out receiver op ss idx
      in (e # es, idx))"

definition mempool_receiver ::
    "('s \<Rightarrow> network \<Rightarrow> ustr option) \<Rightarrow> network \<Rightarrow> (u32, 's) hashmap \<Rightarrow> u32 option \<Rightarrow> ustr option" where
  "mempool_receiver address_of net outputs out =
     (case out of
        None \<Rightarrow> None
      | Some k \<Rightarrow>
          (case map_of outputs k of
             None \<Rightarrow> None
           | Some script \<Rightarrow> address_of script net))"

definition mempool_move ::
    "('s \<Rightarrow> network \<Rightarrow> ustr option) \<Rightarrow> network \<Rightarrow> ustr \<Rightarrow> u32 option \<Rightarrow> rune_id \<Rightarrow> input_balance list
     \<Rightarrow> (u32, 's) hashmap \<Rightarrow> u128 \<Rightarrow> u32 \<Rightarrow> mempool_entry list \<times> input_balance list \<times> u32" where
  "mempool_move address_of net txid out rid inputs outputs amount idx =
     (let receiver = mempool_receiver address_of net outputs out;
          op = (if receiver \<noteq> None then OpSend else OpBurn);
          (total_sent, senders, inputs) = take_back amount 0 [] inputs;
          (received, idx) =
            (if receiver \<noteq> None \<and> total_sent > 0
             then
               let (e, idx) =
                 new_mempool_entry (Some total_sent) rid out receiver None OpReceive txid idx
               in ([e], idx)
             else ([], idx));
          (sent, idx) = mempool_senders txid rid out receiver op senders idx
      in (received @ sent, inputs, idx))"

section \<open>Edicts, burns and what is left\<close>

fun mempool_each ::
    "('s \<Rightarrow> network \<Rightarrow> ustr option) \<Rightarrow> network \<Rightarrow> ustr \<Rightarrow> rune_id \<Rightarrow> (u32, 's) hashmap
     \<Rightarrow> (u32 \<times> u128) list \<Rightarrow> input_balance list \<Rightarrow> u32
     \<Rightarrow> mempool_entry list \<times> input_balance list \<times> u32" where
  "mempool_each address_of net txid rid outputs [] inputs idx = ([], inputs, idx)"
| "mempool_each address_of net txid rid outputs ((out, amount) # dests) inputs idx =
     (let (es, inputs, idx) = mempool_move address_of net txid (Some out) rid inputs outputs amount idx;
          (fs, inputs, idx) = mempool_each address_of net txid rid outputs dests inputs idx
      in (es @ fs, inputs, idx))"

definition collect_edicts ::
    "('s \<Rightarrow> network \<Rightarrow> ustr option) \<Rightarrow> network \<Rightarrow> edict \<Rightarrow> input_runes \<Rightarrow> (u32, 's) hashmap \<Rightarrow> u32
     \<Rightarrow> ustr \<Rightarrow> u32 \<Rightarrow> mempool_entry list \<times> input_runes \<times> u32" where
  "collect_edicts address_of net e inputs outputs idx txid total_outputs =
     (if rid_block (ed_id e) = 0 \<and> rid_tx (ed_id e) = 0 then ([], inputs, idx)
      else
        case map_of inputs (ed_id e) of
          None \<Rightarrow> ([], inputs, idx)
        | Some available \<Rightarrow>
            let rid = ed_id e;
                unallocated = sum_list (map ib_amount available);
                (es, rest, idx) =
                  (if length outputs = 0
                   then mempool_move address_of net txid None rid available outputs (ed_amount e) idx
                   else if ed_output e = total_outputs
                   then
                     let output_keys = sort (map fst outputs) in
                     if ed_amount e = 0
                     then
                       let len = of_nat (length outputs) in
                       mempool_each address_of net txid rid outputs
                         (split_amounts (unallocated div len) (unallocated mod len) output_keys)
                         available idx
                     else
                       mempool_each address_of net txid rid outputs
                         (map (\<lambda>out. (out, min (ed_amount e) unallocated)) output_keys) available idx
                   else if ed_output e < total_outputs
                   then
                     let amount = (if ed_amount e = 0 then unallocated else ed_amount e) in
                     mempool_move address_of net txid (Some (ed_output e)) rid available outputs amount idx
                   else mempool_move address_of net txid None rid available outputs (ed_amount e) idx)
            in (es, AList.update rid rest inputs, idx))"

fun burn_input_balances ::
    "ustr \<Rightarrow> rune_id \<Rightarrow> input_balance list \<Rightarrow> u32 \<Rightarrow> mempool_entry list \<times> u32" where
  "burn_input_balances txid rid [] idx = ([], idx)"
| "burn_input_balances txid rid (b # bs) idx =
     (let (e, idx) = new_mempool_entry (Some (ib_amount b)) rid None (ib_address b) None OpBurn txid idx;
          (es, idx) = burn_input_balances txid rid bs idx
      in (e # es, idx))"

fun burn_input_runes :: "ustr \<Rightarrow> input_runes \<Rightarrow> u32 \<Rightarrow> mempool_entry list \<times> u32" where
  "burn_input_runes txid [] idx = ([], idx)"
| "burn_input_runes txid ((rid, unallocated) # rs) idx =
     (let (es, idx) = burn_input_balances txid rid unallocated idx;
          (fs, idx) = burn_input_runes txid rs idx
      in (es @ fs, idx))"

definition burn_input ::
    "(input_runes \<Rightarrow> input_runes) \<Rightarrow> ustr \<Rightarrow> input_runes \<Rightarrow> u32 \<Rightarrow> mempool_entry list \<times> input_runes \<times> u32" where
  "burn_input it txid inputs idx =
     (let (es, idx) = burn_input_runes txid (it inputs) idx in (es, [], idx))"

definition mempool_cenotaph_etching :: "rune_id \<Rightarrow> ustr \<Rightarrow> u32 \<Rightarrow> mempool_entry \<times> u32" where
  "mempool_cenotaph_etching rid txid idx = new_mempool_entry None rid None None None OpEtching txid idx"

fun allocate_each ::
    "('s \<Rightarrow> network \<Rightarrow> ustr option) \<Rightarrow> network \<Rightarrow> ustr \<Rightarrow> u32 option \<Rightarrow> (u32, 's) hashmap \<Rightarrow> input_runes
     \<Rightarrow> u32 \<Rightarrow> mempool_entry list \<times> u32" where
  "allocate_each address_of net txid pointer outputs [] idx = ([], idx)"
| "allocate_each address_of net txid pointer outputs ((rid, unallocated) # rs) idx =
     (let (es, rest, idx) = mempool_move address_of net txid pointer rid unallocated outputs 0 idx;
          (fs, idx) = allocate_each address_of net txid pointer outputs rs idx
      in (es @ fs, idx))"

definition mempool_allocate ::
    "('s \<Rightarrow> network \<Rightarrow> ustr option) \<Rightarrow> (input_runes \<Rightarrow> input_runes) \<Rightarrow> network \<Rightarrow> ustr \<Rightarrow> u32 option
     \<Rightarrow> input_runes \<Rightarrow> (u32, 's) hashmap \<Rightarrow> u32 \<Rightarrow> mempool_entry list \<times> input_runes \<times> u32" where
  "mempool_allocate address_of it net txid pointer inputs outputs idx =
     (let (es, idx) = allocate_each address_of net txid pointer outputs (it inputs) idx
      in (es, [], idx))"

section \<open>A transaction\<close>

record 's mempool_env =
  mv_network :: network
  mv_instructions :: "'s \<Rightarrow> script_item list"
  mv_is_op_return :: "'s \<Rightarrow> bool"
  mv_address_of :: "'s \<Rightarrow> network \<Rightarrow> ustr option"
  mv_row_order :: "(u32 \<times> ledger_entry) list \<Rightarrow> (u32 \<times> ledger_entry) list"
  mv_bind_limit :: nat
  mv_output_order :: "(u32, rune_balances) hashmap \<Rightarrow> (u32, rune_balances) hashmap"
  mv_balance_order :: "rune_balances \<Rightarrow> rune_balances"
  mv_input_order :: "input_runes \<Rightarrow> input_runes"

definition collect_input_rune_balances_pg ::
    "'s mempool_env \<Rightarrow> out_point list \<Rightarrow> database \<Rightarrow> input_runes option" where
  "collect_input_rune_balances_pg env inputs db =
     do {
       let outputs = map (\<lambda>(i, p). (of_nat i, op_txid p, op_vout p)) (enumerate 0 inputs);
       output_balances \<leftarrow> pg_get_input_rune_balances (mv_row_order env) (mv_bind_limit env) outputs db;
       Some (fold (\<lambda>(_, rune_to_vec) acc. merge_input (mv_balance_order env rune_to_vec) acc)
         (mv_output_order env output_balances) [])
     }"

fun eligible_from :: "('s \<Rightarrow> bool) \<Rightarrow> nat \<Rightarrow> 's tx_out list \<Rightarrow> (u32, 's) hashmap \<Rightarrow> (u32, 's) hashmap" where
  "eligible_from is_op_return i [] eligible = eligible"
| "eligible_from is_op_return i (out # outs) eligible =
     eligible_from is_op_return (i + 1) outs
       (if \<not> is_op_return (out_script out)
        then AList.update (of_nat i) (out_script out) eligible else eligible)"

definition collect_eligible_outputs :: "('s \<Rightarrow> bool) \<Rightarrow> 's transaction \<Rightarrow> (u32, 's) hashmap" where
  "collect_eligible_outputs is_op_return tx = eligible_from is_op_return 0 (tx_output tx) []"

text \<open>
  The loop over the edicts, which gives up on an edict for the rune being etched: then entries,
  inputs and outputs are emptied, and the event index stays.
\<close>

fun mempool_edicts ::
    "('s \<Rightarrow> network \<Rightarrow> ustr option) \<Rightarrow> network \<Rightarrow> ustr \<Rightarrow> u32 \<Rightarrow> (u32, 's) hashmap \<Rightarrow> edict list
     \<Rightarrow> mempool_entry list \<Rightarrow> input_runes \<Rightarrow> u32
     \<Rightarrow> mempool_entry list \<times> input_runes \<times> (u32, 's) hashmap \<times> u32" where
  "mempool_edicts address_of net txid n_outputs outputs [] entries inputs idx = (entries, inputs, outputs, idx)"
| "mempool_edicts address_of net txid n_outputs outputs (e # es) entries inputs idx =
     (if ed_id e = UNINCLUDED_RUNE_ID then ([], [], [], idx)
      else
        let (new, inputs, idx) = collect_edicts address_of net e inputs outputs idx txid n_outputs
        in mempool_edicts address_of net txid n_outputs outputs es (entries @ new) inputs idx)"

definition mempool_artifact ::
    "'s mempool_env \<Rightarrow> ustr \<Rightarrow> u32 \<Rightarrow> artifact \<Rightarrow> input_runes \<Rightarrow> (u32, 's) hashmap
     \<Rightarrow> mempool_entry list \<times> u32 option \<times> input_runes \<times> (u32, 's) hashmap \<times> u32" where
  "mempool_artifact env txid n_outputs a inputs outputs =
     (case a of
        Runestone rs \<Rightarrow>
          (let (entries, inputs, outputs, idx) =
             mempool_edicts (mv_address_of env) (mv_network env) txid n_outputs outputs (rs_edicts rs)
               [] inputs 0
           in (entries, rs_pointer rs, inputs, outputs, idx))
      | Cenotaph cn \<Rightarrow>
          (let (entries, inputs, idx) = burn_input (mv_input_order env) txid inputs 0
           in case cn_etching cn of
                None \<Rightarrow> (entries, None, inputs, outputs, idx)
              | Some _ \<Rightarrow>
                  (let (e, idx) = mempool_cenotaph_etching UNINCLUDED_RUNE_ID txid idx
                   in (entries @ [e], None, inputs, outputs, idx))))"

definition parse_mempool_tx ::
    "'s mempool_env \<Rightarrow> 's transaction \<Rightarrow> ustr \<Rightarrow> database \<Rightarrow> mempool_entry list option" where
  "parse_mempool_tx env tx txid db =
     do {
       found \<leftarrow> decipher (mv_instructions env) tx;
       (case found of
          None \<Rightarrow> Some []
        | Some a \<Rightarrow>
            do {
              let outputs = collect_eligible_outputs (mv_is_op_return env) tx;
              inputs \<leftarrow> collect_input_rune_balances_pg env (tx_input tx) db;
              let (entries, pointer, inputs, outputs, idx) =
                mempool_artifact env txid (of_nat (length (tx_output tx))) a inputs outputs;
              let (rest, _, _) =
                mempool_allocate (mv_address_of env) (mv_input_order env) (mv_network env) txid pointer
                  inputs outputs idx;
              Some (entries @ rest)
            })
     }"

end
