(* ===== verification/Mempool_Books.thy ===== *)
theory Mempool_Books
  imports Mempool
begin

text \<open>
  The mempool against the index. Main facts: an edict makes in the mempool the entries it makes
  in the index when the inputs are in reverse order; no parsed transaction lets outputs receive
  more than its inputs hold; without a pointer, what the edicts leave is burnt.
\<close>

section \<open>Entries without a block\<close>

definition unconfirmed :: "ledger_entry \<Rightarrow> mempool_entry" where
  "unconfirmed e =
     \<lparr>me_rune_id = le_rune_id e, me_event_index = le_event_index e, me_tx_id = le_tx_id e,
      me_output = le_output e, me_address = le_address e, me_receiver = le_receiver e,
      me_amount = le_amount e, me_operation = le_operation e\<rparr>"

definition mempool_received :: "rune_id \<Rightarrow> mempool_entry list \<Rightarrow> nat" where
  "mempool_received rid es =
     sum_list (map (\<lambda>e. if me_operation e = OpReceive \<and> me_rune_id e = rune_id_to_string rid
       then unat (unwrap_or 0 (me_amount e)) else 0) es)"

lemma mempool_received_simps [simp]:
  "mempool_received i [] = 0"
  "mempool_received i (es @ fs) = mempool_received i es + mempool_received i fs"
  "mempool_received i (map unconfirmed ls) = received i ls"
  by (simp_all add: mempool_received_def received_def unconfirmed_def comp_def cong: if_cong)

lemma mempool_received_other [simp]:
  "me_operation e \<noteq> OpReceive \<Longrightarrow> mempool_received i (e # es) = mempool_received i es"
  by (simp add: mempool_received_def)

lemma new_mempool_entry_eq:
  assumes "new_entry l amount rid out address receiver op idx = Some (e, j)"
  shows "new_mempool_entry amount rid out address receiver op (drop 2 (tl_tx_id l)) idx =
    (unconfirmed e, j)"
proof -
  from assms have "unconfirmed e = mempool_from_values amount rid out address receiver op (drop 2 (tl_tx_id l)) idx"
    "j = idx + 1"
    by (auto simp: new_entry_def ledger_from_values_def bind_eq_Some_conv slice_from_def
        unconfirmed_def mempool_from_values_def split: if_splits)
  then show ?thesis by (simp add: new_mempool_entry_def)
qed

section \<open>Movements\<close>

lemma take_back_rev:
  "take_back amount sent senders bs =
     (case take_inputs amount sent senders (rev bs) of (t, ss, rest) \<Rightarrow> (t, ss, rev rest))"
proof (induction amount sent senders bs rule: take_back.induct)
  case (1 amount sent senders bs)
  show ?case
  proof (cases "bs = []")
    case True
    then show ?thesis by (simp add: take_back.simps)
  next
    case False
    have r: "rev bs = last bs # rev (butlast bs)"
      using False by (metis append_butlast_last_id rev.simps(2) rev_rev_ident rev_append rev_singleton_conv
          append_Cons append_Nil)
    show ?thesis
      using 1 [OF False refl refl refl refl refl] False
      by (subst take_back.simps) (simp add: r Let_def split: prod.splits)
  qed
qed

lemma mempool_senders_eq:
  "sender_entries l rid out receiver op ss idx = Some (es, j) \<Longrightarrow>
   mempool_senders (drop 2 (tl_tx_id l)) rid out receiver op ss idx = (map unconfirmed es, j)"
proof (induction ss arbitrary: idx es)
  case (Cons s ss)
  obtain taken sender where s: "s = (taken, sender)" by (cases s)
  with Cons.prems obtain e k fs where
    "new_entry l (Some taken) rid out (Some sender) receiver op idx = Some (e, k)"
    "sender_entries l rid out receiver op ss k = Some (fs, j)" "es = e # fs"
    by (auto simp: bind_eq_Some_conv)
  with Cons.IH show ?case by (simp add: s new_mempool_entry_eq)
qed simp

lemma mempool_receiver_eq: "receiver_of address_of l outputs out = mempool_receiver address_of (tl_network l) outputs out"
  by (simp add: receiver_of_def mempool_receiver_def)

lemma mempool_move_eq:
  assumes "move_balance address_of l out rid (rev inputs) outputs amount idx = Some (es, rest, j)"
  shows "mempool_move address_of (tl_network l) (drop 2 (tl_tx_id l)) out rid inputs outputs amount idx =
    (map unconfirmed es, rev rest, j)"
proof -
  let ?r = "receiver_of address_of l outputs out"
  obtain sent senders rest' where t: "take_inputs amount 0 [] (rev inputs) = (sent, senders, rest')"
    by (metis prod_cases3)
  from assms obtain rs k ss where
    rs: "(if ?r \<noteq> None \<and> sent > 0
       then do { (e, idx) \<leftarrow> new_entry l (Some sent) rid out ?r None OpReceive idx; Some ([e], idx) }
       else Some ([], idx)) = Some (rs, k)"
    and ss: "sender_entries l rid out ?r (if ?r \<noteq> None then OpSend else OpBurn) senders k = Some (ss, j)"
    and es: "es = rs @ ss" and rest: "rest' = rest"
    by (auto simp: move_balance_def Let_def t bind_eq_Some_conv split: if_splits)
  have 1: "(if ?r \<noteq> None \<and> sent > 0
      then let (e, idx) = new_mempool_entry (Some sent) rid out ?r None OpReceive (drop 2 (tl_tx_id l)) idx in ([e], idx)
      else ([], idx)) = (map unconfirmed rs, k)"
    using rs by (auto simp: bind_eq_Some_conv new_mempool_entry_eq split: if_splits)
  show ?thesis
    using 1 mempool_senders_eq [OF ss]
    by (simp add: mempool_move_def take_back_rev t es rest mempool_receiver_eq [symmetric] Let_def
        split: prod.splits)
qed

lemma mempool_each_eq:
  "move_each address_of l rid outputs dests (rev inputs) idx = Some (es, rest, j) \<Longrightarrow>
   mempool_each address_of (tl_network l) (drop 2 (tl_tx_id l)) rid outputs dests inputs idx =
     (map unconfirmed es, rev rest, j)"
proof (induction dests arbitrary: inputs idx es)
  case (Cons d dests)
  obtain out amount where d: "d = (out, amount)" by (cases d)
  with Cons.prems obtain fs inputs' k gs where
    m: "move_balance address_of l (Some out) rid (rev inputs) outputs amount idx = Some (fs, inputs', k)"
    and n: "move_each address_of l rid outputs dests inputs' k = Some (gs, rest, j)" and es: "es = fs @ gs"
    by (auto simp: bind_eq_Some_conv)
  from n Cons.IH [of "rev inputs'" k gs] show ?case by (simp add: d mempool_move_eq [OF m] es)
qed auto

section \<open>Edicts\<close>

text \<open>The state of the index for a transaction in the mempool: every rune's inputs reversed.\<close>

definition rev_inputs :: "input_runes \<Rightarrow> input_runes" where
  "rev_inputs m = map (\<lambda>(rid, bs). (rid, rev bs)) m"

definition as_cache ::
    "tx_location \<Rightarrow> u32 option \<Rightarrow> (u32, 's) hashmap \<Rightarrow> u32 \<Rightarrow> input_runes \<Rightarrow> u32 \<Rightarrow> 's tx_cache" where
  "as_cache l pointer outputs n_outputs inputs idx =
     (tx_cache_new l (rev_inputs inputs) outputs pointer n_outputs)\<lparr>tc_next_event := idx\<rparr>"

lemma rev_inputs_map_of: "map_of (rev_inputs m) i = map_option rev (map_of m i)"
  by (induction m) (auto simp: rev_inputs_def)

lemma rev_inputs_update: "rev_inputs (AList.update k v m) = AList.update k (rev v) (rev_inputs m)"
  by (induction m) (auto simp: rev_inputs_def)

lemma as_cache_fields [simp]:
  "tc_location (as_cache l p os n inputs idx) = l" "tc_next_event (as_cache l p os n inputs idx) = idx"
  "tc_pointer (as_cache l p os n inputs idx) = p" "tc_outputs (as_cache l p os n inputs idx) = os"
  "tc_inputs (as_cache l p os n inputs idx) = rev_inputs inputs"
  "tc_total_outputs (as_cache l p os n inputs idx) = n"
  by (simp_all add: as_cache_def tx_cache_new_def)

lemma as_cache_tc: "hm_distinct inputs \<Longrightarrow> tc_ok (as_cache l p os n inputs idx)"
  "tc_total (as_cache l p os n inputs idx) i = balance_sum (unwrap_or [] (map_of inputs i))"
proof -
  have b: "balance_sum (rev bs) = balance_sum bs" for bs by (simp add: balance_sum_def rev_map [symmetric])
  show "tc_total (as_cache l p os n inputs idx) i = balance_sum (unwrap_or [] (map_of inputs i))"
    by (cases "map_of inputs i") (simp_all add: tc_total_def rev_inputs_map_of unwrap_or_def b)
  show "hm_distinct inputs \<Longrightarrow> tc_ok (as_cache l p os n inputs idx)"
    by (simp add: tc_ok_def hm_distinct_def rev_inputs_def comp_def case_prod_beta)
qed

lemma collect_edicts_eq:
  assumes "ed_id e \<noteq> UNINCLUDED_RUNE_ID"
    and "apply_edict address_of e (as_cache l p outputs n inputs idx) = Some (es, c)"
  shows "\<exists>inputs' j. collect_edicts address_of (tl_network l) e inputs outputs idx (drop 2 (tl_tx_id l)) n =
      (map unconfirmed es, inputs', j) \<and> c = as_cache l p outputs n inputs' j"
proof -
  let ?c = "as_cache l p outputs n inputs idx"
  have id: "\<not> (rid_block (ed_id e) = 0 \<and> rid_tx (ed_id e) = 0)"
    using assms(1) by (cases "ed_id e") (simp add: UNINCLUDED_RUNE_ID_def)
  then have r: "edict_rune ?c e = Some (ed_id e)" unfolding edict_rune_def by (simp only: if_False)
  show ?thesis
  proof (cases "map_of inputs (ed_id e)")
    case None
    then show ?thesis
      using assms(2) id r by (auto simp: apply_edict_def rev_inputs_map_of collect_edicts_def)
  next
    case (Some available)
    then obtain rest j where m: "edict_moves address_of ?c e (ed_id e) (rev available) = Some (es, rest, j)"
      and c: "c = ?c\<lparr>tc_next_event := j, tc_inputs := AList.update (ed_id e) rest (rev_inputs inputs)\<rparr>"
      using assms(2) r by (auto simp: apply_edict_def rev_inputs_map_of bind_eq_Some_conv)
    have s: "sum_list (map ib_amount (rev available)) = sum_list (map ib_amount available)"
      by (metis rev_map sum_list_rev)
    have "collect_edicts address_of (tl_network l) e inputs outputs idx (drop 2 (tl_tx_id l)) n =
        (map unconfirmed es, AList.update (ed_id e) (rev rest) inputs, j)"
      unfolding collect_edicts_def if_not_P [OF id] Some option.case
      using m by (cases "ed_amount e = 0"; cases "length outputs = 0"; cases "ed_output e = n"; cases "ed_output e < n")
        (simp_all only: edict_moves_def s Let_def mempool_move_eq mempool_each_eq if_True if_False not_True_eq_False
          as_cache_fields prod.case less_irrefl simp_thms)
    moreover have "c = as_cache l p outputs n (AList.update (ed_id e) (rev rest) inputs) j"
      by (simp add: c as_cache_def tx_cache_new_def rev_inputs_update)
    ultimately show ?thesis by blast
  qed
qed

lemma collect_edicts_index:
  assumes "ed_id e \<noteq> UNINCLUDED_RUNE_ID" "location_ok l"
    and "collect_edicts address_of (tl_network l) e inputs outputs idx (drop 2 (tl_tx_id l)) n = (es, inputs', j)"
  shows "\<exists>ls. apply_edict address_of e (as_cache l p outputs n inputs idx) =
      Some (ls, as_cache l p outputs n inputs' j) \<and> es = map unconfirmed ls"
proof -
  obtain ls c where a: "apply_edict address_of e (as_cache l p outputs n inputs idx) = Some (ls, c)"
    using apply_edict_total [of "as_cache l p outputs n inputs idx" address_of e] assms(2) by fastforce
  from collect_edicts_eq [OF assms(1) a] assms(3) a show ?thesis by auto
qed

section \<open>Nothing is created\<close>

lemma collect_edicts_distinct:
  "hm_distinct inputs \<Longrightarrow>
   collect_edicts address_of net e inputs outputs idx txid n = (es, inputs', j) \<Longrightarrow> hm_distinct inputs'"
  by (auto simp: collect_edicts_def Let_def split: if_splits option.splits prod.splits)

text \<open>A transaction of the mempool has no block, any will do.\<close>

definition some_location :: "network \<Rightarrow> ustr \<Rightarrow> tx_location" where
  "some_location net txid =
     \<lparr>tl_network = net, tl_block_hash = lit ''0x'', tl_block_height = 0, tl_timestamp = 0,
      tl_tx_index = 0, tl_tx_id = lit ''0x'' @ txid\<rparr>"

lemma some_location [simp]:
  "location_ok (some_location net txid)" "tl_network (some_location net txid) = net"
  "drop 2 (tl_tx_id (some_location net txid)) = txid"
  by (simp_all add: some_location_def location_ok_def lit_def)

abbreviation held :: "input_runes \<Rightarrow> rune_id \<Rightarrow> nat" where
  "held inputs i \<equiv> balance_sum (unwrap_or [] (map_of inputs i))"

lemma collect_edicts_le:
  assumes "hm_distinct inputs" "ed_id e \<noteq> UNINCLUDED_RUNE_ID"
    and "collect_edicts address_of net e inputs outputs idx txid n = (es, inputs', j)"
  shows "mempool_received i es + held inputs' i \<le> held inputs i"
proof -
  let ?l = "some_location net txid"
  obtain ls where "apply_edict address_of e (as_cache ?l None outputs n inputs idx) =
      Some (ls, as_cache ?l None outputs n inputs' j)" "es = map unconfirmed ls"
    using collect_edicts_index [of e ?l address_of inputs outputs idx n es inputs' j None] assms(2,3) by auto
  with apply_edict_keeps(3) [OF as_cache_tc(1) [OF assms(1)]] show ?thesis
    by (fastforce simp: as_cache_tc(2))
qed

lemma mempool_edicts_le:
  assumes "hm_distinct inputs"
    and "mempool_edicts address_of net txid n outputs es entries inputs idx = (entries', inputs', outputs', j)"
  shows "hm_distinct inputs' \<and>
    mempool_received i entries' + held inputs' i \<le> mempool_received i entries + held inputs i"
  using assms
proof (induction es arbitrary: entries inputs idx)
  case (Cons e es)
  show ?case
  proof (cases "ed_id e = UNINCLUDED_RUNE_ID")
    case True
    with Cons.prems(2) show ?thesis by (auto simp: unwrap_or_def)
  next
    case False
    obtain new inputs1 k where c: "collect_edicts address_of net e inputs outputs idx txid n = (new, inputs1, k)"
      by (metis prod_cases3)
    have "hm_distinct inputs' \<and> mempool_received i entries' + held inputs' i \<le>
        mempool_received i (entries @ new) + held inputs1 i"
      by (rule Cons.IH [OF collect_edicts_distinct [OF Cons.prems(1) c]])
        (use Cons.prems(2) False c in simp)
    with collect_edicts_le [OF Cons.prems(1) False c, of i] show ?thesis by simp
  qed
qed simp

lemma burn_input_balances_received:
  "burn_input_balances txid rid bs idx = (es, j) \<Longrightarrow> mempool_received i es = 0"
  by (induction bs arbitrary: idx es)
    (auto simp: new_mempool_entry_def mempool_from_values_def Let_def split: prod.splits)

lemma burn_input_runes_received:
  "burn_input_runes txid rs idx = (es, j) \<Longrightarrow> mempool_received i es = 0"
  by (induction rs arbitrary: idx es)
    (auto simp: burn_input_balances_received Let_def split: prod.splits)

lemma allocate_each_le:
  "allocate_each address_of net txid p outputs rs idx = (es, j) \<Longrightarrow> mempool_received i es \<le> runes_sum rs i"
proof (induction rs arbitrary: idx es)
  case (Cons r rs)
  obtain rid bs where r: "r = (rid, bs)" by (cases r)
  let ?l = "some_location net txid"
  obtain ls rest k where m: "move_balance address_of ?l p rid (rev bs) outputs 0 idx = Some (ls, rest, k)"
    using move_balance_total [of ?l address_of p rid "rev bs" outputs 0 idx] by fastforce
  note e = mempool_move_eq [OF m, simplified]
  obtain fs where "allocate_each address_of net txid p outputs rs k = (fs, j)" "es = map unconfirmed ls @ fs"
    using Cons.prems by (auto simp: r e Let_def split: prod.splits)
  moreover have "balance_sum (rev bs) = balance_sum bs" by (simp add: balance_sum_def rev_map [symmetric])
  ultimately show ?case
    using Cons.IH [of k fs] move_balance_conj [OF m, of i] by (cases "i = rid") (simp_all add: r)
qed simp

lemma hm_distinct_merge: "hm_distinct m \<Longrightarrow> hm_distinct (merge_input b m)"
  unfolding merge_input_def by (induction b arbitrary: m) (auto split: prod.splits)

lemma collect_inputs_distinct:
  assumes "collect_input_rune_balances_pg env ins db = Some inputs"
  shows "hm_distinct inputs"
proof -
  have "hm_distinct (fold (\<lambda>(_, v) acc. merge_input (f v) acc) xs acc)" if "hm_distinct acc"
    for f :: "rune_balances \<Rightarrow> rune_balances" and xs :: "(u32, rune_balances) hashmap" and acc
    using that by (induction xs arbitrary: acc) (auto simp: hm_distinct_merge)
  then show ?thesis
    using assms by (auto simp: collect_input_rune_balances_pg_def bind_eq_Some_conv Let_def)
qed

lemma mempool_artifact_le:
  assumes "hm_distinct inputs"
    and "mempool_artifact env txid n a inputs outputs = (entries, pointer, inputs', outputs', j)"
  shows "hm_distinct inputs' \<and> mempool_received i entries + held inputs' i \<le> held inputs i"
proof (cases a)
  case (Cenotaph cn)
  obtain es k where b: "burn_input_runes txid (mv_input_order env inputs) 0 = (es, k)" by fastforce
  have z: "mempool_received i es = 0" by (rule burn_input_runes_received [OF b])
  show ?thesis
    using assms(2) z
    by (cases "cn_etching cn")
      (auto simp: mempool_artifact_def Cenotaph burn_input_def b mempool_cenotaph_etching_def
        new_mempool_entry_def mempool_from_values_def unwrap_or_def)
next
  case (Runestone rs)
  obtain es inputs1 outputs1 k where e:
    "mempool_edicts (mv_address_of env) (mv_network env) txid n outputs (rs_edicts rs) [] inputs 0 =
      (es, inputs1, outputs1, k)"
    by (metis prod_cases4)
  with mempool_edicts_le [OF assms(1) e, of i] assms(2) show ?thesis
    by (auto simp: mempool_artifact_def Runestone)
qed

section \<open>Burns\<close>

text \<open>Asked for amount zero, the loop takes every balance, up to the first one that is zero.\<close>

lemma take_inputs_every:
  assumes "\<forall>b \<in> set bs. ib_amount b \<noteq> 0" "unat t + balance_sum bs < 2 ^ 128"
  shows "\<exists>t'. take_inputs 0 t ss bs =
    (t', ss @ map (\<lambda>b. (ib_amount b, the (ib_address b))) (filter (\<lambda>b. ib_address b \<noteq> None) bs), [])"
  using assms
proof (induction bs arbitrary: t ss)
  case (Cons b bs)
  have u: "unat (t + ib_amount b) = unat t + unat (ib_amount b)"
    using Cons.prems(2) by (intro unat_add_fits) simp
  with Cons.prems(1) have "t + ib_amount b \<noteq> 0" by (auto simp: unat_eq_0 [symmetric])
  moreover obtain t' where "take_inputs 0 (t + ib_amount b)
      (ss @ (case ib_address b of None \<Rightarrow> [] | Some a \<Rightarrow> [(ib_amount b, a)])) bs =
    (t', (ss @ (case ib_address b of None \<Rightarrow> [] | Some a \<Rightarrow> [(ib_amount b, a)])) @
      map (\<lambda>b. (ib_amount b, the (ib_address b))) (filter (\<lambda>b. ib_address b \<noteq> None) bs), [])"
    using Cons.IH [of "t + ib_amount b" "ss @ (case ib_address b of None \<Rightarrow> [] | Some a \<Rightarrow> [(ib_amount b, a)])"]
      Cons.prems u by (auto simp: add.assoc simp del: power_numeral)
  ultimately show ?case using Cons.prems(1) by (cases "ib_address b") (auto simp: Let_def)
qed simp

definition burn_entry :: "ustr \<Rightarrow> nat \<Rightarrow> rune_id \<Rightarrow> input_balance \<Rightarrow> mempool_entry" where
  "burn_entry txid i rid b =
     \<lparr>me_rune_id = rune_id_to_string rid, me_event_index = of_nat i, me_tx_id = txid, me_output = None,
      me_address = ib_address b, me_receiver = None, me_amount = Some (ib_amount b), me_operation = OpBurn\<rparr>"

lemma mempool_senders_burn:
  "list_all (\<lambda>b. ib_address b \<noteq> None) bs \<Longrightarrow>
   mempool_senders txid rid None None OpBurn (map (\<lambda>b. (ib_amount b, the (ib_address b))) bs) (of_nat k) =
     (map (\<lambda>(i, rid, b). burn_entry txid i rid b) (enumerate k (map (Pair rid) bs)), of_nat (k + length bs))"
proof (induction bs arbitrary: k)
  case (Cons b bs)
  have "(of_nat k :: u32) + 1 = of_nat (Suc k)" by simp
  with Cons.IH [of "Suc k"] Cons.prems show ?case
    by (auto simp: new_mempool_entry_def mempool_from_values_def burn_entry_def simp del: of_nat_Suc)
qed simp

definition last_first :: "input_runes \<Rightarrow> (rune_id \<times> input_balance) list" where
  "last_first inputs =
     concat (map (\<lambda>(rid, bs). map (Pair rid) (filter (\<lambda>b. ib_address b \<noteq> None) (rev bs))) inputs)"

lemma mempool_move_burn:
  assumes "\<forall>b \<in> set bs. ib_amount b \<noteq> 0" "balance_sum bs < 2 ^ 128"
  shows "\<exists>rest. mempool_move address_of net txid None rid bs outputs 0 (of_nat k) =
    (map (\<lambda>(i, rid, b). burn_entry txid i rid b) (enumerate k (last_first [(rid, bs)])), rest,
     of_nat (k + length (last_first [(rid, bs)])))"
proof -
  let ?bs = "filter (\<lambda>b. ib_address b \<noteq> None) (rev bs)"
  have s: "balance_sum (rev bs) = balance_sum bs"
    by (simp add: balance_sum_def rev_map [symmetric])
  obtain t where t: "take_inputs 0 0 [] (rev bs) = (t, map (\<lambda>b. (ib_amount b, the (ib_address b))) ?bs, [])"
    using take_inputs_every [of "rev bs" 0 "[]"] assms s by (auto simp del: power_numeral)
  have "list_all (\<lambda>b. ib_address b \<noteq> None) ?bs" by (simp add: list_all_iff)
  from mempool_senders_burn [OF this, of txid rid k] show ?thesis
    by (simp add: mempool_move_def mempool_receiver_def take_back_rev t last_first_def Let_def del: map_map)
qed

lemma allocate_each_burnt:
  assumes "\<forall>(rid, bs) \<in> set rs. balance_sum bs < 2 ^ 128 \<and> (\<forall>b \<in> set bs. ib_amount b \<noteq> 0)"
  shows "\<exists>j. allocate_each address_of net txid None outputs rs (of_nat k) =
    (map (\<lambda>(i, rid, b). burn_entry txid i rid b) (enumerate k (last_first rs)), j)"
  using assms
proof (induction rs arbitrary: k)
  case (Cons r rs)
  obtain rid bs where r: "r = (rid, bs)" by (cases r)
  have app: "last_first (r # rs) = last_first [(rid, bs)] @ last_first rs" by (simp add: last_first_def r)
  obtain rest where "mempool_move address_of net txid None rid bs outputs 0 (of_nat k) =
    (map (\<lambda>(i, rid, b). burn_entry txid i rid b) (enumerate k (last_first [(rid, bs)])), rest,
     of_nat (k + length (last_first [(rid, bs)])))"
    using mempool_move_burn [of bs address_of net txid rid outputs k] Cons.prems r by auto
  moreover obtain j where "allocate_each address_of net txid None outputs rs (of_nat (k + length (last_first [(rid, bs)]))) =
    (map (\<lambda>(i, rid, b). burn_entry txid i rid b) (enumerate (k + length (last_first [(rid, bs)])) (last_first rs)), j)"
    using Cons.IH [of "k + length (last_first [(rid, bs)])"] Cons.prems by (auto simp del: of_nat_add)
  ultimately show ?case unfolding app by (simp add: r enumerate_append_eq)
qed (simp add: last_first_def)

section \<open>Properties\<close>

text \<open>
  C19. An edict on a rune that exists makes the same entries in the mempool as in the index, and
  leaves the same balances, when the index has the inputs of every rune in reverse order: the
  mempool takes inputs from the back, the index from the front.
\<close>

theorem mempool_edict_matches_index:
  assumes "ed_id e \<noteq> UNINCLUDED_RUNE_ID" "location_ok l"
    and "collect_edicts address_of (tl_network l) e inputs outputs idx (drop 2 (tl_tx_id l)) n = (es, inputs', j)"
  shows "\<exists>ls. apply_edict address_of e (as_cache l p outputs n inputs idx) =
      Some (ls, as_cache l p outputs n inputs' j) \<and> es = map unconfirmed ls"
  using assms by (rule collect_edicts_index)

text \<open>
  C17. Nothing is created in the mempool: what the outputs of a transaction receive of a rune is
  at most what its inputs hold of it.
\<close>

theorem mempool_no_inflation:
  assumes "is_iteration (mv_input_order env)"
    and "collect_input_rune_balances_pg env (tx_input tx) db = Some inputs"
    and "parse_mempool_tx env tx txid db = Some es"
  shows "mempool_received i es \<le> balance_sum (unwrap_or [] (map_of inputs i))"
proof (cases "decipher (mv_instructions env) tx")
  case (Some found)
  show ?thesis
  proof (cases found)
    case None
    with Some assms(3) show ?thesis by (simp add: parse_mempool_tx_def)
  next
    case a: (Some a)
    let ?outs = "collect_eligible_outputs (mv_is_op_return env) tx"
    obtain entries pointer inputs1 outputs1 j where
      m: "mempool_artifact env txid (of_nat (length (tx_output tx))) a inputs ?outs =
        (entries, pointer, inputs1, outputs1, j)"
      by (metis prod_cases5)
    obtain rest k where r: "allocate_each (mv_address_of env) (mv_network env) txid pointer outputs1
        (mv_input_order env inputs1) j = (rest, k)"
      by fastforce
    have es: "es = entries @ rest"
      using assms(2,3) by (simp add: parse_mempool_tx_def Some a m mempool_allocate_def r Let_def)
    have le: "hm_distinct inputs1" "mempool_received i entries + held inputs1 i \<le> held inputs i"
      using mempool_artifact_le [OF collect_inputs_distinct [OF assms(2)] m, of i] by simp_all
    have "mempool_received i rest \<le> held inputs1 i"
      using allocate_each_le [OF r, of i] runes_sum_iteration [OF assms(1) le(1), of i] by simp
    with le(2) show ?thesis by (simp add: es)
  qed
qed (use assms(3) in \<open>simp add: parse_mempool_tx_def\<close>)

text \<open>
  C21. A plain transfer, a runestone without edicts and without a pointer, is recorded in the
  mempool as a burn of everything, whatever outputs the transaction has: the entries are, one
  for each input balance with an address, the last of every rune first, a burn of the whole balance
  without output and receiver, and there are no others. The default of the index, the first output
  that is not an \<open>OP_RETURN\<close>, is missing. The balances must be positive and not overflow.
\<close>

theorem mempool_transfer_burnt:
  assumes "decipher (mv_instructions env) tx = Some (Some (Runestone rs))"
    and "rs_edicts rs = []" "rs_pointer rs = None"
    and "collect_input_rune_balances_pg env (tx_input tx) db = Some inputs" "is_iteration (mv_input_order env)"
    and "\<forall>(rid, bs) \<in> set inputs. balance_sum bs < 2 ^ 128 \<and> (\<forall>b \<in> set bs. ib_amount b \<noteq> 0)"
  shows "parse_mempool_tx env tx txid db = Some (map (\<lambda>(i, rid, b).
      \<lparr>me_rune_id = rune_id_to_string rid, me_event_index = of_nat i, me_tx_id = txid, me_output = None,
       me_address = ib_address b, me_receiver = None, me_amount = Some (ib_amount b), me_operation = OpBurn\<rparr>)
     (enumerate 0 (concat (map (\<lambda>(rid, bs). map (Pair rid) (filter (\<lambda>b. ib_address b \<noteq> None) (rev bs)))
       (mv_input_order env inputs)))))"
proof -
  have "set (mv_input_order env inputs) = set inputs"
    using assms(5) by (metis is_iteration_def set_mset_mset)
  with assms(6) have "\<forall>(rid, bs) \<in> set (mv_input_order env inputs). balance_sum bs < 2 ^ 128 \<and> (\<forall>b \<in> set bs. ib_amount b \<noteq> 0)"
    by simp
  from allocate_each_burnt [OF this] obtain j where "allocate_each (mv_address_of env) (mv_network env) txid None
      (collect_eligible_outputs (mv_is_op_return env) tx) (mv_input_order env inputs) (of_nat 0) =
    (map (\<lambda>(i, rid, b). burn_entry txid i rid b) (enumerate 0 (last_first (mv_input_order env inputs))), j)"
    by blast
  then show ?thesis
    by (simp add: parse_mempool_tx_def assms(1-4) mempool_artifact_def mempool_allocate_def burn_entry_def
        last_first_def)
qed

end
