(* ===== verification/Mempool_Sync.thy ===== *)
theory Mempool_Sync
  imports Mempool_Books Index
begin

text \<open>
  The tasks that keep the mempool ledger (\<^verbatim>\<open>src/mempool.rs\<close>): the scan at start, the messages of
  the node, and the ids of transactions in new blocks. They share the cache of known ids and
  the table. Main facts: run one after the other, they record every transaction at most once,
  as it was parsed, and only while its id is in the cache; the ids the indexer sends do not match
  the cache, and so the tasks keep this also when they are interleaved.

  The node and the parser of raw transactions are parameters. \<open>None\<close> is a panic or the exit of
  the program.
\<close>

section \<open>The cache and the table\<close>

record mempool_state =
  mp_cache :: "ustr set"
  mp_ledger :: "mempool_entry list"

text \<open>
  One parameter for each id of the \<open>IN\<close> list, which holds every id once; a statement with more than
  the server accepts fails, and the program exits.
\<close>

definition pg_remove_mempool_tx :: "nat \<Rightarrow> ustr set \<Rightarrow> mempool_entry list \<Rightarrow> mempool_entry list option" where
  "pg_remove_mempool_tx bind_limit txids ledger =
     (if txids = {} then Some ledger
      else if card txids > bind_limit then None
      else Some (filter (\<lambda>e. me_tx_id e \<notin> txids) ledger))"

text \<open>One statement for all rows, with eight parameters each.\<close>

definition pg_insert_mempool_ledger_entries ::
    "nat \<Rightarrow> mempool_entry list \<Rightarrow> mempool_entry list \<Rightarrow> (bool \<times> mempool_entry list) option" where
  "pg_insert_mempool_ledger_entries bind_limit rows ledger =
     (if rows = [] then Some (False, ledger)
      else if 8 * length rows > bind_limit then None
      else Some (True, ledger @ rows))"

definition pg_actualize_mempool_cache :: "mempool_state \<Rightarrow> mempool_state" where
  "pg_actualize_mempool_cache s =
     s\<lparr>mp_cache := fold (\<lambda>e. insert (me_tx_id e)) (mp_ledger s) (mp_cache s)\<rparr>"

section \<open>Tasks\<close>

definition zmq_transaction ::
    "'s mempool_env \<Rightarrow> database \<Rightarrow> 's transaction \<Rightarrow> mempool_state \<Rightarrow> mempool_state option" where
  "zmq_transaction env db tx s =
     (let txid = tx_id tx in
      if txid \<in> mp_cache s then Some s
      else do {
        let s = s\<lparr>mp_cache := insert txid (mp_cache s)\<rparr>;
        ledger_entries \<leftarrow> parse_mempool_tx env tx txid db;
        (_, ledger) \<leftarrow> pg_insert_mempool_ledger_entries (mv_bind_limit env) ledger_entries (mp_ledger s);
        Some (s\<lparr>mp_ledger := ledger\<rparr>)
      })"

text \<open>A message that does not parse is skipped.\<close>

definition zmq_message ::
    "('d \<Rightarrow> 's transaction option) \<Rightarrow> 's mempool_env \<Rightarrow> database \<Rightarrow> 'd \<Rightarrow> mempool_state
     \<Rightarrow> mempool_state option" where
  "zmq_message deserialize env db data s =
     (case deserialize data of
        None \<Rightarrow> Some s
      | Some tx \<Rightarrow> zmq_transaction env db tx s)"

fun scan_each ::
    "'s mempool_env \<Rightarrow> (ustr \<Rightarrow> 's transaction option) \<Rightarrow> database \<Rightarrow> ustr list \<Rightarrow> ustr set
     \<Rightarrow> mempool_entry list \<Rightarrow> (ustr set \<times> mempool_entry list) option" where
  "scan_each env get_by_id db [] cache entries = Some (cache, entries)"
| "scan_each env get_by_id db (txid # txids) cache entries =
     (if txid \<in> cache then scan_each env get_by_id db txids cache entries
      else
        case get_by_id txid of
          None \<Rightarrow> scan_each env get_by_id db txids (insert txid cache) entries
        | Some tx \<Rightarrow>
            do {
              new \<leftarrow> parse_mempool_tx env tx txid db;
              scan_each env get_by_id db txids (insert txid cache) (entries @ new)
            })"

text \<open>An error of the node ends the scan and leaves everything as it is.\<close>

definition scan_mempool ::
    "'s mempool_env \<Rightarrow> ustr list option \<Rightarrow> (ustr \<Rightarrow> 's transaction option) \<Rightarrow> database
     \<Rightarrow> mempool_state \<Rightarrow> mempool_state option" where
  "scan_mempool env raw_mempool get_by_id db s =
     (case raw_mempool of
        None \<Rightarrow> Some s
      | Some txs \<Rightarrow>
          do {
            ledger \<leftarrow> pg_remove_mempool_tx (mv_bind_limit env) (mp_cache s - set txs) (mp_ledger s);
            (cache, entries) \<leftarrow> scan_each env get_by_id db txs (mp_cache s) [];
            (_, ledger) \<leftarrow> pg_insert_mempool_ledger_entries (mv_bind_limit env) entries ledger;
            Some \<lparr>mp_cache = cache, mp_ledger = ledger\<rparr>
          })"

definition set_up_mempool ::
    "'s mempool_env \<Rightarrow> ustr list option \<Rightarrow> (ustr \<Rightarrow> 's transaction option) \<Rightarrow> database
     \<Rightarrow> mempool_entry list \<Rightarrow> mempool_state option" where
  "set_up_mempool env raw_mempool get_by_id db ledger =
     scan_mempool env raw_mempool get_by_id db
       (pg_actualize_mempool_cache \<lparr>mp_cache = {}, mp_ledger = ledger\<rparr>)"

definition remove_escaped :: "'s mempool_env \<Rightarrow> ustr \<Rightarrow> mempool_state \<Rightarrow> mempool_state option" where
  "remove_escaped env txid s =
     (if txid \<in> mp_cache s
      then do {
        ledger \<leftarrow> pg_remove_mempool_tx (mv_bind_limit env) {txid} (mp_ledger s);
        Some \<lparr>mp_cache = mp_cache s - {txid}, mp_ledger = ledger\<rparr>
      }
      else Some s)"

text \<open>The loop over the ids received.\<close>

fun remove_escaped_transactions :: "'s mempool_env \<Rightarrow> ustr list \<Rightarrow> mempool_state \<Rightarrow> mempool_state option" where
  "remove_escaped_transactions env [] s = Some s"
| "remove_escaped_transactions env (txid # txids) s =
     do { s \<leftarrow> remove_escaped env txid s; remove_escaped_transactions env txids s }"

section \<open>One task after the other\<close>

inductive watched :: "'s mempool_env \<Rightarrow> mempool_state \<Rightarrow> bool" for env where
  fresh: "set_up_mempool env raw_mempool get_by_id db [] = Some s \<Longrightarrow> watched env s"
| restarted: "watched env s \<Longrightarrow>
    set_up_mempool env raw_mempool get_by_id db (mp_ledger s) = Some s' \<Longrightarrow> watched env s'"
| received: "watched env s \<Longrightarrow> zmq_transaction env db tx s = Some s' \<Longrightarrow>
    watched env s'"
| confirmed: "watched env s \<Longrightarrow> remove_escaped env txid s = Some s' \<Longrightarrow> watched env s'"

definition rows_of_tx :: "ustr \<Rightarrow> mempool_entry list \<Rightarrow> mempool_entry list" where
  "rows_of_tx txid es = filter (\<lambda>e. me_tx_id e = txid) es"

lemma rows_of_tx_simps [simp]:
  "rows_of_tx t [] = []" "rows_of_tx t (es @ fs) = rows_of_tx t es @ rows_of_tx t fs"
  by (simp_all add: rows_of_tx_def)

text \<open>
  The contract of the cache and the table: the table holds nothing of an unknown id, and of a
  known one nothing or what one parse gave.
\<close>

definition recorded :: "'s mempool_env \<Rightarrow> ustr set \<Rightarrow> mempool_entry list \<Rightarrow> bool" where
  "recorded env cache ledger \<longleftrightarrow>
     (\<forall>t. rows_of_tx t ledger \<noteq> [] \<longrightarrow>
       t \<in> cache \<and> (\<exists>tx db. parse_mempool_tx env tx t db = Some (rows_of_tx t ledger)))"

text \<open>Every entry of a parse carries the id it was called with.\<close>

definition of_tx :: "ustr \<Rightarrow> mempool_entry list \<Rightarrow> bool" where
  "of_tx t es = list_all (\<lambda>e. me_tx_id e = t) es"

lemma of_tx_simps [simp]:
  "of_tx t []" "of_tx t (es @ fs) \<longleftrightarrow> of_tx t es \<and> of_tx t fs"
  "of_tx t (e # es) \<longleftrightarrow> me_tx_id e = t \<and> of_tx t es"
  by (simp_all add: of_tx_def)

lemma new_mempool_entry_tx [simp]:
  "new_mempool_entry amount rid out address receiver op txid idx = (e, j) \<Longrightarrow> me_tx_id e = txid"
  by (auto simp: new_mempool_entry_def mempool_from_values_def)

lemma mempool_senders_tx: "mempool_senders txid rid out receiver op ss idx = (es, j) \<Longrightarrow> of_tx txid es"
  by (induction ss arbitrary: idx es) (auto simp: Let_def split: prod.splits)

lemma mempool_move_tx:
  "mempool_move address_of net txid out rid inputs outputs amount idx = (es, rest, j) \<Longrightarrow> of_tx txid es"
  by (auto simp: mempool_move_def Let_def mempool_senders_tx split: prod.splits if_splits)

lemma mempool_each_tx:
  "mempool_each address_of net txid rid outputs dests inputs idx = (es, rest, j) \<Longrightarrow> of_tx txid es"
  by (induction dests arbitrary: inputs idx es) (auto simp: Let_def mempool_move_tx split: prod.splits)

lemma collect_edicts_tx:
  "collect_edicts address_of net e inputs outputs idx txid n = (es, inputs', j) \<Longrightarrow> of_tx txid es"
  by (auto simp: collect_edicts_def Let_def mempool_move_tx mempool_each_tx
      split: if_splits option.splits prod.splits)

lemma mempool_edicts_tx:
  "mempool_edicts address_of net txid n outputs es entries inputs idx = (entries', inputs', outputs', j) \<Longrightarrow>
   of_tx txid entries \<Longrightarrow> of_tx txid entries'"
  by (induction es arbitrary: entries inputs idx)
    (auto simp: Let_def collect_edicts_tx split: if_splits prod.splits)

lemma burn_balances_tx: "burn_input_balances txid rid bs idx = (es, j) \<Longrightarrow> of_tx txid es"
  by (induction bs arbitrary: idx es) (auto simp: Let_def split: prod.splits)

lemma burn_runes_tx: "burn_input_runes txid rs idx = (es, j) \<Longrightarrow> of_tx txid es"
  by (induction rs arbitrary: idx es) (auto simp: Let_def burn_balances_tx split: prod.splits)

lemma allocate_each_tx: "allocate_each address_of net txid p outputs rs idx = (es, j) \<Longrightarrow> of_tx txid es"
  by (induction rs arbitrary: idx es) (auto simp: Let_def mempool_move_tx split: prod.splits)

lemma mempool_artifact_tx:
  assumes "mempool_artifact env txid n a inputs outputs = (es, pointer, inputs', outputs', j)"
  shows "of_tx txid es"
proof (cases a)
  case (Cenotaph cn)
  obtain fs k where b: "burn_input_runes txid (mv_input_order env inputs) 0 = (fs, k)" by fastforce
  from assms burn_runes_tx [OF b] show ?thesis
    by (cases "cn_etching cn") (auto simp: mempool_artifact_def Cenotaph burn_input_def b
      mempool_cenotaph_etching_def split: prod.splits)
next
  case (Runestone rs)
  from assms show ?thesis
    by (auto simp: mempool_artifact_def Runestone dest: mempool_edicts_tx split: prod.splits)
qed

lemma parse_mempool_tx_id:
  assumes "parse_mempool_tx env tx txid db = Some es"
  shows "of_tx txid es"
proof -
  obtain found where d: "decipher (mv_instructions env) tx = Some found"
    using assms by (auto simp: parse_mempool_tx_def bind_eq_Some_conv)
  show ?thesis
  proof (cases found)
    case None
    with assms d show ?thesis by (simp add: parse_mempool_tx_def)
  next
    case (Some a)
    let ?outs = "collect_eligible_outputs (mv_is_op_return env) tx"
    obtain inputs where i: "collect_input_rune_balances_pg env (tx_input tx) db = Some inputs"
      using assms by (auto simp: parse_mempool_tx_def d Some bind_eq_Some_conv Let_def)
    obtain entries pointer inputs1 outputs1 j where
      m: "mempool_artifact env txid (of_nat (length (tx_output tx))) a inputs ?outs =
        (entries, pointer, inputs1, outputs1, j)"
      by (metis prod_cases5)
    obtain rest k where r: "allocate_each (mv_address_of env) (mv_network env) txid pointer outputs1
        (mv_input_order env inputs1) j = (rest, k)"
      by fastforce
    have "es = entries @ rest"
      using assms by (simp add: parse_mempool_tx_def d Some i m mempool_allocate_def r Let_def)
    with mempool_artifact_tx [OF m] allocate_each_tx [OF r] show ?thesis by simp
  qed
qed

lemma rows_of_tx_of: "of_tx t es \<Longrightarrow> rows_of_tx u es = (if u = t then es else [])"
  by (induction es) (auto simp: rows_of_tx_def)

lemma rows_of_tx_filter:
  "filter (\<lambda>e. me_tx_id e = t) (filter (\<lambda>e. me_tx_id e \<notin> X) es) =
   (if t \<in> X then [] else filter (\<lambda>e. me_tx_id e = t) es)"
  by (induction es) auto

lemma rows_of_tx_remove:
  "pg_remove_mempool_tx n X es = Some es' \<Longrightarrow> rows_of_tx t es' = (if t \<in> X then [] else rows_of_tx t es)"
  by (cases "X = {}") (auto simp: rows_of_tx_def pg_remove_mempool_tx_def rows_of_tx_filter
      simp del: filter_filter split: if_splits)

section \<open>Every task keeps the contract\<close>

lemma recorded_Nil [simp]: "recorded env cache []"
  by (simp add: recorded_def)

lemma recorded_parse:
  assumes "recorded env cache ledger" "t \<notin> cache" "parse_mempool_tx env tx t db = Some es"
  shows "recorded env (insert t cache) (ledger @ es)"
proof -
  have "rows_of_tx t ledger = []" using assms(1,2) by (auto simp: recorded_def)
  with assms rows_of_tx_of [OF parse_mempool_tx_id [OF assms(3)]] show ?thesis
    by (auto simp: recorded_def)
qed

lemma recorded_known: "recorded env cache ledger \<Longrightarrow> recorded env (insert t cache) ledger"
  by (auto simp: recorded_def)

lemma recorded_remove:
  "recorded env cache ledger \<Longrightarrow> pg_remove_mempool_tx n X ledger = Some ledger' \<Longrightarrow> recorded env cache ledger'"
  "recorded env cache ledger \<Longrightarrow> pg_remove_mempool_tx n {t} ledger = Some ledger' \<Longrightarrow>
   recorded env (cache - {t}) ledger'"
  by (auto simp: recorded_def rows_of_tx_remove)

lemma pg_insert_Some:
  "pg_insert_mempool_ledger_entries n rows ledger = Some (b, ledger') \<Longrightarrow> ledger' = ledger @ rows"
  by (auto simp: pg_insert_mempool_ledger_entries_def split: if_splits)

lemma zmq_transaction_recorded:
  assumes "recorded env (mp_cache s) (mp_ledger s)" "zmq_transaction env db tx s = Some s'"
  shows "recorded env (mp_cache s') (mp_ledger s')"
  using assms
  by (auto simp: zmq_transaction_def Let_def bind_eq_Some_conv recorded_parse dest!: pg_insert_Some
      split: if_splits)

lemma scan_each_recorded:
  assumes "scan_each env get_by_id db txs cache entries = Some (cache', entries')"
    and "recorded env cache (ledger @ entries)"
  shows "recorded env cache' (ledger @ entries') \<and> cache \<subseteq> cache'"
  using assms
proof (induction env get_by_id db txs cache entries rule: scan_each.induct)
  case (2 env get_by_id db txid txids cache entries)
  show ?case
  proof (cases "txid \<in> cache")
    case True
    with 2 show ?thesis by simp
  next
    case False
    note new = False
    show ?thesis
    proof (cases "get_by_id txid")
      case None
      with 2 new show ?thesis by (auto simp: recorded_known)
    next
      case (Some tx)
      with "2.prems" new obtain es where es: "parse_mempool_tx env tx txid db = Some es"
        "scan_each env get_by_id db txids (insert txid cache) (entries @ es) = Some (cache', entries')"
        by (auto simp: bind_eq_Some_conv)
      with "2.IH"(3) [OF new Some es] recorded_parse [OF "2.prems"(2) new es(1)] show ?thesis by auto
    qed
  qed
qed simp

lemma scan_mempool_recorded:
  assumes "scan_mempool env raw get_by_id db s = Some s'" "recorded env (mp_cache s) (mp_ledger s)"
  shows "recorded env (mp_cache s') (mp_ledger s')"
proof (cases raw)
  case None
  with assms show ?thesis by (simp add: scan_mempool_def)
next
  case (Some txs)
  from assms(1) Some obtain l0 cache es b l where
    r: "pg_remove_mempool_tx (mv_bind_limit env) (mp_cache s - set txs) (mp_ledger s) = Some l0"
    and e: "scan_each env get_by_id db txs (mp_cache s) [] = Some (cache, es)"
    "pg_insert_mempool_ledger_entries (mv_bind_limit env) es l0 = Some (b, l)" "s' = \<lparr>mp_cache = cache, mp_ledger = l\<rparr>"
    by (auto simp: scan_mempool_def bind_eq_Some_conv)
  from scan_each_recorded [OF e(1), of l0] recorded_remove(1) [OF assms(2) r] e(3) pg_insert_Some [OF e(2)]
  show ?thesis by simp
qed

lemma actualize_cache: "mp_cache (pg_actualize_mempool_cache s) = mp_cache s \<union> me_tx_id ` set (mp_ledger s)"
proof -
  have "fold (\<lambda>e. insert (me_tx_id e)) es c = c \<union> me_tx_id ` set es" for es c
    by (induction es arbitrary: c) auto
  then show ?thesis by (simp add: pg_actualize_mempool_cache_def)
qed

lemma recorded_actualize:
  assumes "recorded env cache ledger"
  shows "recorded env (me_tx_id ` set ledger) ledger"
proof -
  have "t \<in> me_tx_id ` set ledger" if "rows_of_tx t ledger \<noteq> []" for t
    using that by (auto simp: rows_of_tx_def filter_empty_conv)
  with assms show ?thesis by (auto simp: recorded_def)
qed

lemma set_up_recorded:
  assumes "set_up_mempool env raw get_by_id db ledger = Some s" "recorded env cache ledger"
  shows "recorded env (mp_cache s) (mp_ledger s)"
  using scan_mempool_recorded [OF assms(1) [unfolded set_up_mempool_def]] recorded_actualize [OF assms(2)]
  by (simp add: actualize_cache) (simp add: pg_actualize_mempool_cache_def)

lemma watched_recorded: "watched env s \<Longrightarrow> recorded env (mp_cache s) (mp_ledger s)"
proof (induction rule: watched.induct)
  case (fresh raw get_by_id db s)
  then show ?case by (rule set_up_recorded) (rule recorded_Nil)
next
  case (restarted s raw get_by_id db s')
  then show ?case by (blast intro: set_up_recorded)
next
  case (received s db tx s')
  then show ?case by (blast intro: zmq_transaction_recorded)
next
  case (confirmed s txid s')
  then show ?case by (auto simp: remove_escaped_def bind_eq_Some_conv dest: recorded_remove(2) split: if_splits)
qed

section \<open>Interleaving\<close>

text \<open>
  The two tasks with their positions: the transaction whose id is in the cache and whose rows
  are not written yet, and the id that has left the cache and whose rows are not deleted yet.
  The node announces the transactions \<open>announced\<close>, the indexer sends the ids \<open>sent\<close>.
\<close>

type_synonym 's tasks = "mempool_state \<times> 's transaction option \<times> ustr option"

inductive task_step :: "'s mempool_env \<Rightarrow> 's transaction set \<Rightarrow> ustr set \<Rightarrow> 's tasks \<Rightarrow> 's tasks \<Rightarrow> bool"
  for env announced sent where
  marked: "tx \<in> announced \<Longrightarrow> tx_id tx \<notin> mp_cache s \<Longrightarrow>
    task_step env announced sent (s, None, d) (s\<lparr>mp_cache := insert (tx_id tx) (mp_cache s)\<rparr>, Some tx, d)"
| written: "parse_mempool_tx env tx (tx_id tx) db = Some es \<Longrightarrow>
    pg_insert_mempool_ledger_entries (mv_bind_limit env) es (mp_ledger s) = Some (b, ledger) \<Longrightarrow>
    task_step env announced sent (s, Some tx, d) (s\<lparr>mp_ledger := ledger\<rparr>, None, d)"
| taken: "txid \<in> sent \<Longrightarrow> txid \<in> mp_cache s \<Longrightarrow>
    task_step env announced sent (s, w, None) (s\<lparr>mp_cache := mp_cache s - {txid}\<rparr>, w, Some txid)"
| deleted: "pg_remove_mempool_tx (mv_bind_limit env) {txid} (mp_ledger s) = Some ledger \<Longrightarrow>
    task_step env announced sent (s, w, Some txid) (s\<lparr>mp_ledger := ledger\<rparr>, w, None)"

abbreviation task_steps :: "'s mempool_env \<Rightarrow> 's transaction set \<Rightarrow> ustr set \<Rightarrow> 's tasks \<Rightarrow> 's tasks \<Rightarrow> bool" where
  "task_steps env announced sent \<equiv> (task_step env announced sent)\<^sup>*\<^sup>*"

inductive_cases task_stepE: "task_step env announced sent (s, w, d) t"

text \<open>Without interleaving the steps are the tasks.\<close>

lemma zmq_transaction_steps:
  assumes "zmq_transaction env db tx s = Some s'" "tx \<in> announced"
  shows "task_steps env announced sent (s, None, d) (s', None, d)"
proof (cases "tx_id tx \<in> mp_cache s")
  case True
  with assms show ?thesis by (simp add: zmq_transaction_def)
next
  case False
  let ?s = "s\<lparr>mp_cache := insert (tx_id tx) (mp_cache s)\<rparr>"
  from assms False obtain es b l where
    "parse_mempool_tx env tx (tx_id tx) db = Some es"
    "pg_insert_mempool_ledger_entries (mv_bind_limit env) es (mp_ledger ?s) = Some (b, l)" "s' = ?s\<lparr>mp_ledger := l\<rparr>"
    by (auto simp: zmq_transaction_def bind_eq_Some_conv Let_def)
  with written [of env tx db es ?s b l announced sent d] marked [OF assms(2) False, of env sent d] show ?thesis
    by (auto intro: converse_rtranclp_into_rtranclp)
qed

lemma remove_escaped_steps:
  assumes "remove_escaped env txid s = Some s'" "txid \<in> sent"
  shows "task_steps env announced sent (s, w, None) (s', w, None)"
proof (cases "txid \<in> mp_cache s")
  case True
  let ?s = "s\<lparr>mp_cache := mp_cache s - {txid}\<rparr>"
  from assms(1) True obtain l where l: "pg_remove_mempool_tx (mv_bind_limit env) {txid} (mp_ledger ?s) = Some l"
    "s' = ?s\<lparr>mp_ledger := l\<rparr>"
    by (auto simp: remove_escaped_def bind_eq_Some_conv)
  from taken [OF assms(2) True, of env announced w] deleted [OF l(1), of announced sent w] l(2) show ?thesis
    by (metis converse_rtranclp_into_rtranclp r_into_rtranclp)
qed (use assms(1) in \<open>simp add: remove_escaped_def\<close>)

text \<open>
  The contract of \<open>recorded\<close> between the steps: a transaction that is marked has no rows yet, and
  the task of the confirmed ids has taken none.
\<close>

definition tasks_ok :: "'s mempool_env \<Rightarrow> 's transaction set \<Rightarrow> ustr set \<Rightarrow> mempool_state \<Rightarrow> 's tasks \<Rightarrow> bool" where
  "tasks_ok env announced sent s0 t \<longleftrightarrow>
     (case t of (s, w, d) \<Rightarrow>
       recorded env (mp_cache s) (mp_ledger s) \<and> d = None \<and>
       mp_cache s \<subseteq> mp_cache s0 \<union> tx_id ` announced \<and> mp_cache s0 \<subseteq> mp_cache s \<and>
       (\<exists>es. mp_ledger s = mp_ledger s0 @ es) \<and>
       (case w of None \<Rightarrow> True
        | Some tx \<Rightarrow> tx_id tx \<in> mp_cache s \<and> rows_of_tx (tx_id tx) (mp_ledger s) = []))"

lemma recorded_fill:
  assumes "recorded env cache ledger" "t \<in> cache" "rows_of_tx t ledger = []"
    and "parse_mempool_tx env tx t db = Some es"
  shows "recorded env cache (ledger @ es)"
  using assms rows_of_tx_of [OF parse_mempool_tx_id [OF assms(4)]] by (auto simp: recorded_def)

lemma task_step_ok:
  assumes "task_step env announced sent t t'" "tasks_ok env announced sent s0 t"
    and "sent \<inter> (mp_cache s0 \<union> tx_id ` announced) = {}"
  shows "tasks_ok env announced sent s0 t'"
  using assms(1)
proof cases
  case (marked tx s d)
  have "rows_of_tx (tx_id tx) (mp_ledger s) = []"
    using assms(2) marked(4) by (auto simp: tasks_ok_def marked(1) recorded_def)
  with assms(2) marked show ?thesis by (auto simp: tasks_ok_def recorded_known)
next
  case (written tx db es s b ledger d)
  with assms(2) have "ledger = mp_ledger s @ es" "recorded env (mp_cache s) (mp_ledger s @ es)"
    by (auto simp: tasks_ok_def dest: pg_insert_Some intro: recorded_fill)
  with assms(2) written show ?thesis by (auto simp: tasks_ok_def)
next
  case (taken txid s w)
  with assms(2,3) show ?thesis by (auto simp: tasks_ok_def)
next
  case (deleted txid s ledger w)
  with assms(2) show ?thesis by (simp add: tasks_ok_def)
qed

section \<open>Ids of new blocks\<close>

lemma remove_unknown: "txid \<notin> mp_cache s \<Longrightarrow> remove_escaped env txid s = Some s"
  by (simp add: remove_escaped_def)

lemma remove_all_unknown: "set txids \<inter> mp_cache s = {} \<Longrightarrow> remove_escaped_transactions env txids s = Some s"
  by (induction txids) (simp_all add: remove_unknown)

lemma index_block_ids:
  "index_block env notify b s = Some (s', ids) \<Longrightarrow> ids = (if notify then map td_txid (bd_txs b) else [])"
  by (auto simp: index_block_def bind_eq_Some_conv Let_def)

lemma scan_each_keeps:
  assumes "scan_each env get_by_id db txs cache entries = Some (cache', entries')" "t \<notin> set txs" "t \<in> cache"
  shows "rows_of_tx t entries' = rows_of_tx t entries \<and> t \<in> cache'"
  using assms
proof (induction env get_by_id db txs cache entries rule: scan_each.induct)
  case (2 env get_by_id db txid txids cache entries)
  then show ?case
    by (auto simp: bind_eq_Some_conv rows_of_tx_of [OF parse_mempool_tx_id] split: if_splits option.splits)
qed simp

section \<open>Properties\<close>

text \<open>
  C18. However often the service starts, scans, receives transactions and is told of confirmed
  ones, one task after the other: the table has rows of an id only while the cache has the id,
  and they are the rows of one parse of the transaction. A confirmed id leaves nothing.
\<close>

theorem mempool_recorded_once:
  assumes "watched env s"
  shows "(rows_of_tx t (mp_ledger s) = [] \<or>
      t \<in> mp_cache s \<and> (\<exists>tx db. parse_mempool_tx env tx t db = Some (rows_of_tx t (mp_ledger s)))) \<and>
    (\<forall>s'. remove_escaped env t s = Some s' \<longrightarrow> rows_of_tx t (mp_ledger s') = [] \<and> t \<notin> mp_cache s') \<and>
    (0 < mv_bind_limit env \<longrightarrow> remove_escaped env t s \<noteq> None)"
proof (intro conjI allI impI)
  have r: "recorded env (mp_cache s) (mp_ledger s)" by (rule watched_recorded [OF assms])
  then show "rows_of_tx t (mp_ledger s) = [] \<or>
      t \<in> mp_cache s \<and> (\<exists>tx db. parse_mempool_tx env tx t db = Some (rows_of_tx t (mp_ledger s)))"
    by (auto simp: recorded_def)
  show "rows_of_tx t (mp_ledger s') = []" if "remove_escaped env t s = Some s'" for s'
    using r that by (auto simp: recorded_def remove_escaped_def bind_eq_Some_conv rows_of_tx_remove split: if_splits)
  show "t \<notin> mp_cache s'" if "remove_escaped env t s = Some s'" for s'
    using that by (auto simp: remove_escaped_def bind_eq_Some_conv split: if_splits)
  show "remove_escaped env t s \<noteq> None" if "0 < mv_bind_limit env"
    using that by (simp add: remove_escaped_def pg_remove_mempool_tx_def)
qed


text \<open>
  C20. The ids the indexer sends for a new block have the prefix \<open>0x\<close> of the block data, the ids
  in the mempool cache are hexadecimal digits: the message for a confirmed transaction never
  finds it, so nothing in the mempool ledger is ever removed by a block.
\<close>

theorem confirmed_stays_in_mempool:
  assumes "index_block env True b s = Some (s', ids)"
    and "\<forall>t \<in> set (bd_txs b). take 2 (td_txid t) = lit ''0x''"
    and "\<forall>t \<in> mp_cache m. 120 \<notin> set t"
  shows "remove_escaped_transactions menv ids m = Some m"
proof (rule remove_all_unknown)
  have ids: "ids = map td_txid (bd_txs b)" using index_block_ids [OF assms(1)] by simp
  have "120 \<in> set (td_txid t)" if "t \<in> set (bd_txs b)" for t
  proof -
    have "120 \<in> set (take 2 (td_txid t))" using assms(2) that by (simp add: lit_def)
    then show ?thesis by (rule in_set_takeD)
  qed
  with assms(3) ids show "set ids \<inter> mp_cache m = {}" by auto
qed

text \<open>
  C24. A scan deletes the rows of transactions that have left the mempool but keeps their ids in
  the cache, so that such a transaction is ignored when the node announces it again.
\<close>

theorem dropped_stays_in_cache:
  assumes "scan_mempool env (Some txs) get_by_id db s = Some s'"
    and "t \<in> mp_cache s" "t \<notin> set txs" "tx_id tx = t"
  shows "rows_of_tx t (mp_ledger s') = [] \<and> zmq_transaction env db' tx s' = Some s'"
proof -
  from assms(1) obtain l0 cache es b l where
    r: "pg_remove_mempool_tx (mv_bind_limit env) (mp_cache s - set txs) (mp_ledger s) = Some l0"
    and e: "scan_each env get_by_id db txs (mp_cache s) [] = Some (cache, es)"
    "pg_insert_mempool_ledger_entries (mv_bind_limit env) es l0 = Some (b, l)" "s' = \<lparr>mp_cache = cache, mp_ledger = l\<rparr>"
    by (auto simp: scan_mempool_def bind_eq_Some_conv)
  from scan_each_keeps [OF e(1) assms(3,2)] pg_insert_Some [OF e(2)] assms(2-4) show ?thesis
    by (simp add: e(3) rows_of_tx_remove [OF r] zmq_transaction_def)
qed

end
