(* ===== verification/Mempool_Samples.thy ===== *)
theory Mempool_Samples
  imports Mempool_Books Encipher
begin

text \<open>
  A transfer in the mempool: a transaction that spends five units of a rune, with an empty
  runestone, and the witnesses of the properties of mempool transactions on it.
\<close>

definition transfer_env :: "instruction list mempool_env" where
  "transfer_env =
     \<lparr>mv_network = Bitcoin, mv_instructions = List.map ItemOk,
      mv_is_op_return = (\<lambda>s. take 1 s = [Op OP_RETURN]),
      mv_address_of = (\<lambda>s n. if s = [] then None else Some [length s]),
      mv_row_order = (\<lambda>m. m), mv_bind_limit = 65535, mv_output_order = (\<lambda>m. m), mv_balance_order = (\<lambda>m. m),
      mv_input_order = (\<lambda>m. m)\<rparr>"

definition transfer_tx :: "instruction list transaction" where
  "transfer_tx =
     \<lparr>tx_id = [98], tx_input = [\<lparr>op_txid = [97], op_vout = 0\<rparr>],
      tx_output = [\<lparr>out_value = 546, out_script = [Op 1]\<rparr>,
        \<lparr>out_value = 0, out_script = [Op OP_RETURN, Op MAGIC_NUMBER]\<rparr>]\<rparr>"

definition transfer_entry :: ledger_entry where
  "transfer_entry =
     \<lparr>le_rune_id = rune_id_to_string (RuneId 1 0), le_block_hash = [], le_block_height = 1, le_tx_index = 0,
      le_event_index = 0, le_tx_id = [97], le_output = Some 0, le_address = Some [7],
      le_receiver = None, le_amount = Some 5, le_operation = OpReceive, le_timestamp = 0\<rparr>"

definition transfer_tables :: database where
  "transfer_tables =
     \<lparr>db_runes = [], db_supply = [], db_ledger = [transfer_entry], db_balances = [], db_height = 1\<rparr>"

definition empty_runestone :: runestone where
  "empty_runestone = \<lparr>rs_edicts = [], rs_etching = None, rs_mint = None, rs_pointer = None\<rparr>"

lemma transfer_inputs:
  "collect_input_rune_balances_pg transfer_env (tx_input transfer_tx) transfer_tables =
     Some [(RuneId 1 0, [\<lparr>ib_address = Some [7], ib_amount = 5\<rparr>])]"
  by (simp add: collect_input_rune_balances_pg_def transfer_env_def transfer_tx_def transfer_tables_def
      transfer_entry_def pg_get_input_rune_balances_def input_rows_def codec hm_upsert_def
      merge_input_def add_balance_def)

lemma transfer_decipher:
  "decipher (mv_instructions transfer_env) transfer_tx = Some (Some (Runestone empty_runestone))"
  by (simp add: decipher_def transfer_env_def transfer_tx_def OP_RETURN_def integers_of_def
      integers_loop.simps [of "[]"] from_integers_def message_artifact_def take_flags_def take_etching_def
      flag_take_def tag_take_def unwrap_or_def flag_mask_def empty_runestone_def Let_def)

lemma transfer_parsed:
  obtains e where "parse_mempool_tx transfer_env transfer_tx [98] transfer_tables = Some [e]"
    "me_amount e = Some 5"
proof -
  have "\<exists>e. parse_mempool_tx transfer_env transfer_tx [98] transfer_tables = Some [e] \<and> me_amount e = Some 5"
    unfolding parse_mempool_tx_def transfer_decipher transfer_inputs
    by (simp add: mempool_artifact_def empty_runestone_def mempool_allocate_def transfer_env_def
        mempool_move_def mempool_receiver_def take_back.simps new_mempool_entry_def
        mempool_from_values_def Let_def)
  with that show thesis by blast
qed

lemma mempool_transfer_burnt_witness:
  "parse_mempool_tx transfer_env transfer_tx [98] transfer_tables = Some
     [\<lparr>me_rune_id = rune_id_to_string (RuneId 1 0), me_event_index = 0, me_tx_id = [98], me_output = None,
       me_address = Some [7], me_receiver = None, me_amount = Some 5, me_operation = OpBurn\<rparr>]"
proof -
  have "is_iteration (mv_input_order transfer_env)" by (simp add: transfer_env_def is_iteration_id)
  from mempool_transfer_burnt [OF transfer_decipher _ _ transfer_inputs this, of "[98]"] show ?thesis
    by (simp add: empty_runestone_def) (simp add: transfer_env_def)
qed

lemma mempool_no_inflation_witness:
  "\<exists>es. parse_mempool_tx transfer_env transfer_tx [98] transfer_tables = Some es \<and>
     mempool_received (RuneId 1 0) es \<le> 5"
proof -
  obtain e where e: "parse_mempool_tx transfer_env transfer_tx [98] transfer_tables = Some [e]"
    by (rule transfer_parsed)
  have "is_iteration (mv_input_order transfer_env)" by (simp add: transfer_env_def is_iteration_id)
  from mempool_no_inflation [OF this transfer_inputs e, of "RuneId 1 0"] e show ?thesis
    by (simp add: unwrap_or_def)
qed

text \<open>An edict over three of the five units, to the first output.\<close>

lemma mempool_edict_matches_index_witness:
  "\<exists>ls c. apply_edict (\<lambda>s n. Some s) \<lparr>ed_id = RuneId 1 0, ed_amount = 3, ed_output = 0\<rparr>
       (as_cache (some_location Bitcoin [98]) None [(0, [9])] 2
         [(RuneId 1 0, [\<lparr>ib_address = Some [7], ib_amount = 5\<rparr>])] 0) = Some (ls, c) \<and>
     map me_operation (map unconfirmed ls) = [OpReceive, OpSend]"
proof -
  let ?e = "\<lparr>ed_id = RuneId 1 0, ed_amount = 3, ed_output = 0\<rparr>" and ?l = "some_location Bitcoin [98]"
  let ?in = "[(RuneId 1 0, [\<lparr>ib_address = Some [7], ib_amount = 5\<rparr>])]"
  obtain es inputs' j where e: "collect_edicts (\<lambda>s n. Some s) (tl_network ?l) ?e ?in [(0, [9])] 0
      (drop 2 (tl_tx_id ?l)) 2 = (es, inputs', j)"
    by (metis prod_cases3)
  have ops: "map me_operation es = [OpReceive, OpSend]"
    using e by (auto simp: collect_edicts_def mempool_move_def mempool_receiver_def take_back.simps
        new_mempool_entry_def mempool_from_values_def Let_def)
  have "ed_id ?e \<noteq> UNINCLUDED_RUNE_ID" by (simp add: UNINCLUDED_RUNE_ID_def)
  from mempool_edict_matches_index [OF this some_location(1) e, of None] obtain ls where
    "apply_edict (\<lambda>s n. Some s) ?e (as_cache ?l None [(0, [9])] 2 ?in 0) =
      Some (ls, as_cache ?l None [(0, [9])] 2 inputs' j)" "es = map unconfirmed ls"
    by blast
  with ops show ?thesis by (intro exI conjI) simp_all
qed

end
