(* ===== verification/Sync_Samples.thy ===== *)
theory Sync_Samples
  imports Mempool_Sync Mempool_Samples Chain_Samples
begin

text \<open>
  The witnesses of the properties of the mempool tasks, on the transfer of
  \<^verbatim>\<open>Mempool_Samples\<close> and the block of \<^verbatim>\<open>Chain_Samples\<close>.
\<close>

lemma transfer_env_limit: "mv_bind_limit transfer_env = 65535"
  by (simp add: transfer_env_def)

lemma transfer_received:
  obtains e where "zmq_transaction transfer_env transfer_tables transfer_tx \<lparr>mp_cache = {}, mp_ledger = []\<rparr> =
      Some \<lparr>mp_cache = {[98]}, mp_ledger = [e]\<rparr>"
    "parse_mempool_tx transfer_env transfer_tx [98] transfer_tables = Some [e]"
proof -
  obtain e where e: "parse_mempool_tx transfer_env transfer_tx [98] transfer_tables = Some [e]"
    by (rule transfer_parsed)
  have "tx_id transfer_tx = [98]" by (simp add: transfer_tx_def)
  with e that [of e] show thesis
    by (simp add: zmq_transaction_def pg_insert_mempool_ledger_entries_def transfer_env_limit)
qed

lemma empty_mempool:
  "set_up_mempool transfer_env (Some []) (\<lambda>t. None) transfer_tables [] = Some \<lparr>mp_cache = {}, mp_ledger = []\<rparr>"
  by (simp add: set_up_mempool_def pg_actualize_mempool_cache_def scan_mempool_def
      pg_remove_mempool_tx_def pg_insert_mempool_ledger_entries_def)

lemma mempool_recorded_once_witness:
  "\<exists>s. watched transfer_env s \<and> rows_of_tx [98] (mp_ledger s) \<noteq> [] \<and> [98] \<in> mp_cache s \<and>
     (\<exists>s'. remove_escaped transfer_env [98] s = Some s' \<and> rows_of_tx [98] (mp_ledger s') = [])"
proof -
  obtain e where e: "zmq_transaction transfer_env transfer_tables transfer_tx \<lparr>mp_cache = {}, mp_ledger = []\<rparr> =
      Some \<lparr>mp_cache = {[98]}, mp_ledger = [e]\<rparr>"
    "parse_mempool_tx transfer_env transfer_tx [98] transfer_tables = Some [e]"
    by (rule transfer_received)
  have w: "watched transfer_env \<lparr>mp_cache = {[98]}, mp_ledger = [e]\<rparr>"
    by (rule received [OF fresh [OF empty_mempool] e(1)])
  have "rows_of_tx [98] [e] = [e]"
    using rows_of_tx_of [OF parse_mempool_tx_id [OF e(2)], of "[98]"] by simp
  moreover obtain s' where "remove_escaped transfer_env [98] \<lparr>mp_cache = {[98]}, mp_ledger = [e]\<rparr> = Some s'"
    "rows_of_tx [98] (mp_ledger s') = []"
    using mempool_recorded_once [OF w, of "[98]"] by (auto simp: transfer_env_limit)
  ultimately show ?thesis using w by (intro exI [of _ "\<lparr>mp_cache = {[98]}, mp_ledger = [e]\<rparr>"]) auto
qed


text \<open>The transaction \<open>b\<close> is in the mempool when the block that contains it is indexed.\<close>

lemma confirmed_stays_in_mempool_witness:
  "\<exists>s ids. index_block sample_env True sample_block (sample_start, sample_tables) = Some (s, ids) \<and>
     ids = [lit ''0xb''] \<and>
     remove_escaped_transactions transfer_env ids \<lparr>mp_cache = {lit ''b''}, mp_ledger = []\<rparr> =
       Some \<lparr>mp_cache = {lit ''b''}, mp_ledger = []\<rparr>"
proof -
  obtain ic db where i: "index_block sample_env True sample_block (sample_start, sample_tables) =
      Some ((ic, db), [[48, 120, 98]])"
    by (rule sample_index_block)
  from confirmed_stays_in_mempool [OF i, of "\<lparr>mp_cache = {lit ''b''}, mp_ledger = []\<rparr>" transfer_env] i show ?thesis
    by (auto simp: sample_block_def lit_def)
qed

lemma dropped_stays_in_cache_witness:
  "\<exists>s'. scan_mempool transfer_env (Some []) (\<lambda>t. None) transfer_tables \<lparr>mp_cache = {[98]}, mp_ledger = []\<rparr> =
     Some s' \<and> zmq_transaction transfer_env transfer_tables transfer_tx s' = Some s'"
proof -
  have s: "scan_mempool transfer_env (Some []) (\<lambda>t. None) transfer_tables \<lparr>mp_cache = {[98]}, mp_ledger = []\<rparr> =
      Some \<lparr>mp_cache = {[98]}, mp_ledger = []\<rparr>"
    by (simp add: scan_mempool_def pg_remove_mempool_tx_def pg_insert_mempool_ledger_entries_def transfer_env_limit)
  from dropped_stays_in_cache [OF s, of "[98]" transfer_tx transfer_tables] s show ?thesis
    by (simp add: transfer_tx_def)
qed

end
