(* ===== verification/Service.thy ===== *)
theory Service
  imports Chain
begin

text \<open>
  The service around the indexer: scanning blocks of the node
  (\<^verbatim>\<open>src/scan/bitcoin.rs\<close>), catching up with its tip at start, and the blocks and
  re-organisations it is told of afterwards (\<^verbatim>\<open>src/service.rs\<close>). A loop that need not end is a
  \<open>partial_function\<close>, whose value \<open>None\<close> says that it does not return; a run that ends does so
  in one of three ways, and always with the state that the committed transactions have left.

  The node, the \<^verbatim>\<open>chainhook\<close> predicates and the sorting of heights are parameters.
\<close>

datatype ('e, 's) outcome = Returned 's | Failed 'e 's | Panicked 's

fun outcome_state :: "('e, 's) outcome \<Rightarrow> 's" where
  "outcome_state (Returned s) = s"
| "outcome_state (Failed e s) = s"
| "outcome_state (Panicked s) = s"

section \<open>Predicates\<close>

text \<open>
  The actions of the triggered predicates: one that cannot be handled is logged and left out,
  an error while it is carried out ends the loop. \<open>send\<close> is the request or the write of a file.
\<close>

fun execute_predicates_action ::
    "('t \<Rightarrow> 'e + 'a) \<Rightarrow> ('a \<Rightarrow> 'e option) \<Rightarrow> 't list \<Rightarrow> u32 \<Rightarrow> 'e + u32" where
  "execute_predicates_action handle send [] actions_triggered = Inr actions_triggered"
| "execute_predicates_action handle send (t # ts) actions_triggered =
     (case handle t of
        Inl e \<Rightarrow> execute_predicates_action handle send ts actions_triggered
      | Inr action \<Rightarrow>
          (case send action of
             Some e \<Rightarrow> Inl e
           | None \<Rightarrow> execute_predicates_action handle send ts (actions_triggered + 1)))"

text \<open>
  The node: the answer to the \<open>c\<close>-th question for its tip, the block of a height (an error of
  the node, or \<open>None\<close> where it cannot be standardised), and what the SDK does with heights and
  predicates.
\<close>

record ('s, 't, 'a, 'e) node =
  nd_tip :: "nat \<Rightarrow> u64"
  nd_block :: "u64 \<Rightarrow> 'e + 's block_data option"
  nd_sorted :: "u64 list \<Rightarrow> u64 list option"
  nd_range :: "u64 \<Rightarrow> u64 \<Rightarrow> u64 list option"
  nd_evaluate :: "'s block_data \<Rightarrow> 't list"
  nd_handle :: "'t \<Rightarrow> 'e + 'a"
  nd_send :: "'a \<Rightarrow> 'e option"
  nd_no_start :: 'e
  nd_bad_range :: 'e

definition process_block_with_predicates :: "('s, 't, 'a, 'e) node \<Rightarrow> 's block_data \<Rightarrow> 'e + u32" where
  "process_block_with_predicates nd b =
     execute_predicates_action (nd_handle nd) (nd_send nd) (nd_evaluate nd b) 0"

section \<open>Scanning\<close>

text \<open>\<open>a..=b\<close> and \<open>(h + 1)..b\<close> over \<open>u64\<close>.\<close>

definition heights_to :: "u64 \<Rightarrow> u64 \<Rightarrow> u64 list" where
  "heights_to a b = map of_nat [unat a..<Suc (unat b)]"

definition heights_after :: "u64 \<Rightarrow> u64 \<Rightarrow> u64 list" where
  "heights_after h b = map of_nat [unat (h + 1)..<unat b]"

definition drop_blocks :: "u64 \<Rightarrow> u64 \<Rightarrow> database \<Rightarrow> database" where
  "drop_blocks start_block last_block db = fold roll_back_block (heights_to start_block last_block) db"

record scan_predicate =
  sp_blocks :: "u64 list option"
  sp_start :: "u64 option"
  sp_end :: "u64 option"

definition floating_heights :: "('s, 't, 'a, 'e) node \<Rightarrow> u64 option \<Rightarrow> nat \<Rightarrow> u64 \<Rightarrow> u64 list" where
  "floating_heights nd last_block clock h =
     (let bitcoind_tip = nd_tip nd clock;
          new_tip =
            (case last_block of
               Some e \<Rightarrow> (if e > bitcoind_tip then bitcoind_tip else e)
             | None \<Rightarrow> bitcoind_tip)
      in heights_after h new_tip)"

text \<open>The number of actions, and of errors, that predicates make.\<close>

definition count_actions :: "'e + u32 \<Rightarrow> u32 \<times> u32 \<Rightarrow> u32 \<times> u32" where
  "count_actions r n = (case r of Inr k \<Rightarrow> (fst n + k, snd n) | Inl _ \<Rightarrow> (fst n, snd n + 1))"

partial_function (option) scan_loop ::
    "('s, 'lr, 'lm, 'lo) index_env \<Rightarrow> ('s, 't, 'a, 'e) node \<Rightarrow> bool \<Rightarrow> u64 option \<Rightarrow> nat \<Rightarrow> u64 list
     \<Rightarrow> u32 \<times> u32 \<Rightarrow> ('s, 'lr, 'lm, 'lo) index_state
     \<Rightarrow> ('e, ('s, 'lr, 'lm, 'lo) index_state) outcome option" where
  "scan_loop env nd floating last_block clock heights counts s =
     (case heights of
        [] \<Rightarrow> Some (Returned s)
      | h # hs \<Rightarrow>
          (case nd_block nd h of
             Inl e \<Rightarrow> Some (Failed e s)
           | Inr found \<Rightarrow>
               (case found of
                  None \<Rightarrow> Some (Panicked s)
                | Some b \<Rightarrow>
                    (case index_block env False b s of
                       None \<Rightarrow> Some (Panicked s)
                     | Some r \<Rightarrow>
                         let counts = count_actions (process_block_with_predicates nd b) counts in
                         if hs = [] \<and> floating
                         then scan_loop env nd floating last_block (Suc clock)
                           (floating_heights nd last_block clock h) counts (fst r)
                         else scan_loop env nd floating last_block clock hs counts (fst r)))))"

definition scan_bitcoin ::
    "('s, 'lr, 'lm, 'lo) index_env \<Rightarrow> ('s, 't, 'a, 'e) node \<Rightarrow> scan_predicate \<Rightarrow> nat
     \<Rightarrow> ('s, 'lr, 'lm, 'lo) index_state \<Rightarrow> ('e, ('s, 'lr, 'lm, 'lo) index_state) outcome option" where
  "scan_bitcoin env nd spec clock s =
     (let scan = (\<lambda>floating clock heights.
        case heights of
          None \<Rightarrow> Some (Failed (nd_bad_range nd) s)
        | Some hs \<Rightarrow> scan_loop env nd floating (sp_end spec) clock hs (0, 0) s)
      in case sp_blocks spec of
           Some blocks \<Rightarrow> scan False clock (nd_sorted nd blocks)
         | None \<Rightarrow>
             (case sp_start spec of
                None \<Rightarrow> Some (Failed (nd_no_start nd) s)
              | Some start \<Rightarrow>
                  (case sp_end spec of
                     Some e \<Rightarrow> scan False clock (nd_range nd start e)
                   | None \<Rightarrow> scan True (Suc clock) (nd_range nd start (nd_tip nd clock)))))"

definition scan_blocks ::
    "('s, 'lr, 'lm, 'lo) index_env \<Rightarrow> ('s, 't, 'a, 'e) node \<Rightarrow> u64 list \<Rightarrow> nat
     \<Rightarrow> ('s, 'lr, 'lm, 'lo) index_state \<Rightarrow> ('e, ('s, 'lr, 'lm, 'lo) index_state) outcome option" where
  "scan_blocks env nd blocks clock s =
     scan_bitcoin env nd \<lparr>sp_blocks = Some blocks, sp_start = None, sp_end = None\<rparr> clock s"

section \<open>Catching up\<close>

text \<open>
  The first loop of \<open>start_service\<close>, which waits for a node that is behind. The default height is
  computed even when it is not needed, and panics on a network without one.
\<close>

partial_function (option) catch_up ::
    "('s, 'lr, 'lm, 'lo) index_env \<Rightarrow> ('s, 't, 'a, 'e) node \<Rightarrow> network \<Rightarrow> nat
     \<Rightarrow> ('s, 'lr, 'lm, 'lo) index_state \<Rightarrow> ('e, ('s, 'lr, 'lm, 'lo) index_state) outcome option" where
  "catch_up env nd net clock s =
     (case get_rune_genesis_block_height net of
        None \<Rightarrow> Some (Panicked s)
      | Some genesis \<Rightarrow>
          let chain_tip = unwrap_or (genesis - 1) (pg_get_last_block_height (snd s));
              bitcoind_chain_tip = nd_tip nd clock
          in if bitcoind_chain_tip < chain_tip then catch_up env nd net (Suc clock) s
             else if bitcoind_chain_tip > chain_tip
             then Option.bind
               (scan_blocks env nd (heights_to (chain_tip + 1) bitcoind_chain_tip) (Suc clock) s)
               (\<lambda>r. case r of
                  Returned s \<Rightarrow> catch_up env nd net (Suc clock) s
                | Failed e s \<Rightarrow> Some (Failed e s)
                | Panicked s \<Rightarrow> Some (Panicked s))
             else Some (Returned s))"

section \<open>New blocks and re-organisations\<close>

record 's cached_block =
  cb_block :: "'s block_data"
  cb_processed :: bool

text \<open>The third component collects the ids sent to the mempool tasks.\<close>

fun mutate_each ::
    "('s, 'lr, 'lm, 'lo) index_env \<Rightarrow> bool \<Rightarrow> 's cached_block list \<Rightarrow> ('s, 'lr, 'lm, 'lo) index_state
     \<Rightarrow> ('s cached_block list \<times> ('s, 'lr, 'lm, 'lo) index_state \<times> ustr list) option" where
  "mutate_each env notify [] s = Some ([], s, [])"
| "mutate_each env notify (c # cs) s =
     (if cb_processed c
      then do { (cs, s, ids) \<leftarrow> mutate_each env notify cs s; Some (c # cs, s, ids) }
      else do {
        (s, sent) \<leftarrow> index_block env notify (cb_block c) s;
        (cs, s, ids) \<leftarrow> mutate_each env notify cs s;
        Some (c\<lparr>cb_processed := True\<rparr> # cs, s, sent @ ids)
      })"

definition mutate_blocks ::
    "('s, 'lr, 'lm, 'lo) index_env \<Rightarrow> bool \<Rightarrow> 's cached_block list \<Rightarrow> u64 list
     \<Rightarrow> ('s, 'lr, 'lm, 'lo) index_state
     \<Rightarrow> ('s cached_block list \<times> ('s, 'lr, 'lm, 'lo) index_state \<times> ustr list) option" where
  "mutate_blocks env notify blocks rollback_ids s =
     (case s of (ic, db) \<Rightarrow> mutate_each env notify blocks (ic, fold roll_back_block rollback_ids db))"

end
