(* ===== verification/Service_Facts.thy ===== *)
theory Service_Facts
  imports Service
begin

text \<open>
  What the service guarantees. Main facts: catching up with a node whose tip stands still
  returns, at that tip, with the books in order however the scan ends; it never returns while
  the node stays behind; a re-organisation message leaves an indexed state whatever the order
  of its roll backs; and dropped blocks are not scanned again, because dropping them leaves the
  scanned height.
\<close>

section \<open>Heights\<close>

lemma unat_below: "n < 2 ^ 64 \<Longrightarrow> unat (of_nat n :: u64) = n"
  by (rule unat_of_nat_small) simp

lemma unat_u64: "unat (h :: u64) < 2 ^ 64"
  using unsigned_less [of h] by simp

lemma map_unat_heights: "n \<le> 2 ^ 64 \<Longrightarrow> map (unat :: u64 \<Rightarrow> nat) (map of_nat [m..<n]) = [m..<n]"
  by (auto intro!: map_idI simp: unat_below)

lemma heights_to_unat: "map unat (heights_to a b) = [unat a..<Suc (unat b)]"
  unfolding heights_to_def by (rule map_unat_heights) (use unat_u64 [of b] in simp)

section \<open>The top of the chain\<close>

text \<open>An indexed state with nothing above the scanned height.\<close>

definition at_top :: "('s, 'lr, 'lm, 'lo) index_env \<Rightarrow> ('s, 'lr, 'lm, 'lo) index_state \<Rightarrow> bool" where
  "at_top env s \<longleftrightarrow> indexed env s \<and> rows_below (Suc (db_height (snd s))) (snd s) \<and> db_height (snd s) < 2 ^ 64"

lemma rows_below_mono: "rows_below h db \<Longrightarrow> h \<le> k \<Longrightarrow> rows_below k db"
  by (fastforce simp: rows_below_iff)

lemma indexed_block:
  assumes "flush_order_ok (ie_flush_order env)" "indexed env s" "rows_below (unat (bd_height b)) (snd s)"
    and "index_block env notify b s = Some (s', ids)"
  shows "indexed env s'" "rows_below (Suc (unat (bd_height b))) (snd s')" "db_height (snd s') = unat (bd_height b)"
proof -
  obtain ic db ic' db' where s: "s = (ic, db)" "s' = (ic', db')" by (cases s; cases s')
  have inv: "ic_db ic = db_cache_new" "db_books (before (unat (bd_height b)) db)"
    using indexed_inv [OF assms(1,2)] by (simp_all add: s)
  then have "db_books db" using assms(3) by (simp add: s rows_below_def)
  note i = index_block_inv [OF assms(1) inv(1) _ this assms(4) [unfolded s]] assms(3)
  show "indexed env s'" by (rule block [OF assms(2) [unfolded s] _ assms(4) [unfolded s(1)]]) (use assms(3) in \<open>simp add: s\<close>)
  show "rows_below (Suc (unat (bd_height b))) (snd s')" "db_height (snd s') = unat (bd_height b)"
    using i by (simp_all add: s block_inv_def)
qed

lemma at_top_block:
  assumes "flush_order_ok (ie_flush_order env)" "at_top env s" "db_height (snd s) < unat (bd_height b)"
    and "index_block env notify b s = Some (s', ids)"
  shows "at_top env s' \<and> db_height (snd s') = unat (bd_height b)"
proof -
  have "rows_below (unat (bd_height b)) (snd s)"
    using assms(2,3) by (auto simp: at_top_def intro: rows_below_mono)
  from indexed_block [OF assms(1) _ this assms(4)] assms(2) show ?thesis
    by (simp add: at_top_def unat_u64 del: power_numeral)
qed

section \<open>Scanning\<close>

text \<open>The block the node has at a height has that height.\<close>

definition node_ok :: "('s, 't, 'a, 'e) node \<Rightarrow> bool" where
  "node_ok nd \<longleftrightarrow> (\<forall>h b. nd_block nd h = Inr (Some b) \<longrightarrow> bd_height b = h) \<and>
     (\<forall>hs. sorted_wrt (<) hs \<longrightarrow> hs \<noteq> [] \<longrightarrow> nd_sorted nd hs = Some hs)"

lemma scan_loop_at_top:
  assumes "flush_order_ok (ie_flush_order env)" "node_ok nd"
    and "at_top env s" "sorted_wrt (<) (db_height (snd s) # map unat hs)"
  shows "\<exists>r. scan_loop env nd False last_block clock hs counts s = Some r \<and> at_top env (outcome_state r) \<and>
    (\<forall>s'. r = Returned s' \<longrightarrow> db_height (snd s') = last (db_height (snd s) # map unat hs))"
  using assms(3,4)
proof (induction hs arbitrary: s counts)
  case Nil
  then show ?case by (simp add: scan_loop.simps)
next
  case (Cons h hs)
  show ?case
  proof (cases "nd_block nd h")
    case (Inl e)
    with Cons.prems show ?thesis by (simp add: scan_loop.simps [of _ _ _ _ _ "h # hs"])
  next
    case (Inr found)
    show ?thesis
    proof (cases found)
      case None
      with Cons.prems Inr show ?thesis by (simp add: scan_loop.simps [of _ _ _ _ _ "h # hs"])
    next
      case (Some b)
      then have h: "bd_height b = h" using assms(2) Inr by (simp add: node_ok_def)
      show ?thesis
      proof (cases "index_block env False b s")
        case None
        with Cons.prems Inr Some show ?thesis by (simp add: scan_loop.simps [of _ _ _ _ _ "h # hs"])
      next
        case i: (Some r)
        obtain s' ids where r: "r = (s', ids)" by (cases r)
        have t: "at_top env s'" "db_height (snd s') = unat h"
          using at_top_block [OF assms(1) Cons.prems(1) _ i [unfolded r]] Cons.prems(2) h by simp_all
        with Cons.IH [of s' "count_actions (process_block_with_predicates nd b) counts"] Cons.prems(2)
        show ?thesis
          by (simp add: scan_loop.simps [of _ _ _ _ _ "h # hs"] Inr Some i r Let_def)
      qed
    qed
  qed
qed

lemma scan_blocks_at_top:
  assumes "flush_order_ok (ie_flush_order env)" "node_ok nd" "at_top env s" "db_height (snd s) < unat h"
  shows "\<exists>r. scan_blocks env nd (heights_to (of_nat (db_height (snd s)) + 1) h) clock s = Some r \<and>
    at_top env (outcome_state r) \<and> (\<forall>s'. r = Returned s' \<longrightarrow> db_height (snd s') = unat h)"
proof -
  let ?n = "db_height (snd s)" and ?hs = "heights_to (of_nat (db_height (snd s)) + 1) h"
  have "of_nat ?n + 1 = (of_nat (Suc ?n) :: u64)" by simp
  moreover have "unat (of_nat (Suc ?n) :: u64) = Suc ?n"
    by (rule unat_below) (use assms(4) unat_u64 [of h] in linarith)
  ultimately have u: "map unat ?hs = [Suc ?n..<Suc (unat h)]" by (simp only: heights_to_unat)
  have sorted: "sorted_wrt (<) (?n # map unat ?hs)"
    unfolding u by (simp del: upt_Suc)
  then have "sorted_wrt (<) ?hs" by (simp add: sorted_wrt_map word_less_nat_alt [abs_def])
  moreover have "?hs \<noteq> []" using u assms(4) by (metis list.map_disc_iff upt_eq_Nil_conv Suc_less_eq Suc_neq_Zero less_imp_le linorder_not_less)
  ultimately have "nd_sorted nd ?hs = Some ?hs" using assms(2) by (simp add: node_ok_def)
  moreover have "last (?n # map unat ?hs) = unat h" unfolding u using assms(4) by (simp add: last_upt)
  ultimately show ?thesis
    using scan_loop_at_top [OF assms(1-3) sorted, of None clock "(0, 0)"]
    by (simp add: scan_blocks_def scan_bitcoin_def Let_def)
qed

section \<open>Roll backs\<close>

lemma fold_delete_height:
  "fold (\<lambda>h. delete_height f (unat h)) (hs :: u64 list) xs = filter (\<lambda>x. f x \<notin> unat ` set hs) xs"
  by (induction hs arbitrary: xs) (auto simp: delete_height_def intro!: filter_cong)

lemma fold_roll_back:
  "fold roll_back_block hs db =
     db\<lparr>db_balances := fold (\<lambda>h. delete_height br_block_height (unat h)) hs (db_balances db),
        db_supply := fold (\<lambda>h. delete_height su_block_height (unat h)) hs (db_supply db),
        db_ledger := fold (\<lambda>h. delete_height (unat \<circ> le_block_height) (unat h)) hs (db_ledger db),
        db_runes := fold (\<lambda>h. delete_height (unat \<circ> dr_block_height) (unat h)) hs (db_runes db)\<rparr>"
  by (induction hs arbitrary: db) (simp_all add: roll_back_block_def pg_roll_back_block_def)

definition row_heights :: "database \<Rightarrow> nat set" where
  "row_heights db = br_block_height ` set (db_balances db) \<union> su_block_height ` set (db_supply db) \<union>
     (\<lambda>r. unat (le_block_height r)) ` set (db_ledger db)"

lemma rows_below_heights: "rows_below h db \<longleftrightarrow> (\<forall>x \<in> row_heights db. x < h)"
  by (auto simp: rows_below_iff row_heights_def)

lemma row_heights_roll_back: "row_heights (roll_back_block h db) = row_heights db - {unat h}"
  by (auto simp: row_heights_def roll_back_block_def pg_roll_back_block_def delete_height_def)

lemma dropped_heights: "unat ` set (heights_to a b) = {unat a..unat b}"
  by (simp only: heights_to_unat atLeastLessThanSuc_atLeastAtMost set_upt flip: set_map)

text \<open>Every height from \<open>k\<close> on that has rows is rolled back, and no height below.\<close>

definition reorg_from :: "nat \<Rightarrow> u64 list \<Rightarrow> database \<Rightarrow> bool" where
  "reorg_from k hs db \<longleftrightarrow>
     (\<forall>h \<in> set hs. k \<le> unat h) \<and> (\<forall>x \<in> row_heights db. k \<le> x \<longrightarrow> x \<in> unat ` set hs)"

lemma fold_roll_back_set: "set hs = set hs' \<Longrightarrow> fold roll_back_block hs db = fold roll_back_block hs' db"
  by (simp add: fold_roll_back fold_delete_height)

text \<open>From the top down each roll back is one of the indexer's.\<close>

lemma roll_backs_descending:
  assumes "sorted_wrt (>) hs" "indexed env (ic, db)" "reorg_from k hs db"
  shows "indexed env (ic, fold roll_back_block hs db) \<and> rows_below k (fold roll_back_block hs db)"
  using assms
proof (induction hs arbitrary: db)
  case Nil
  then show ?case by (auto simp: reorg_from_def rows_below_heights not_less)
next
  case (Cons h hs)
  have "rows_below (Suc (unat h)) db"
    unfolding rows_below_heights
  proof
    fix x assume "x \<in> row_heights db"
    with Cons.prems(3) have "x < k \<or> x \<in> unat ` set (h # hs)" by (auto simp: reorg_from_def)
    moreover have "k \<le> unat h" using Cons.prems(3) by (simp add: reorg_from_def)
    ultimately show "x < Suc (unat h)"
      using Cons.prems(1) by (auto simp: word_less_nat_alt dest: less_imp_le)
  qed
  from reorg [OF Cons.prems(2) this] have "indexed env (ic, roll_back_block h db)" .
  moreover have "reorg_from k hs (roll_back_block h db)"
    using Cons.prems(3) by (auto simp: reorg_from_def row_heights_roll_back)
  ultimately show ?case using Cons.IH Cons.prems(1) by simp
qed

lemma roll_back_reorg:
  assumes "indexed env (ic, db)" "reorg_from k hs db"
  shows "indexed env (ic, fold roll_back_block hs db) \<and> rows_below k (fold roll_back_block hs db)"
proof -
  let ?hs = "rev (sorted_list_of_set (set hs))"
  have s: "sorted_wrt (>) ?hs" by (simp add: sorted_wrt_rev strict_sorted_list_of_set)
  have "reorg_from k ?hs db" using assms(2) by (simp add: reorg_from_def)
  from roll_backs_descending [OF s assms(1) this] show ?thesis
    by (simp add: fold_roll_back_set [of hs ?hs])
qed

section \<open>New blocks\<close>

lemma mutate_each_indexed:
  assumes "flush_order_ok (ie_flush_order env)"
    and "indexed env s" "rows_below k (snd s)"
    and "sorted_wrt (<) (map (\<lambda>c. unat (bd_height (cb_block c))) (filter (\<lambda>c. \<not> cb_processed c) cs))"
    and "\<forall>c \<in> set cs. \<not> cb_processed c \<longrightarrow> k \<le> unat (bd_height (cb_block c))"
    and "mutate_each env notify cs s = Some (cs', s', ids)"
  shows "indexed env s' \<and> list_all cb_processed cs' \<and> map cb_block cs' = map cb_block cs"
  using assms(2-6)
proof (induction cs arbitrary: s k cs' ids)
  case (Cons c cs)
  show ?case
  proof (cases "cb_processed c")
    case True
    with Cons.prems(5) obtain ds where m: "mutate_each env notify cs s = Some (ds, s', ids)" "cs' = c # ds"
      by (auto simp: bind_eq_Some_conv)
    with Cons.IH [OF Cons.prems(1,2) _ _ m(1)] Cons.prems(3,4) True show ?thesis by simp
  next
    case False
    with Cons.prems(5) obtain t sent ds js where
      i: "index_block env notify (cb_block c) s = Some (t, sent)"
      and m: "mutate_each env notify cs t = Some (ds, s', js)" "cs' = c\<lparr>cb_processed := True\<rparr> # ds"
      by (auto simp: bind_eq_Some_conv)
    let ?h = "unat (bd_height (cb_block c))"
    have "rows_below ?h (snd s)"
      using Cons.prems(2,4) False by (auto intro: rows_below_mono)
    from indexed_block [OF assms(1) Cons.prems(1) this i]
    have t: "indexed env t" "rows_below (Suc ?h) (snd t)" by simp_all
    have "\<forall>d \<in> set cs. \<not> cb_processed d \<longrightarrow> Suc ?h \<le> unat (bd_height (cb_block d))"
      using Cons.prems(3) False by (auto simp: Suc_le_eq)
    with Cons.IH [OF t _ _ m(1)] Cons.prems(3) False m(2) show ?thesis by simp
  qed
qed simp

lemma catch_up_answer:
  assumes "catch_up env nd net clock s = Some r" "get_rune_genesis_block_height net \<noteq> None"
  shows "\<exists>c. of_nat (db_height (snd s)) \<le> nd_tip nd c"
  using assms(2)
proof (induction rule: catch_up.raw_induct [OF _ assms(1)])
  case (1 catch_up env nd net clock s r)
  show ?case
  proof (cases "nd_tip nd clock < of_nat (db_height (snd s))")
    case True
    with 1(2,3) have "catch_up env nd net (Suc clock) s = Some r"
      by (auto simp: pg_get_last_block_height_def unwrap_or_def Let_def)
    with 1(1,3) show ?thesis by blast
  next
    case False
    then show ?thesis by (meson not_less)
  qed
qed

lemma catch_up_at_top:
  assumes "flush_order_ok (ie_flush_order env)" "node_ok nd" "at_top env s"
    and "get_rune_genesis_block_height net \<noteq> None"
    and "\<forall>c. nd_tip nd c = tip" "db_height (snd s) \<le> unat tip"
  shows "\<exists>r. catch_up env nd net clock s = Some r \<and> at_top env (outcome_state r) \<and>
    (\<forall>s'. r = Returned s' \<longrightarrow> db_height (snd s') = unat tip)"
proof -
  have fin: "catch_up env nd net c s' = Some (Returned s')" if "db_height (snd s') = unat tip" for c s'
    using assms(4,5) that
    by (auto simp: catch_up.simps [of env nd net c s'] pg_get_last_block_height_def unwrap_or_def Let_def)
  show ?thesis
  proof (cases "db_height (snd s) = unat tip")
    case True
    with fin [of s clock] assms(3) show ?thesis by (cases s) (simp add: at_top_def)
  next
    case False
    let ?n = "of_nat (db_height (snd s)) :: u64"
    have less: "db_height (snd s) < unat tip" using False assms(6) by simp
    have n: "unat ?n = db_height (snd s)" using assms(3) by (simp add: at_top_def unat_below del: power_numeral)
    have "?n < tip" unfolding word_less_nat_alt n by (rule less)
    moreover obtain r where r: "scan_blocks env nd (heights_to (?n + 1) tip) (Suc clock) s = Some r"
      "at_top env (outcome_state r)" "\<forall>s'. r = Returned s' \<longrightarrow> db_height (snd s') = unat tip"
      using scan_blocks_at_top [OF assms(1-3) less] by blast
    ultimately have c: "catch_up env nd net clock s =
        (case r of Returned s \<Rightarrow> catch_up env nd net (Suc clock) s
         | Failed e s \<Rightarrow> Some (Failed e s) | Panicked s \<Rightarrow> Some (Panicked s))"
      using assms(4,5)
      by (auto simp: catch_up.simps [of env nd net clock s] pg_get_last_block_height_def unwrap_or_def Let_def
          less_not_sym)
    show ?thesis
      using r(2,3) unfolding c by (cases r) (auto simp: fin at_top_def)
  qed
qed

section \<open>Properties\<close>

text \<open>
  C7. Catching up ends: with a node whose tip stands still, at or above the scanned height, the
  loop returns, and when it does so without an error of the node or a panic the scanned
  height is the tip. However it ends, the state is one of the states of the indexer, so its
  books are in order.
\<close>

theorem catch_up_reaches_tip:
  assumes "flush_order_ok (ie_flush_order env)" "node_ok nd" "at_top env s"
    and "get_rune_genesis_block_height net \<noteq> None"
    and "\<forall>c. nd_tip nd c = tip" "db_height (snd s) \<le> unat tip"
  shows "\<exists>r. catch_up env nd net clock s = Some r \<and> indexed env (outcome_state r) \<and>
    (\<forall>s'. r = Returned s' \<longrightarrow> db_height (snd s') = unat tip)"
  using catch_up_at_top [OF assms, of clock] by (auto simp: at_top_def)

text \<open>
  C25. While every answer of the node is below the scanned height, the loop waits: it does not
  return.
\<close>

theorem catch_up_waits:
  assumes "\<forall>c. nd_tip nd c < of_nat (db_height (snd s))" "get_rune_genesis_block_height net \<noteq> None"
  shows "catch_up env nd net clock s = None"
  using catch_up_answer [of env nd net clock s] assms by (meson not_less option.exhaust)

text \<open>
  A re-organisation message, roll backs from a height on in any order and then the new blocks
  above it in ascending order, leads from a state of the indexer to a state of the indexer, in
  which all blocks are marked as processed.
\<close>

lemma mutate_blocks_indexed:
  assumes "flush_order_ok (ie_flush_order env)" "indexed env (ic, db)" "reorg_from k rollback_ids db"
    and "sorted_wrt (<) (map (\<lambda>c. unat (bd_height (cb_block c))) (filter (\<lambda>c. \<not> cb_processed c) blocks))"
    and "\<forall>c \<in> set blocks. \<not> cb_processed c \<longrightarrow> k \<le> unat (bd_height (cb_block c))"
    and "mutate_blocks env notify blocks rollback_ids (ic, db) = Some (blocks', s', ids)"
  shows "indexed env s' \<and> list_all cb_processed blocks' \<and> map cb_block blocks' = map cb_block blocks"
proof -
  let ?db = "fold roll_back_block rollback_ids db"
  have m: "mutate_each env notify blocks (ic, ?db) = Some (blocks', s', ids)"
    using assms(6) by (simp add: mutate_blocks_def)
  have "indexed env (ic, ?db)" "rows_below k (snd (ic, ?db))" using roll_back_reorg [OF assms(2,3)] by simp_all
  from mutate_each_indexed [OF assms(1) this assms(4,5) m] show ?thesis .
qed

text \<open>
  C28. Dropped blocks stay missing: dropping blocks removes every row of their heights, of runes,
  ledger, supply and balances, and nothing else, so also not the scanned height. A service that
  starts afterwards, while the tip of the node is the scanned height, is at its tip at once: it scans
  none of the blocks and leaves the tables without them.
\<close>

theorem dropped_blocks_stay_missing:
  assumes "nd_tip nd clock = of_nat (db_height db)" "get_rune_genesis_block_height net \<noteq> None"
  shows "\<exists>db'. catch_up env nd net clock (ic, drop_blocks a b db) = Some (Returned (ic, db')) \<and>
    db_runes db' = filter (\<lambda>r. \<not> (a \<le> dr_block_height r \<and> dr_block_height r \<le> b)) (db_runes db) \<and>
    db_ledger db' = filter (\<lambda>e. \<not> (a \<le> le_block_height e \<and> le_block_height e \<le> b)) (db_ledger db) \<and>
    db_supply db' = filter (\<lambda>r. \<not> (unat a \<le> su_block_height r \<and> su_block_height r \<le> unat b)) (db_supply db) \<and>
    db_balances db' = filter (\<lambda>r. \<not> (unat a \<le> br_block_height r \<and> br_block_height r \<le> unat b)) (db_balances db) \<and>
    db_height db' = db_height db"
proof -
  have "db_height (drop_blocks a b db) = db_height db" by (simp add: drop_blocks_def fold_roll_back)
  with assms have "catch_up env nd net clock (ic, drop_blocks a b db) = Some (Returned (ic, drop_blocks a b db))"
    by (auto simp: catch_up.simps [of env nd net clock] pg_get_last_block_height_def unwrap_or_def Let_def)
  then show ?thesis
    by (simp add: drop_blocks_def fold_roll_back fold_delete_height dropped_heights word_le_nat_alt)
qed

end
