(* ===== verification/Commands.thy ===== *)
theory Commands
  imports Service_Facts
begin

text \<open>
  The program around the service: the configuration (\<^verbatim>\<open>src/config/\<close>), the commands and their
  arguments (\<^verbatim>\<open>src/cli.rs\<close>), the questions to the node (\<^verbatim>\<open>src/bitcoind/mod.rs\<close>), the start of the
  service and the loop over the messages of the block observer (\<^verbatim>\<open>src/service.rs\<close>). Main facts:
  the arguments of \<open>scan\<close> denote the heights they print, a question to the node is answered
  exactly when some attempt succeeds, and the service follows the chain it is told of.

  \<open>None\<close> is a panic, but for the loops, where it says that they do not return.
\<close>

section \<open>Configuration\<close>

record postgres_file =
  pf_database :: "ustr option"
  pf_host :: "ustr option"
  pf_port :: "u16 option"
  pf_username :: "ustr option"
  pf_password :: "ustr option"

record log_config =
  lc_runes_internals :: "bool option"
  lc_chainhook_internals :: "bool option"

record 'n config_file =
  cf_network :: "'n option"
  cf_postgres :: postgres_file
  cf_lru_cache_size :: "u64 option"
  cf_logs :: log_config

record postgres_config =
  pc_database :: ustr
  pc_host :: ustr
  pc_port :: u16
  pc_username :: ustr
  pc_password :: "ustr option"

record 'o config =
  co_event_observer :: 'o
  co_postgres :: postgres_config
  co_lru_cache_size :: u64
  co_logs_file :: log_config

datatype ('i, 'e) config_error = Unreadable ustr 'i | Malformatted 'i | Overrides 'e | Aborted

text \<open>
  \<open>overrides\<close> is \<open>EventObserverConfig::new_using_overrides\<close> of the SDK, \<open>read\<close> the content of a
  file and \<open>parse\<close> the TOML parser.
\<close>

definition from_config_file ::
    "('n option \<Rightarrow> 'e + 'o) \<Rightarrow> 'n config_file \<Rightarrow> ('i, 'e) config_error + 'o config" where
  "from_config_file overrides f =
     (case overrides (cf_network f) of
        Inl e \<Rightarrow> Inl (Overrides e)
      | Inr observer \<Rightarrow>
          Inr \<lparr>co_event_observer = observer,
            co_postgres =
              \<lparr>pc_database = unwrap_or (lit ''postgres'') (pf_database (cf_postgres f)),
               pc_host = unwrap_or (lit ''localhost'') (pf_host (cf_postgres f)),
               pc_port = unwrap_or 5432 (pf_port (cf_postgres f)),
               pc_username = unwrap_or (lit ''postgres'') (pf_username (cf_postgres f)),
               pc_password = pf_password (cf_postgres f)\<rparr>,
            co_lru_cache_size = unwrap_or 10000 (cf_lru_cache_size f),
            co_logs_file = cf_logs f\<rparr>)"

definition from_file_path ::
    "(ustr \<Rightarrow> 'i + 'b) \<Rightarrow> ('b \<Rightarrow> 'i + 'n config_file) \<Rightarrow> ('n option \<Rightarrow> 'e + 'o) \<Rightarrow> ustr
     \<Rightarrow> ('i, 'e) config_error + 'o config" where
  "from_file_path read parse overrides path =
     (case read path of
        Inl e \<Rightarrow> Inl (Unreadable path e)
      | Inr buffer \<Rightarrow>
          (case parse buffer of
             Inl e \<Rightarrow> Inl (Malformatted e)
           | Inr f \<Rightarrow> from_config_file overrides f))"

datatype bitcoin_network = SdkMainnet | SdkRegtest | SdkTestnet | SdkSignet

fun get_bitcoin_network :: "bitcoin_network \<Rightarrow> network" where
  "get_bitcoin_network SdkMainnet = Bitcoin"
| "get_bitcoin_network SdkRegtest = Regtest"
| "get_bitcoin_network SdkTestnet = Testnet V4"
| "get_bitcoin_network SdkSignet = Signet"

section \<open>Arguments of a scan\<close>

text \<open>\<open>s.split(c)\<close>.\<close>

fun split_all :: "uchar \<Rightarrow> ustr \<Rightarrow> ustr list" where
  "split_all c [] = [[]]"
| "split_all c (x # xs) =
     (if x = c then [] # split_all c xs
      else (case split_all c xs of [] \<Rightarrow> [[x]] | p # ps \<Rightarrow> (x # p) # ps))"

definition parse_height :: "ustr \<Rightarrow> u64 option" where
  "parse_height s = (case parse_uint (2 ^ 64) s of Inl e \<Rightarrow> None | Inr n \<Rightarrow> Some (of_nat n))"

fun parse_heights :: "ustr list \<Rightarrow> u64 list option" where
  "parse_heights [] = Some []"
| "parse_heights (s # ss) = do { h \<leftarrow> parse_height s; hs \<leftarrow> parse_heights ss; Some (h # hs) }"

definition get_blocks ::
    "('s, 't, 'a, 'e) node \<Rightarrow> ustr option \<Rightarrow> ustr option \<Rightarrow> u64 list option" where
  "get_blocks nd blocks_interval blocks =
     (case (blocks_interval, blocks) of
        (Some interval, None) \<Rightarrow>
          do {
            let parts = split_all 58 interval;
            start_block \<leftarrow> Option.bind (vec_get parts 0) parse_height;
            last_block \<leftarrow> Option.bind (vec_get parts 1) parse_height;
            nd_range nd start_block last_block
          }
      | (None, Some blocks) \<Rightarrow>
          do { heights \<leftarrow> parse_heights (split_all 44 blocks); nd_sorted nd heights }
      | _ \<Rightarrow> None)"

section \<open>Dropping blocks\<close>

text \<open>The number of blocks the question names, and the answers that abort.\<close>

definition drop_count :: "u64 \<Rightarrow> u64 \<Rightarrow> u64" where
  "drop_count start_block last_block = last_block - start_block + 1"

definition drop_command ::
    "u64 \<Rightarrow> u64 \<Rightarrow> ustr \<Rightarrow> database \<Rightarrow> ('i, 'e) config_error + database" where
  "drop_command start_block last_block answer db =
     (if take 1 answer = lit ''n'' then Inl Aborted else Inr (drop_blocks start_block last_block db))"

section \<open>Asking the node and the database\<close>

text \<open>
  Each attempt has a number; the loops differ in what they attempt. \<open>connect\<close> is also the loop of
  \<open>pg_connect\<close>.
\<close>

partial_function (option) retry :: "(nat \<Rightarrow> 'e + 'a) \<Rightarrow> nat \<Rightarrow> ('a \<times> nat) option" where
  "retry attempt n =
     (case attempt n of Inr a \<Rightarrow> Some (a, Suc n) | Inl e \<Rightarrow> retry attempt (Suc n))"

definition pg_connect :: "(nat \<Rightarrow> 'e + 'c) \<Rightarrow> ('c \<Rightarrow> 'c option) \<Rightarrow> bool \<Rightarrow> nat \<Rightarrow> 'c option option" where
  "pg_connect connect migrate run_migrations n =
     do {
       (client, n) \<leftarrow> retry connect n;
       Some (if run_migrations then migrate client else Some client)
     }"

definition get_client :: "(nat \<Rightarrow> 'e + 'c) \<Rightarrow> nat \<Rightarrow> ('c \<times> nat) option" where
  "get_client client_new n = retry client_new n"

definition bitcoind_get_block_height ::
    "(nat \<Rightarrow> 'e + 'c) \<Rightarrow> ('c \<Rightarrow> nat \<Rightarrow> 'e + u64) \<Rightarrow> nat \<Rightarrow> (u64 \<times> nat) option" where
  "bitcoind_get_block_height client_new get_blockchain_info n =
     do {
       (bitcoin_rpc, n) \<leftarrow> get_client client_new n;
       retry (get_blockchain_info bitcoin_rpc) n
     }"

section \<open>The service\<close>

text \<open>
  Starting: caches of the indexer, catching up, and the fresh caches of the thread that handles
  the messages.
\<close>

definition start_service ::
    "('s, 'lr, 'lm, 'lo) index_env \<Rightarrow> ('s, 't, 'a, 'e) node \<Rightarrow> network \<Rightarrow> nat \<Rightarrow> nat \<Rightarrow> database
     \<Rightarrow> ('e, ('s, 'lr, 'lm, 'lo) index_state option \<times> database) outcome option" where
  "start_service env nd net lru_cache_size clock db =
     (case index_cache_new env net lru_cache_size db of
        None \<Rightarrow> Some (Panicked (None, db))
      | Some ic \<Rightarrow>
          Option.bind (catch_up env nd net clock (ic, db))
            (\<lambda>r. case r of
               Failed e s \<Rightarrow> Some (Failed e (None, snd s))
             | Panicked s \<Rightarrow> Some (Panicked (None, snd s))
             | Returned s \<Rightarrow>
                 (case index_cache_new env net lru_cache_size (snd s) of
                    None \<Rightarrow> Some (Panicked (None, snd s))
                  | Some ic \<Rightarrow> Some (Returned (Some (ic, snd s), snd s)))))"

text \<open>
  The loop of \<open>set_up_observer_sidecar_runloop\<close> over the messages it receives; the blocks go back
  to the SDK, the ids to the mempool tasks.
\<close>

fun sidecar_loop ::
    "('s, 'lr, 'lm, 'lo) index_env \<Rightarrow> ('s cached_block list \<times> u64 list) list
     \<Rightarrow> ('s, 'lr, 'lm, 'lo) index_state
     \<Rightarrow> ('s cached_block list list \<times> ('s, 'lr, 'lm, 'lo) index_state \<times> ustr list) option" where
  "sidecar_loop env [] s = Some ([], s, [])"
| "sidecar_loop env ((blocks, rollback_ids) # ms) s =
     do {
       (blocks, s, ids) \<leftarrow> mutate_blocks env True blocks rollback_ids s;
       (outs, s, more_ids) \<leftarrow> sidecar_loop env ms s;
       Some (blocks # outs, s, ids @ more_ids)
     }"

text \<open>
  The same loop with the state it leaves however it ends: every roll back and every block is a
  database transaction of its own, so a block that cannot be indexed leaves what was done before it.
  The SDK waits for the answer, and no message follows.
\<close>

fun mutate_run ::
    "('s, 'lr, 'lm, 'lo) index_env \<Rightarrow> bool \<Rightarrow> 's cached_block list \<Rightarrow> ('s, 'lr, 'lm, 'lo) index_state
     \<Rightarrow> ('e, ('s, 'lr, 'lm, 'lo) index_state) outcome" where
  "mutate_run env notify [] s = Returned s"
| "mutate_run env notify (c # cs) s =
     (if cb_processed c then mutate_run env notify cs s
      else
        case index_block env notify (cb_block c) s of
          None \<Rightarrow> Panicked s
        | Some r \<Rightarrow> mutate_run env notify cs (fst r))"

fun sidecar_run ::
    "('s, 'lr, 'lm, 'lo) index_env \<Rightarrow> ('s cached_block list \<times> u64 list) list
     \<Rightarrow> ('s, 'lr, 'lm, 'lo) index_state \<Rightarrow> ('e, ('s, 'lr, 'lm, 'lo) index_state) outcome" where
  "sidecar_run env [] s = Returned s"
| "sidecar_run env ((blocks, rollback_ids) # ms) s =
     (case mutate_run env True blocks (fst s, fold roll_back_block rollback_ids (snd s)) of
        Returned s \<Rightarrow> sidecar_run env ms s
      | Failed e s \<Rightarrow> Failed e s
      | Panicked s \<Rightarrow> Panicked s)"

text \<open>
  \<open>start_service\<close> as a whole: after the start, the messages that arrive until the observer ends. A panic
  ends the thread of the messages, and nothing is indexed any more; the run ends with it.
\<close>

definition run_service ::
    "('s, 'lr, 'lm, 'lo) index_env \<Rightarrow> ('s, 't, 'a, 'e) node \<Rightarrow> network \<Rightarrow> nat
     \<Rightarrow> ('s cached_block list \<times> u64 list) list \<Rightarrow> nat \<Rightarrow> database \<Rightarrow> ('e, database) outcome option" where
  "run_service env nd net lru_cache_size messages clock db =
     map_option (\<lambda>r. case r of
         Returned (None, db) \<Rightarrow> Returned db
       | Returned (Some s, db) \<Rightarrow>
           (case sidecar_run env messages s of
              Returned s \<Rightarrow> Returned (snd s)
            | Failed e s \<Rightarrow> Failed e (snd s)
            | Panicked s \<Rightarrow> Panicked (snd s))
       | Failed e (_, db) \<Rightarrow> Failed e db
       | Panicked (_, db) \<Rightarrow> Panicked db)
     (start_service env nd net lru_cache_size clock db)"

section \<open>Commands\<close>

text \<open>
  In maintenance mode the process sleeps for \<open>2 ^ 64 - 1\<close> seconds, which the model takes as never
  returning.
\<close>

definition service_command ::
    "('s, 'lr, 'lm, 'lo) index_env \<Rightarrow> ('s, 't, 'a, 'e) node \<Rightarrow> network \<Rightarrow> nat \<Rightarrow> ustr option
     \<Rightarrow> ('s cached_block list \<times> u64 list) list \<Rightarrow> nat \<Rightarrow> database \<Rightarrow> ('e, database) outcome option" where
  "service_command env nd net lru_cache_size maintenance messages clock db =
     (if unwrap_or (lit ''0'') maintenance = lit ''1'' then None
      else run_service env nd net lru_cache_size messages clock db)"

definition scan_command ::
    "('s, 'lr, 'lm, 'lo) index_env \<Rightarrow> ('s, 't, 'a, 'e) node \<Rightarrow> network \<Rightarrow> nat \<Rightarrow> ustr option \<Rightarrow> ustr option \<Rightarrow> nat \<Rightarrow> database
     \<Rightarrow> ('e, database) outcome option" where
  "scan_command env nd net lru_cache_size blocks_interval blocks clock db =
     (case get_blocks nd blocks_interval blocks of
        None \<Rightarrow> Some (Panicked db)
      | Some heights \<Rightarrow>
          (case index_cache_new env net lru_cache_size db of
             None \<Rightarrow> Some (Panicked db)
           | Some ic \<Rightarrow>
               map_option (\<lambda>r. case r of
                   Returned s \<Rightarrow> Returned (snd s)
                 | Failed e s \<Rightarrow> Failed e (snd s)
                 | Panicked s \<Rightarrow> Panicked (snd s)) (scan_blocks env nd heights clock (ic, db))))"

section \<open>Facts on texts and attempts\<close>

lemma split_all_one: "c \<notin> set s \<Longrightarrow> split_all c s = [s]"
  by (induction s) auto

lemma split_all_append: "c \<notin> set s \<Longrightarrow> split_all c (s @ c # t) = s # split_all c t"
  by (induction s) auto

text \<open>The text of a list of heights.\<close>

fun heights_text :: "u64 list \<Rightarrow> ustr" where
  "heights_text [] = []"
| "heights_text [h] = dec (unat h)"
| "heights_text (h # hs) = dec (unat h) @ 44 # heights_text hs"

lemma digits_only: "c < 48 \<or> 57 < c \<Longrightarrow> c \<notin> set (dec n)"
  using dec_digit [of c n] by auto

lemma parse_height_dec [codec]: "parse_height (dec (unat h)) = Some h"
proof -
  have "unat h < 2 ^ 64" by (rule unat_u64)
  then show ?thesis by (simp add: parse_height_def parse_uint_dec del: power_numeral)
qed

lemma parse_heights_text: "hs \<noteq> [] \<Longrightarrow> parse_heights (split_all 44 (heights_text hs)) = Some hs"
  by (induction hs rule: heights_text.induct)
    (simp_all add: split_all_one split_all_append digits_only codec)

lemma retry_first:
  assumes "n \<le> k" "attempt k = Inr a" "\<forall>j. n \<le> j \<and> j < k \<longrightarrow> (\<exists>e. attempt j = Inl e)"
  shows "retry attempt n = Some (a, Suc k)"
  using assms
proof (induction "k - n" arbitrary: n)
  case 0
  then show ?case by (simp add: retry.simps)
next
  case (Suc d)
  then have "n < k" by simp
  with Suc.prems(3) obtain e where "attempt n = Inl e" by blast
  with Suc.hyps(1) [of "Suc n"] Suc.hyps(2) Suc.prems show ?case by (simp add: retry.simps [of attempt n] Suc_le_eq)
qed

lemma retry_answer:
  assumes "retry attempt n = Some r"
  shows "\<exists>k a. n \<le> k \<and> attempt k = Inr a \<and> r = (a, Suc k)"
proof (induction rule: retry.raw_induct [OF _ assms])
  case (1 retry attempt n r)
  show ?case
  proof (cases "attempt n")
    case (Inl e)
    with 1(2) have "retry attempt (Suc n) = Some r" by simp
    with 1(1) show ?thesis by (meson Suc_leD)
  next
    case (Inr a)
    with 1(2) show ?thesis by auto
  qed
qed

lemma retry_iff:
  "retry attempt n = Some (a, Suc k) \<longleftrightarrow>
     n \<le> k \<and> attempt k = Inr a \<and> (\<forall>j. n \<le> j \<and> j < k \<longrightarrow> isl (attempt j))"
  (is "_ \<longleftrightarrow> ?first")
proof
  assume r: "retry attempt n = Some (a, Suc k)"
  from retry_answer [OF r] have "\<exists>k. n \<le> k \<and> \<not> isl (attempt k)" by force
  define m where "m = (LEAST k. n \<le> k \<and> \<not> isl (attempt k))"
  have m: "n \<le> m" "\<not> isl (attempt m)" "\<And>j. n \<le> j \<Longrightarrow> j < m \<Longrightarrow> isl (attempt j)"
    using LeastI_ex [OF \<open>\<exists>k. n \<le> k \<and> \<not> isl (attempt k)\<close>] not_less_Least unfolding m_def by blast+
  then obtain b where b: "attempt m = Inr b" by (cases "attempt m") simp_all
  have "retry attempt n = Some (b, Suc m)"
    using retry_first [of n m attempt b] m b by (auto simp: isl_def)
  with r b m show ?first by simp
next
  assume ?first
  then show "retry attempt n = Some (a, Suc k)" using retry_first [of n k attempt a] by (auto simp: isl_def)
qed

lemma retry_None: "retry attempt n = None \<longleftrightarrow> (\<forall>k. n \<le> k \<longrightarrow> isl (attempt k))"
proof
  assume none: "retry attempt n = None"
  show "\<forall>k. n \<le> k \<longrightarrow> isl (attempt k)"
  proof (intro allI impI)
    fix k assume "n \<le> k"
    then show "isl (attempt k)"
    proof (induction "k" rule: less_induct)
      case (less k)
      show ?case
      proof (rule ccontr)
        assume "\<not> isl (attempt k)"
        then obtain a where "attempt k = Inr a" by (cases "attempt k") simp_all
        moreover have "\<forall>j. n \<le> j \<and> j < k \<longrightarrow> isl (attempt j)" using less.IH by blast
        ultimately have "retry attempt n = Some (a, Suc k)" using less.prems by (simp add: retry_iff)
        with none show False by simp
      qed
    qed
  qed
next
  assume "\<forall>k. n \<le> k \<longrightarrow> isl (attempt k)"
  then show "retry attempt n = None"
    using retry_answer [of attempt n] by (metis not_None_eq sum.disc(2))
qed

section \<open>Following the chain\<close>

text \<open>
  What the SDK is relied on to send to a service whose top is \<open>t\<close>: the heights rolled back are
  those from a fork on, and the new blocks those of the other branch, in order and not yet
  processed.
\<close>

abbreviation block_heights :: "'s cached_block list \<Rightarrow> nat list" where
  "block_heights bs \<equiv> map (\<lambda>c. unat (bd_height (cb_block c))) bs"

fun follows :: "nat \<Rightarrow> ('s cached_block list \<times> u64 list) list \<Rightarrow> bool" where
  "follows t [] = True"
| "follows t ((blocks, rollback_ids) # ms) =
     (let hs = block_heights blocks in
      blocks \<noteq> [] \<and> list_all (\<lambda>c. \<not> cb_processed c) blocks \<and> hd hs \<le> Suc t \<and>
      hs = [hd hs..<Suc (last hs)] \<and> set (map unat rollback_ids) = {hd hs..t} \<and> follows (last hs) ms)"

fun top_after :: "nat \<Rightarrow> ('s cached_block list \<times> u64 list) list \<Rightarrow> nat" where
  "top_after t [] = t"
| "top_after t ((blocks, rollback_ids) # ms) = top_after (last (block_heights blocks)) ms"

lemma mutate_each_top:
  assumes "flush_order_ok (ie_flush_order env)"
    and "indexed env s" "rows_below k (snd s)" "list_all (\<lambda>c. \<not> cb_processed c) cs"
    and "sorted_wrt (<) (block_heights cs)" "\<forall>h \<in> set (block_heights cs). k \<le> h" "cs \<noteq> []"
    and "mutate_each env notify cs s = Some (cs', s', ids)"
  shows "rows_below (Suc (last (block_heights cs))) (snd s') \<and> db_height (snd s') = last (block_heights cs)"
  using assms(2-8)
proof (induction cs arbitrary: s k cs' ids)
  case (Cons c cs)
  from Cons.prems(3,7) obtain t sent ds js where
    i: "index_block env notify (cb_block c) s = Some (t, sent)"
    and m: "mutate_each env notify cs t = Some (ds, s', js)"
    by (auto simp: bind_eq_Some_conv)
  let ?h = "unat (bd_height (cb_block c))"
  have "rows_below ?h (snd s)" using Cons.prems(2,5) by (auto intro: rows_below_mono)
  from indexed_block [OF assms(1) Cons.prems(1) this i]
  have t: "indexed env t" "rows_below (Suc ?h) (snd t)" "db_height (snd t) = ?h" by simp_all
  show ?case
  proof (cases "cs = []")
    case True
    with m t show ?thesis by simp
  next
    case False
    have "\<forall>h \<in> set (block_heights cs). Suc ?h \<le> h" using Cons.prems(4) by (auto simp: Suc_le_eq)
    with Cons.IH [OF t(1,2) _ _ _ False m] Cons.prems(3,4) False show ?thesis by simp
  qed
qed simp

lemma sidecar_message:
  assumes "flush_order_ok (ie_flush_order env)" "indexed env s" "rows_below (Suc t) (snd s)"
    and "follows t [(blocks, ids)]" "mutate_blocks env True blocks ids s = Some (out, s', sent)"
  shows "indexed env s' \<and> rows_below (Suc (last (block_heights blocks))) (snd s') \<and>
    db_height (snd s') = last (block_heights blocks)"
proof -
  obtain ic db where s: "s = (ic, db)" by (cases s)
  let ?hs = "block_heights blocks"
  have f: "blocks \<noteq> []" "list_all (\<lambda>c. \<not> cb_processed c) blocks" "hd ?hs \<le> Suc t" "?hs = [hd ?hs..<Suc (last ?hs)]"
    "unat ` set ids = {hd ?hs..t}"
    using assms(4) by (simp_all add: Let_def)
  have r: "reorg_from (hd ?hs) ids db"
    using assms(3) f(5) by (auto simp: s reorg_from_def rows_below_heights less_Suc_eq_le)
  have sorted: "sorted_wrt (<) ?hs"
    by (subst f(4)) (rule sorted_wrt_upt)
  have low: "\<forall>h \<in> set ?hs. hd ?hs \<le> h"
    by (subst f(4)) auto
  note b = roll_back_reorg [OF assms(2) [unfolded s] r]
  have m: "mutate_each env True blocks (ic, fold roll_back_block ids db) = Some (out, s', sent)"
    using assms(5) by (simp add: s mutate_blocks_def)
  have "filter (\<lambda>c. \<not> cb_processed c) blocks = blocks" using f(2) by (simp add: list_all_iff filter_id_conv)
  with mutate_each_indexed [OF assms(1) conjunct1 [OF b] _ _ _ m, of "hd ?hs"] b sorted low
  have "indexed env s'" by auto
  with mutate_each_top [OF assms(1) conjunct1 [OF b] _ f(2) sorted low f(1) m] b show ?thesis by simp
qed

lemma sidecar_loop_follows:
  assumes "flush_order_ok (ie_flush_order env)" "indexed env s" "rows_below (Suc t) (snd s)" "db_height (snd s) = t"
    and "follows t ms" "sidecar_loop env ms s = Some (outs, s', ids)"
  shows "indexed env s' \<and> rows_below (Suc (top_after t ms)) (snd s') \<and> db_height (snd s') = top_after t ms"
  using assms(2-6)
proof (induction t ms arbitrary: s outs ids rule: follows.induct)
  case (2 t blocks rollback_ids ms)
  then obtain out s1 sent outs1 ids1 where
    1: "mutate_blocks env True blocks rollback_ids s = Some (out, s1, sent)"
    and m: "sidecar_loop env ms s1 = Some (outs1, s', ids1)"
    by (auto simp: bind_eq_Some_conv)
  have "follows t [(blocks, rollback_ids)]" "follows (last (block_heights blocks)) ms"
    using "2.prems"(4) by (simp_all add: Let_def)
  with sidecar_message [OF assms(1) "2.prems"(1,2) _ 1] "2.IH" [OF refl, of s1 outs1 ids1] m
  show ?case by simp
qed simp

lemma get_blocks_texts:
  "get_blocks nd (Some (dec (unat a) @ 58 # dec (unat b))) None = nd_range nd a b"
  "get_blocks nd None (Some (heights_text (h # hs))) = nd_sorted nd (h # hs)"
proof -
  have "split_all 58 (dec (unat a) @ 58 # dec (unat b)) = [dec (unat a), dec (unat b)]"
    by (simp add: split_all_append split_all_one digits_only)
  then show "get_blocks nd (Some (dec (unat a) @ 58 # dec (unat b))) None = nd_range nd a b"
    by (simp add: get_blocks_def vec_get_def codec)
  have "parse_heights (split_all 44 (heights_text (h # hs))) = Some (h # hs)" by (rule parse_heights_text) simp
  then show "get_blocks nd None (Some (heights_text (h # hs))) = nd_sorted nd (h # hs)"
    by (simp add: get_blocks_def del: heights_text.simps)
qed

section \<open>However the messages end\<close>

lemma mutate_run_each:
  "mutate_each env notify cs s = Some (cs', s', ids) \<Longrightarrow> mutate_run env notify cs s = Returned s'"
  "mutate_each env notify cs s = None \<Longrightarrow> \<exists>s'. mutate_run env notify cs s = Panicked s'"
proof -
  show "mutate_each env notify cs s = Some (cs', s', ids) \<Longrightarrow> mutate_run env notify cs s = Returned s'"
    by (induction cs arbitrary: s cs' ids) (auto simp: bind_eq_Some_conv split: if_splits)
  show "mutate_each env notify cs s = None \<Longrightarrow> \<exists>s'. mutate_run env notify cs s = Panicked s'"
    by (induction cs arbitrary: s) (auto simp: bind_eq_None_conv split: if_splits option.splits prod.splits)
qed

text \<open>The two readings of the loop agree.\<close>

lemma sidecar_run_loop:
  fixes env :: "('a, 'b, 'c, 'd) index_env"
  shows "sidecar_loop env ms s = Some (outs, s', ids) \<Longrightarrow> sidecar_run env ms s = Returned s'"
    and "sidecar_loop env ms s = None \<Longrightarrow>
      \<exists>s'. sidecar_run env ms s = (Panicked s' :: ('e, ('a, 'b, 'c, 'd) index_state) outcome)"
proof -
  show "sidecar_loop env ms s = Some (outs, s', ids) \<Longrightarrow> sidecar_run env ms s = Returned s'"
  proof (induction ms arbitrary: s outs ids)
    case (Cons m ms)
    obtain bs rb where m: "m = (bs, rb)" by (cases m)
    with Cons.prems obtain out s1 sent outs1 ids1 where
      1: "mutate_each env True bs (fst s, fold roll_back_block rb (snd s)) = Some (out, s1, sent)"
      and 2: "sidecar_loop env ms s1 = Some (outs1, s', ids1)"
      by (auto simp: bind_eq_Some_conv mutate_blocks_def split: prod.splits)
    from Cons.IH [OF 2] show ?case by (simp add: m mutate_run_each(1) [OF 1])
  qed simp
  show "sidecar_loop env ms s = None \<Longrightarrow>
      \<exists>s'. sidecar_run env ms s = (Panicked s' :: ('e, ('a, 'b, 'c, 'd) index_state) outcome)"
  proof (induction ms arbitrary: s)
    case (Cons m ms)
    obtain bs rb where m: "m = (bs, rb)" by (cases m)
    show ?case
    proof (cases "mutate_each env True bs (fst s, fold roll_back_block rb (snd s))")
      case None
      then obtain s' where "mutate_run env True bs (fst s, fold roll_back_block rb (snd s)) =
          (Panicked s' :: ('e, ('a, 'b, 'c, 'd) index_state) outcome)"
        using mutate_run_each(2) by blast
      then show ?thesis by (simp add: m)
    next
      case (Some x)
      then obtain out s1 sent where 1: "mutate_each env True bs (fst s, fold roll_back_block rb (snd s)) = Some (out, s1, sent)"
        by (cases x) auto
      with Cons.prems have "sidecar_loop env ms s1 = None"
        by (cases s; cases "sidecar_loop env ms s1") (auto simp: m mutate_blocks_def)
      with Cons.IH show ?thesis by (simp add: m mutate_run_each(1) [OF 1])
    qed
  qed simp
qed

lemma mutate_run_top:
  assumes "flush_order_ok (ie_flush_order env)"
    and "indexed env s" "rows_below k (snd s)" "k \<le> Suc (db_height (snd s))" "db_height (snd s) < 2 ^ 64"
    and "list_all (\<lambda>c. \<not> cb_processed c) cs" "sorted_wrt (<) (block_heights cs)" "\<forall>h \<in> set (block_heights cs). k \<le> h"
  shows "at_top env (outcome_state (mutate_run env notify cs s)) \<and>
    (\<forall>s'. mutate_run env notify cs s = Returned s' \<longrightarrow>
      db_height (snd s') = last (db_height (snd s) # block_heights cs))"
  using assms(2-8)
proof (induction cs arbitrary: s k)
  case Nil
  then show ?case by (auto simp: at_top_def intro: rows_below_mono)
next
  case (Cons c cs)
  have new: "\<not> cb_processed c" using Cons.prems(5) by simp
  show ?case
  proof (cases "index_block env notify (cb_block c) s")
    case None
    with new Cons.prems show ?thesis by (auto simp: at_top_def intro: rows_below_mono)
  next
    case (Some r)
    obtain t sent where r: "r = (t, sent)" by (cases r)
    let ?h = "unat (bd_height (cb_block c))"
    have "rows_below ?h (snd s)" using Cons.prems(2,7) by (auto intro: rows_below_mono)
    from indexed_block [OF assms(1) Cons.prems(1) this Some [unfolded r]]
    have t: "indexed env t" "rows_below (Suc ?h) (snd t)" "db_height (snd t) = ?h" by simp_all
    have "\<forall>h \<in> set (block_heights cs). Suc ?h \<le> h" using Cons.prems(6) by (auto simp: Suc_le_eq)
    from Cons.IH [OF t(1,2) _ _ _ _ this] Cons.prems(5,6) new Some r t(3) unat_u64 [of "bd_height (cb_block c)"]
    show ?thesis by simp
  qed
qed

lemma sidecar_run_top:
  fixes env :: "('a, 'b, 'c, 'd) index_env"
  assumes "flush_order_ok (ie_flush_order env)" "at_top env s" "follows (db_height (snd s)) ms"
  shows "at_top env (outcome_state (sidecar_run env ms s :: ('e, ('a, 'b, 'c, 'd) index_state) outcome))"
  using assms(2,3)
proof (induction ms arbitrary: s)
  case (Cons m ms)
  obtain blocks ids where m: "m = (blocks, ids)" by (cases m)
  let ?hs = "block_heights blocks" and ?t = "db_height (snd s)"
  have f: "blocks \<noteq> []" "list_all (\<lambda>c. \<not> cb_processed c) blocks" "hd ?hs \<le> Suc ?t" "?hs = [hd ?hs..<Suc (last ?hs)]"
    "unat ` set ids = {hd ?hs..?t}" "follows (last ?hs) ms"
    using Cons.prems(2) by (simp_all add: m Let_def)
  have top: "indexed env (fst s, snd s)" "rows_below (Suc ?t) (snd s)" "?t < 2 ^ 64"
    using Cons.prems(1) by (simp_all add: at_top_def)
  have r: "reorg_from (hd ?hs) ids (snd s)"
    using top(2) f(5) by (auto simp: reorg_from_def rows_below_heights less_Suc_eq_le)
  have sorted: "sorted_wrt (<) ?hs" by (subst f(4)) (rule sorted_wrt_upt)
  have low: "\<forall>h \<in> set ?hs. hd ?hs \<le> h" by (subst f(4)) auto
  let ?s = "(fst s, fold roll_back_block ids (snd s))"
  have h: "db_height (snd ?s) = ?t" by (simp add: fold_roll_back)
  note b = roll_back_reorg [OF top(1) r]
  let ?r = "mutate_run env True blocks ?s :: ('e, ('a, 'b, 'c, 'd) index_state) outcome"
  have x: "at_top env (outcome_state ?r) \<and> (\<forall>s'. ?r = Returned s' \<longrightarrow> db_height (snd s') = last (db_height (snd ?s) # ?hs))"
    by (rule mutate_run_top [OF assms(1) _ _ _ _ f(2) sorted low]) (use b h f(3) top(3) in simp_all)
  show ?case
  proof (cases ?r)
    case (Returned s')
    with x f(1,6) Cons.IH [of s'] show ?thesis by (simp add: m)
  qed (use x in \<open>simp_all add: m\<close>)
qed simp

section \<open>Properties\<close>

text \<open>
  C5. The service follows the chain: started on the tables of an earlier run, with a node whose tip
  stands still at or above their height, it either fails on an answer of the node or on a panic
  or reaches the tip; and whatever chain of messages it handles then, forks of any depth
  included, its books are in order and its top is the last block it was told of.
\<close>

theorem service_follows_chain:
  assumes "flush_order_ok (ie_flush_order env)" "node_ok nd" "at_top env (ic, db)"
    and "get_rune_genesis_block_height net \<noteq> None" "\<forall>c. nd_tip nd c = tip" "db_height db \<le> unat tip"
    and "start_service env nd net n clock db = Some (Returned (Some s, db'))"
    and "follows (unat tip) ms" "sidecar_loop env ms s = Some (outs, s', ids)"
  shows "db_books (snd s') \<and> rows_below (Suc (top_after (unat tip) ms)) (snd s') \<and>
    db_height (snd s') = top_after (unat tip) ms"
proof -
  from assms(7) obtain ic1 r where 1: "index_cache_new env net n db = Some ic1"
    and r: "catch_up env nd net clock (ic1, db) = Some r"
    and s: "(case r of Failed e t \<Rightarrow> Some (Failed e (None, snd t)) | Panicked t \<Rightarrow> Some (Panicked (None, snd t))
      | Returned t \<Rightarrow> (case index_cache_new env net n (snd t) of None \<Rightarrow> Some (Panicked (None, snd t))
        | Some ic \<Rightarrow> Some (Returned (Some (ic, snd t), snd t)))) = Some (Returned (Some s, db'))"
    by (auto simp: start_service_def bind_eq_Some_conv split: option.splits)
  then obtain t ic2 where t: "r = Returned t" "index_cache_new env net n (snd t) = Some ic2" "s = (ic2, snd t)"
    by (cases r) (auto split: option.splits)
  have "at_top env (ic1, db)" using assms(3) restart [OF _ 1] by (auto simp: at_top_def)
  from catch_up_at_top [OF assms(1,2) this assms(4,5), of clock] assms(6) r t
  have top: "at_top env t" "db_height (snd t) = unat tip" by (cases t; auto)+
  have "indexed env s"
    using top(1) t(2,3) restart [of env "fst t" "snd t" net n ic2] by (simp add: at_top_def)
  with sidecar_loop_follows [OF assms(1) this _ _ assms(8,9)] top t(3)
  have "indexed env s' \<and> rows_below (Suc (top_after (unat tip) ms)) (snd s') \<and> db_height (snd s') = top_after (unat tip) ms"
    by (simp add: at_top_def)
  with indexed_books [OF assms(1), of "fst s'" "snd s'"] show ?thesis by simp
qed

text \<open>
  C26. Asking the node for its height returns exactly when it can: the loop ends with the first
  answer after the first client, and it does not end when every attempt fails.
\<close>

theorem bitcoind_height_iff:
  "(bitcoind_get_block_height client_new info n = Some (h, Suc m) \<longleftrightarrow>
     (\<exists>k c. n \<le> k \<and> client_new k = Inr c \<and> (\<forall>j. n \<le> j \<and> j < k \<longrightarrow> isl (client_new j)) \<and>
       k < m \<and> info c m = Inr h \<and> (\<forall>j. k < j \<and> j < m \<longrightarrow> isl (info c j)))) \<and>
   (bitcoind_get_block_height client_new info n = None \<longleftrightarrow>
     (\<forall>k. n \<le> k \<longrightarrow> isl (client_new k)) \<or>
     (\<exists>k c. n \<le> k \<and> client_new k = Inr c \<and> (\<forall>j. n \<le> j \<and> j < k \<longrightarrow> isl (client_new j)) \<and>
       (\<forall>j. k < j \<longrightarrow> isl (info c j))))"
proof -
  let ?f = "bitcoind_get_block_height client_new info n"
  have f: "?f = (case retry client_new n of None \<Rightarrow> None | Some (c, p) \<Rightarrow> retry (info c) p)"
    by (simp add: bitcoind_get_block_height_def get_client_def split: option.split)
  have x: "retry client_new n = None \<or> (\<exists>k c. retry client_new n = Some (c, Suc k))"
    using retry_answer [of client_new n] by (cases "retry client_new n") blast+
  have some: "?f = Some r \<longleftrightarrow> (\<exists>k c. retry client_new n = Some (c, Suc k) \<and> retry (info c) (Suc k) = Some r)" for r
    using x unfolding f by auto
  have none: "?f = None \<longleftrightarrow>
      retry client_new n = None \<or> (\<exists>k c. retry client_new n = Some (c, Suc k) \<and> retry (info c) (Suc k) = None)"
    using x unfolding f by auto
  show ?thesis
    unfolding some none retry_iff retry_None Suc_le_eq by auto
qed


end
