(* ===== verification/Entry.thy ===== *)
theory Entry
  imports Commands
begin

text \<open>
  The commands as a whole (\<^verbatim>\<open>src/cli.rs\<close>) and the configuration file one of them writes
  (\<^verbatim>\<open>src/config/generator.rs\<close>). Main facts: commands run one after the other, however each of
  them ends, leave tables whose books are in order, as long as a scan starts above the scanned
  height and a drop reaches it; a drop that stops below newer balances leaves the books wrong.

  Every command is a process of its own. The file system, the TOML parser, the overrides of the
  SDK, the environment and the answer typed are parameters.
\<close>

section \<open>The default configuration\<close>

definition generate_config :: ustr where
  "generate_config = 10 # concat (map (\<lambda>l. lit l @ [10])
     [''[postgres]'',
      ''username = \"postgres\"'',
      ''password = \"postgres\"'',
      ''database = \"postgres\"'',
      ''host = \"localhost\"'',
      ''port = 5432'',
      '''',
      ''[network]'',
      ''bitcoin_network = \"mainnet\"'',
      ''bitcoind_rpc_url = \"http://0.0.0.0:8332\"'',
      ''bitcoind_rpc_username = \"user\"'',
      ''bitcoind_rpc_password = \"pass\"'',
      ''bitcoind_zmq_url = \"tcp://0.0.0.0:18543\"'',
      '''',
      ''[resources]'',
      ''lru_cache_size = 50000'',
      '''',
      ''[logs]'',
      ''runes_internals = true'',
      ''chainhook_internals = false''])"

section \<open>Commands\<close>

datatype command =
    ConfigNew
  | ServiceStart ustr
  | ScanStart ustr "ustr option" "ustr option"
  | DbDrop u64 u64 ustr

datatype ('i, 'x, 'e) command_error =
    NotOpened 'i
  | NotWritten 'i
  | BadConfig "('i, 'x) config_error"
  | NodeError 'e

text \<open>
  What the process finds around it: files that are created and written, the environment variable
  for maintenance, the messages of the block observer until it ends, and the line read from the
  terminal (\<open>None\<close> when reading fails).
\<close>

record ('f, 'i, 'b, 'n, 'x, 'o, 's) platform =
  pl_create :: "ustr \<Rightarrow> 'f \<Rightarrow> 'i + 'f"
  pl_write_all :: "ustr \<Rightarrow> ustr \<Rightarrow> 'f \<Rightarrow> 'i option \<times> 'f"
  pl_read :: "'f \<Rightarrow> ustr \<Rightarrow> 'i + 'b"
  pl_parse :: "'b \<Rightarrow> 'i + 'n config_file"
  pl_overrides :: "'n option \<Rightarrow> 'x + 'o"
  pl_network :: "'o \<Rightarrow> bitcoin_network"
  pl_maintenance :: "ustr option"
  pl_messages :: "('s cached_block list \<times> u64 list) list"
  pl_answer :: "ustr option"

definition config_new_command ::
    "('f, 'i, 'b, 'n, 'x, 'o, 's) platform \<Rightarrow> 'f \<Rightarrow> (('i, 'x, 'e) command_error, 'f) outcome" where
  "config_new_command pl fs =
     (case pl_create pl (lit ''Runehook.toml'') fs of
        Inl e \<Rightarrow> Failed (NotOpened e) fs
      | Inr fs \<Rightarrow>
          (case pl_write_all pl (lit ''Runehook.toml'') generate_config fs of
             (Some e, fs) \<Rightarrow> Failed (NotWritten e) fs
           | (None, fs) \<Rightarrow> Returned fs))"

fun node_outcome :: "'f \<Rightarrow> ('s \<Rightarrow> database) \<Rightarrow> ('e, 's) outcome \<Rightarrow> (('i, 'x, 'e) command_error, 'f \<times> database) outcome"
  where
  "node_outcome fs db_of (Returned s) = Returned (fs, db_of s)"
| "node_outcome fs db_of (Failed e s) = Failed (NodeError e) (fs, db_of s)"
| "node_outcome fs db_of (Panicked s) = Panicked (fs, db_of s)"

definition handle_command ::
    "('s, 'lr, 'lm, 'lo) index_env \<Rightarrow> ('s, 't, 'a, 'e) node \<Rightarrow> ('f, 'i, 'b, 'n, 'x, 'o, 's) platform \<Rightarrow> nat
     \<Rightarrow> command \<Rightarrow> 'f \<times> database \<Rightarrow> (('i, 'x, 'e) command_error, 'f \<times> database) outcome option" where
  "handle_command env nd pl clock cmd w =
     (case w of (fs, db) \<Rightarrow>
        let config = from_file_path (pl_read pl fs) (pl_parse pl) (pl_overrides pl);
            network = (\<lambda>config. get_bitcoin_network (pl_network pl (co_event_observer config)))
        in case cmd of
             ConfigNew \<Rightarrow>
               (case config_new_command pl fs of
                  Returned fs \<Rightarrow> Some (Returned (fs, db))
                | Failed e fs \<Rightarrow> Some (Failed e (fs, db))
                | Panicked fs \<Rightarrow> Some (Panicked (fs, db)))
           | ServiceStart path \<Rightarrow>
               (case config path of
                  Inl e \<Rightarrow> Some (Failed (BadConfig e) (fs, db))
                | Inr config \<Rightarrow>
                    map_option (node_outcome fs id)
                      (service_command env nd (network config) (unat (co_lru_cache_size config))
                        (pl_maintenance pl) (pl_messages pl) clock db))
           | ScanStart path blocks_interval blocks \<Rightarrow>
               (case config path of
                  Inl e \<Rightarrow> Some (Failed (BadConfig e) (fs, db))
                | Inr config \<Rightarrow>
                    map_option (node_outcome fs id)
                      (scan_command env nd (network config) (unat (co_lru_cache_size config))
                        blocks_interval blocks clock db))
           | DbDrop start_block last_block path \<Rightarrow>
               (case config path of
                  Inl e \<Rightarrow> Some (Failed (BadConfig e) (fs, db))
                | Inr config \<Rightarrow>
                    (case pl_answer pl of
                       None \<Rightarrow> Some (Panicked (fs, db))
                     | Some answer \<Rightarrow>
                         (case drop_command start_block last_block answer db of
                            Inl e \<Rightarrow> Some (Failed (BadConfig e) (fs, db))
                          | Inr db \<Rightarrow> Some (Returned (fs, db))))))"

text \<open>A sequence of processes, each with its platform and clock.\<close>

fun run_commands ::
    "('s, 'lr, 'lm, 'lo) index_env \<Rightarrow> ('s, 't, 'a, 'e) node
     \<Rightarrow> (('f, 'i, 'b, 'n, 'x, 'o, 's) platform \<times> nat \<times> command) list \<Rightarrow> 'f \<times> database
     \<Rightarrow> ('f \<times> database) option" where
  "run_commands env nd [] w = Some w"
| "run_commands env nd ((pl, clock, cmd) # cmds) w =
     Option.bind (handle_command env nd pl clock cmd w) (\<lambda>r. run_commands env nd cmds (outcome_state r))"

section \<open>The tables between commands\<close>

definition tables_ok :: "('s, 'lr, 'lm, 'lo) index_env \<Rightarrow> database \<Rightarrow> bool" where
  "tables_ok env db \<longleftrightarrow> (\<exists>ic. at_top env (ic, db))"

lemma at_top_tables: "at_top env s \<Longrightarrow> tables_ok env (snd s)"
  by (cases s) (auto simp: tables_ok_def)

lemma tables_okI: "at_top env (ic, db) \<Longrightarrow> tables_ok env db"
  by (auto simp: tables_ok_def)

lemma at_top_restart: "tables_ok env db \<Longrightarrow> index_cache_new env net n db = Some ic \<Longrightarrow> at_top env (ic, db)"
  by (auto simp: tables_ok_def at_top_def intro: restart)

text \<open>
  A scan starts above the scanned height, a drop reaches it (or drops nothing), and a service that
  has caught up is told of forks and blocks of one chain, from the height it has reached.
\<close>

definition command_fits ::
    "('s, 'lr, 'lm, 'lo) index_env \<Rightarrow> ('s, 't, 'a, 'e) node \<Rightarrow> ('f, 'i, 'b, 'n, 'x, 'o, 's) platform \<Rightarrow> nat
     \<Rightarrow> command \<Rightarrow> 'f \<times> database \<Rightarrow> bool" where
  "command_fits env nd pl clock cmd w \<longleftrightarrow>
     (case cmd of
        ConfigNew \<Rightarrow> True
      | ServiceStart path \<Rightarrow>
          (case from_file_path (pl_read pl (fst w)) (pl_parse pl) (pl_overrides pl) path of
             Inl e \<Rightarrow> True
           | Inr config \<Rightarrow>
               (\<forall>s db. start_service env nd (get_bitcoin_network (pl_network pl (co_event_observer config)))
                   (unat (co_lru_cache_size config)) clock (snd w) = Some (Returned (Some s, db)) \<longrightarrow>
                 follows (db_height db) (pl_messages pl)))
      | ScanStart path blocks_interval blocks \<Rightarrow>
          (case get_blocks nd blocks_interval blocks of
             None \<Rightarrow> True
           | Some hs \<Rightarrow> hs \<noteq> [] \<and> sorted_wrt (<) (db_height (snd w) # map unat hs))
      | DbDrop start_block last_block path \<Rightarrow> db_height (snd w) \<le> unat last_block \<or> last_block < start_block)"

lemma scan_any_at_top:
  assumes "flush_order_ok (ie_flush_order env)" "node_ok nd" "at_top env s"
    and "hs \<noteq> []" "sorted_wrt (<) (db_height (snd s) # map unat hs)"
    and "scan_blocks env nd hs clock s = Some r"
  shows "at_top env (outcome_state r)"
proof -
  have "sorted_wrt (<) hs" using assms(5) by (simp add: sorted_wrt_map word_less_nat_alt [abs_def])
  with assms(2,4) have "nd_sorted nd hs = Some hs" by (simp add: node_ok_def)
  with assms(6) scan_loop_at_top [OF assms(1-3,5), of None clock "(0, 0)"] show ?thesis
    by (simp add: scan_blocks_def scan_bitcoin_def)
qed

lemma catch_up_keeps:
  assumes "flush_order_ok (ie_flush_order env)" "node_ok nd" "at_top env s"
    and "catch_up env nd net clock s = Some r"
  shows "at_top env (outcome_state r)"
  using assms(1-3)
proof (induction rule: catch_up.raw_induct [OF _ assms(4)])
  case (1 catch_up env nd net clock s r)
  note ih = 1(1) and eq = 1(2) and pre = 1(3-5)
  show ?case
  proof (cases "get_rune_genesis_block_height net")
    case None
    with eq pre show ?thesis by auto
  next
    case (Some genesis)
    let ?t = "of_nat (db_height (snd s)) :: u64"
    have t: "unat ?t = db_height (snd s)" using pre(3) by (simp add: at_top_def unat_below del: power_numeral)
    have x: "unwrap_or (genesis - 1) (pg_get_last_block_height (snd s)) = ?t"
      by (simp add: pg_get_last_block_height_def unwrap_or_def)
    consider "nd_tip nd clock < ?t" | "?t < nd_tip nd clock" | "nd_tip nd clock = ?t" by fastforce
    then show ?thesis
    proof cases
      case 1
      with eq Some x have "catch_up env nd net (Suc clock) s = Some r" by (simp add: Let_def)
      from ih [OF this pre] show ?thesis .
    next
      case 2
      then have "db_height (snd s) < unat (nd_tip nd clock)" using t by (simp add: word_less_nat_alt)
      from scan_blocks_at_top [OF pre this, of "Suc clock"] obtain q where
        q: "scan_blocks env nd (heights_to (?t + 1) (nd_tip nd clock)) (Suc clock) s = Some q" "at_top env (outcome_state q)"
        by blast
      with eq Some x 2 pre ih show ?thesis
        by (cases q) (auto simp: Let_def less_not_sym)
    next
      case 3
      with eq pre Some x show ?thesis by (auto simp: Let_def)
    qed
  qed
qed

lemma drop_keeps:
  assumes "tables_ok env db" "db_height db \<le> unat b \<or> b < a"
  shows "tables_ok env (drop_blocks a b db)"
proof (cases "b < a")
  case True
  then have "heights_to a b = []" by (simp add: heights_to_def word_less_nat_alt)
  with assms(1) show ?thesis by (simp add: drop_blocks_def)
next
  case False
  with assms obtain ic where top: "at_top env (ic, db)" and b: "db_height db \<le> unat b"
    by (auto simp: tables_ok_def)
  note hs = dropped_heights [of a b]
  have low: "\<forall>x \<in> row_heights db. x \<le> db_height db"
    using top by (simp add: at_top_def rows_below_heights less_Suc_eq_le)
  then have "\<forall>x \<in> row_heights db. unat a \<le> x \<longrightarrow> x \<in> unat ` set (heights_to a b)"
    using b unfolding hs by fastforce
  moreover have "\<forall>h \<in> set (heights_to a b). unat a \<le> unat h" using hs by force
  ultimately have "reorg_from (unat a) (heights_to a b) db" by (simp add: reorg_from_def)
  with roll_back_reorg [of env ic db] top have "indexed env (ic, drop_blocks a b db)"
    by (simp add: at_top_def drop_blocks_def)
  moreover have "db_height (drop_blocks a b db) = db_height db" by (simp add: drop_blocks_def fold_roll_back)
  moreover have "row_heights (drop_blocks a b db) \<subseteq> row_heights db"
    by (auto simp: drop_blocks_def fold_roll_back fold_delete_height row_heights_def)
  ultimately have "at_top env (ic, drop_blocks a b db)"
    using top low by (auto simp: at_top_def rows_below_heights)
  then show ?thesis by (auto simp: tables_ok_def)
qed

lemma start_service_keeps:
  assumes "flush_order_ok (ie_flush_order env)" "node_ok nd" "tables_ok env db"
    and "start_service env nd net n clock db = Some r"
  shows "tables_ok env (snd (outcome_state r))"
    and "r = Returned (Some s, db') \<Longrightarrow> at_top env s \<and> snd s = db'"
proof -
  have "tables_ok env (snd (outcome_state r)) \<and> (r = Returned (Some s, db') \<longrightarrow> at_top env s \<and> snd s = db')"
  proof (cases "index_cache_new env net n db")
    case None
    with assms(3,4) show ?thesis by (auto simp: start_service_def)
  next
    case (Some ic)
    with assms(4) obtain q where q: "catch_up env nd net clock (ic, db) = Some q"
      by (auto simp: start_service_def bind_eq_Some_conv)
    note top = catch_up_keeps [OF assms(1,2) at_top_restart [OF assms(3) Some] q]
    from assms(4) Some q top show ?thesis
      by (cases q) (auto simp: start_service_def intro: tables_okI at_top_restart [OF at_top_tables, simplified]
        split: option.splits)
  qed
  then show "tables_ok env (snd (outcome_state r))" "r = Returned (Some s, db') \<Longrightarrow> at_top env s \<and> snd s = db'" by simp_all
qed

lemma run_service_keeps:
  fixes env :: "('a, 'b, 'c, 'd) index_env" and nd :: "('a, 't, 'x, 'e) node"
  assumes "flush_order_ok (ie_flush_order env)" "node_ok nd" "tables_ok env db"
    and "\<And>s db'. start_service env nd net n clock db = Some (Returned (Some s, db')) \<Longrightarrow> follows (db_height db') ms"
    and "run_service env nd net n ms clock db = Some z"
  shows "tables_ok env (outcome_state z)"
proof -
  from assms(5) obtain r where r: "start_service env nd net n clock db = Some r" by (auto simp: run_service_def)
  note keeps = start_service_keeps [OF assms(1-3) r]
  show ?thesis
  proof (cases "\<exists>s db'. r = Returned (Some s, db')")
    case True
    then obtain s db' where q: "r = Returned (Some s, db')" by blast
    with keeps(2) have top: "at_top env s" "snd s = db'" by simp_all
    with assms(4) r q have "follows (db_height (snd s)) ms" by simp
    let ?q = "sidecar_run env ms s :: ('e, ('a, 'b, 'c, 'd) index_state) outcome"
    have "at_top env (outcome_state ?q)" by (rule sidecar_run_top [OF assms(1) top(1)]) fact
    then have "tables_ok env (snd (outcome_state ?q))" by (rule at_top_tables)
    with assms(5) r q show ?thesis by (cases ?q) (auto simp: run_service_def)
  next
    case False
    with keeps(1) assms(5) r show ?thesis
      by (cases r) (auto simp: run_service_def split: option.splits)
  qed
qed

lemma scan_command_keeps:
  assumes "flush_order_ok (ie_flush_order env)" "node_ok nd" "tables_ok env db"
    and "\<And>hs. get_blocks nd interval blocks = Some hs \<Longrightarrow>
      hs \<noteq> [] \<and> sorted_wrt (<) (db_height db # map unat hs)"
    and "scan_command env nd net n interval blocks clock db = Some r"
  shows "tables_ok env (outcome_state r)"
proof (cases "get_blocks nd interval blocks")
  case None
  with assms(3,5) show ?thesis by (auto simp: scan_command_def)
next
  case hs: (Some hs)
  show ?thesis
  proof (cases "index_cache_new env net n db")
    case None
    with hs assms(3,5) show ?thesis by (auto simp: scan_command_def)
  next
    case (Some ic)
    with assms(5) hs obtain q where q: "scan_blocks env nd hs clock (ic, db) = Some q"
      by (auto simp: scan_command_def)
    have "at_top env (outcome_state q)"
      using scan_any_at_top [OF assms(1,2) at_top_restart [OF assms(3) Some] _ _ q] assms(4) [OF hs] by simp
    with assms(5) hs Some q show ?thesis
      by (cases q) (auto simp: scan_command_def intro: tables_okI)
  qed
qed

lemma node_outcome_db [simp]: "snd (outcome_state (node_outcome fs f r)) = f (outcome_state r)"
  by (cases r) simp_all

lemma handle_command_keeps:
  assumes "flush_order_ok (ie_flush_order env)" "node_ok nd" "tables_ok env (snd w)"
    and "command_fits env nd pl clock cmd w" "handle_command env nd pl clock cmd w = Some r"
  shows "tables_ok env (snd (outcome_state r))"
proof -
  obtain fs db where w: "w = (fs, db)" by (cases w)
  note ok = assms(3) [unfolded w snd_conv] and fits = assms(4) [unfolded w]
  note r = assms(5) [unfolded w handle_command_def prod.case Let_def]
  show ?thesis
  proof (cases cmd)
    case ConfigNew
    with r ok show ?thesis by (auto split: outcome.splits)
  next
    case (ServiceStart path)
    let ?config = "from_file_path (pl_read pl fs) (pl_parse pl) (pl_overrides pl) path"
    show ?thesis
    proof (cases ?config)
      case (Inl e)
      with r ok ServiceStart show ?thesis by auto
    next
      case (Inr config)
      let ?net = "get_bitcoin_network (pl_network pl (co_event_observer config))" and ?n = "unat (co_lru_cache_size config)"
      have "follows (db_height db') (pl_messages pl)"
        if "start_service env nd ?net ?n clock db = Some (Returned (Some s, db'))" for s db'
        using fits ServiceStart Inr that by (auto simp: command_fits_def)
      then have "tables_ok env (outcome_state z)"
        if "run_service env nd ?net ?n (pl_messages pl) clock db = Some z" for z
        using run_service_keeps [OF assms(1,2) ok _ that] by blast
      with r ServiceStart Inr show ?thesis by (auto simp: service_command_def split: if_splits)
    qed
  next
    case (ScanStart path interval blocks)
    with fits have "hs \<noteq> [] \<and> sorted_wrt (<) (db_height db # map unat hs)"
      if "get_blocks nd interval blocks = Some hs" for hs
      using that by (simp add: command_fits_def)
    then have "tables_ok env (outcome_state z)"
      if "scan_command env nd net n interval blocks clock db = Some z" for net n z
      using scan_command_keeps [OF assms(1,2) ok _ that] by blast
    with ScanStart r ok show ?thesis by (auto split: sum.splits)
  next
    case (DbDrop a b path)
    with r ok fits drop_keeps [OF ok] show ?thesis
      by (auto simp: drop_command_def command_fits_def split: sum.splits option.splits if_splits)
  qed
qed

fun commands_fit ::
    "('s, 'lr, 'lm, 'lo) index_env \<Rightarrow> ('s, 't, 'a, 'e) node
     \<Rightarrow> (('f, 'i, 'b, 'n, 'x, 'o, 's) platform \<times> nat \<times> command) list \<Rightarrow> 'f \<times> database \<Rightarrow> bool" where
  "commands_fit env nd [] w = True"
| "commands_fit env nd ((pl, clock, cmd) # cmds) w \<longleftrightarrow>
     command_fits env nd pl clock cmd w \<and>
     (case handle_command env nd pl clock cmd w of
        None \<Rightarrow> True
      | Some r \<Rightarrow> commands_fit env nd cmds (outcome_state r))"

section \<open>Dropping part of the chain\<close>

definition dropped_entries :: "u64 \<Rightarrow> u64 \<Rightarrow> database \<Rightarrow> ledger_entry list" where
  "dropped_entries a b db = filter (\<lambda>e. a \<le> le_block_height e \<and> le_block_height e \<le> b) (db_ledger db)"

lemma tally_split: "tally g (filter P ls) k + tally g (filter (\<lambda>e. \<not> P e) ls) k = tally g ls k"
  by (induction ls) simp_all

lemma drop_tally:
  "tally g (db_ledger (drop_blocks a b db)) k + tally g (dropped_entries a b db) k = tally g (db_ledger db) k"
proof -
  have "db_ledger (drop_blocks a b db) =
      filter (\<lambda>e. \<not> (a \<le> le_block_height e \<and> le_block_height e \<le> b)) (db_ledger db)"
    by (simp add: drop_blocks_def fold_roll_back fold_delete_height dropped_heights word_le_nat_alt)
  with tally_split [of g "\<lambda>e. a \<le> le_block_height e \<and> le_block_height e \<le> b" "db_ledger db" k]
  show ?thesis by (simp add: dropped_entries_def)
qed

lemma drop_keeps_newer:
  assumes "r \<in> set (db_balances db)" "balance_key r = k" "unat b < br_block_height r"
  shows "balance_value (drop_blocks a b db) k = balance_value db k"
proof -
  let ?P = "\<lambda>r. br_block_height r \<notin> {unat a..unat b}" and ?K = "\<lambda>r. balance_key r = k"
  have "db_balances (drop_blocks a b db) = filter ?P (db_balances db)"
    by (simp add: drop_blocks_def fold_roll_back fold_delete_height dropped_heights)
  moreover have "latest_of br_block_height (filter ?P (filter ?K (db_balances db))) =
      latest_of br_block_height (filter ?K (db_balances db))"
    by (rule latest_of_filter [of r _ "unat b"]) (use assms in auto)
  ultimately show ?thesis
    by (simp add: balance_value_def balance_of_def latest_def conj_commute)
qed

section \<open>Properties\<close>

text \<open>
  C6. Whatever sequence of commands is run, each a process of its own that may end with an error
  of the node, of the configuration or in a panic, the books are in order afterwards, at every
  height. A service counts from its start to the end of the observer, with the blocks and the
  re-organisations it is told of in between, and also when one of those blocks cannot be indexed.
  The conditions: a scan starts above the scanned height, a drop reaches it, and the messages
  follow one chain from the height the service has reached.
\<close>

theorem commands_keep_books:
  assumes "flush_order_ok (ie_flush_order env)" "node_ok nd" "at_top env (ic, snd w)"
    and "commands_fit env nd cmds w" "run_commands env nd cmds w = Some w'"
  shows "db_books (snd w') \<and> db_books (before h (snd w'))"
proof -
  have "tables_ok env (snd w)" using at_top_tables [OF assms(3)] by simp
  with assms(4,5) have "tables_ok env (snd w')"
  proof (induction cmds arbitrary: w)
    case (Cons p cmds)
    obtain pl clock cmd where p: "p = (pl, clock, cmd)" by (metis prod_cases3)
    with Cons.prems(2) obtain r where r: "handle_command env nd pl clock cmd w = Some r"
      "run_commands env nd cmds (outcome_state r) = Some w'"
      by (auto simp: bind_eq_Some_conv)
    have fits: "command_fits env nd pl clock cmd w" "commands_fit env nd cmds (outcome_state r)"
      using Cons.prems(1) by (simp_all add: p r(1))
    from Cons.IH [OF fits(2) r(2) handle_command_keeps [OF assms(1,2) Cons.prems(3) fits(1) r(1)]]
    show ?case .
  qed simp
  then obtain ic' where "indexed env (ic', snd w')" by (auto simp: tables_ok_def at_top_def)
  from indexed_books [OF assms(1) this] show ?thesis by simp
qed

text \<open>
  C27. Dropping blocks below newer ones puts the books out of order: a balance with a newer row
  stays as it is, while the entries of the dropped blocks leave the ledger, so the two differ
  by what those entries gave and took.
\<close>

theorem drop_below_newer_blocks:
  assumes "db_books db" "r \<in> set (db_balances db)" "balance_key r = k" "unat b < br_block_height r"
    and "tally credit_of (db_ledger db) k < 2 ^ 128" "tally debit_of (db_ledger db) k < 2 ^ 128"
  shows "balance_value (drop_blocks a b db) k =
      int (tally credit_of (db_ledger (drop_blocks a b db)) k) - int (tally debit_of (db_ledger (drop_blocks a b db)) k) +
      (int (tally credit_of (dropped_entries a b db) k) - int (tally debit_of (dropped_entries a b db) k)) \<and>
    (tally credit_of (dropped_entries a b db) k \<noteq> tally debit_of (dropped_entries a b db) k \<longrightarrow>
      \<not> db_books (drop_blocks a b db))"
proof -
  let ?db = "drop_blocks a b db"
  note c = drop_tally [of credit_of a b db k] and d = drop_tally [of debit_of a b db k]
  have "balance_value db k = int (tally credit_of (db_ledger db) k) - int (tally debit_of (db_ledger db) k)"
    using assms(1,5,6) unfolding db_books_def by blast
  then have v: "balance_value ?db k =
      int (tally credit_of (db_ledger ?db) k) - int (tally debit_of (db_ledger ?db) k) +
      (int (tally credit_of (dropped_entries a b db) k) - int (tally debit_of (dropped_entries a b db) k))"
    using drop_keeps_newer [OF assms(2-4), of a] c d by linarith
  have "tally credit_of (db_ledger ?db) k < 2 ^ 128" "tally debit_of (db_ledger ?db) k < 2 ^ 128"
    using assms(5,6) c d by linarith+
  then have "db_books ?db \<Longrightarrow> balance_value ?db k =
      int (tally credit_of (db_ledger ?db) k) - int (tally debit_of (db_ledger ?db) k)"
    unfolding db_books_def by blast
  with v show ?thesis by auto
qed

end
