(* ===== verification/Service_Samples.thy ===== *)
theory Service_Samples
  imports Entry Chain_Samples
begin

text \<open>
  A node with one block above the scanned height, and the witnesses of the properties of the
  service.
\<close>

definition sample_node :: "u64 \<Rightarrow> (instruction list, unit, unit, unit) node" where
  "sample_node tip =
     \<lparr>nd_tip = (\<lambda>c. tip), nd_block = (\<lambda>h. if h = 840001 then Inr (Some sample_block) else Inl ()),
      nd_sorted = (\<lambda>hs. Some hs), nd_range = (\<lambda>a b. Some (heights_to a b)), nd_evaluate = (\<lambda>b. []),
      nd_handle = (\<lambda>t. Inl ()), nd_send = (\<lambda>a. None), nd_no_start = (), nd_bad_range = ()\<rparr>"

lemma sample_node_ok: "node_ok (sample_node tip)"
  by (simp add: node_ok_def sample_node_def sample_block_def)

lemma sample_at_top: "at_top sample_env (sample_start, sample_tables)"
  using sample_indexed by (simp add: at_top_def rows_below_iff sample_tables_def)

lemma catch_up_reaches_tip_witness:
  "\<exists>r. catch_up sample_env (sample_node 840001) Bitcoin 0 (sample_start, sample_tables) = Some r \<and>
     indexed sample_env (outcome_state r) \<and> (\<forall>s'. r = Returned s' \<longrightarrow> db_height (snd s') = 840001)"
  using catch_up_reaches_tip [OF sample_order_ok sample_node_ok sample_at_top, of Bitcoin 840001 840001 0]
  by (simp add: sample_node_def sample_tables_def)

lemma catch_up_waits_witness:
  "catch_up sample_env (sample_node 5) Bitcoin 0 (sample_start, sample_tables) = None"
  using catch_up_waits [of "sample_node 5" "(sample_start, sample_tables)" Bitcoin sample_env 0]
  by (simp add: sample_node_def sample_tables_def)

lemma mutate_blocks_indexed_witness:
  "\<exists>s ids. mutate_blocks sample_env True [\<lparr>cb_block = sample_block, cb_processed = False\<rparr>] [] (sample_start, sample_tables) =
     Some ([\<lparr>cb_block = sample_block, cb_processed = True\<rparr>], s, ids) \<and> indexed sample_env s"
proof -
  obtain ic db where i: "index_block sample_env True sample_block (sample_start, sample_tables) =
      Some ((ic, db), [[48, 120, 98]])"
    by (rule sample_index_block)
  have m: "mutate_blocks sample_env True [\<lparr>cb_block = sample_block, cb_processed = False\<rparr>] [] (sample_start, sample_tables) =
      Some ([\<lparr>cb_block = sample_block, cb_processed = True\<rparr>], (ic, db), [[48, 120, 98]])"
    by (simp add: mutate_blocks_def i)
  have r: "reorg_from 840001 [] sample_tables"
    by (simp add: reorg_from_def row_heights_def sample_tables_def)
  from mutate_blocks_indexed [OF sample_order_ok sample_indexed r _ _ m] m show ?thesis
    by (simp add: sample_block_def)
qed

lemma dropped_blocks_stay_missing_witness:
  "\<exists>db. catch_up sample_env (sample_node 840000) Bitcoin 0 (sample_start, drop_blocks 840000 840000 sample_tables) =
     Some (Returned (sample_start, db)) \<and> db_runes sample_tables \<noteq> [] \<and> db_runes db = [] \<and> db_height db = 840000"
proof -
  have "nd_tip (sample_node 840000) 0 = of_nat (db_height sample_tables)"
    by (simp add: sample_node_def sample_tables_def)
  from dropped_blocks_stay_missing [OF this, of Bitcoin sample_env sample_start 840000 840000] show ?thesis
    by (auto simp: sample_tables_def first_rune_def)
qed

lemma sample_started:
  "start_service sample_env (sample_node 840000) Bitcoin 10 0 sample_tables =
     Some (Returned (Some (sample_start, sample_tables), sample_tables))"
proof -
  have "catch_up sample_env (sample_node 840000) Bitcoin 0 (sample_start, sample_tables) =
      Some (Returned (sample_start, sample_tables))"
    by (subst catch_up.simps)
      (simp add: pg_get_last_block_height_def sample_node_def sample_tables_def unwrap_or_def Let_def)
  then show ?thesis by (simp add: start_service_def sample_start)
qed

lemma service_follows_chain_witness:
  "\<exists>outs s ids. sidecar_loop sample_env [([\<lparr>cb_block = sample_block, cb_processed = False\<rparr>], [])] (sample_start, sample_tables) =
     Some (outs, s, ids) \<and> db_books (snd s) \<and> db_height (snd s) = 840001"
proof -
  obtain ic db where i: "index_block sample_env True sample_block (sample_start, sample_tables) =
      Some ((ic, db), [[48, 120, 98]])"
    by (rule sample_index_block)
  let ?ms = "[([\<lparr>cb_block = sample_block, cb_processed = False\<rparr>], [])]"
  have m: "sidecar_loop sample_env ?ms (sample_start, sample_tables) =
      Some ([[\<lparr>cb_block = sample_block, cb_processed = True\<rparr>]], (ic, db), [[48, 120, 98]])"
    by (simp add: mutate_blocks_def i)
  have h: "unat (bd_height sample_block) = 840001" by (simp add: sample_block_def)
  have "follows (unat (840000 :: u64)) ?ms" by (simp add: h upt_rec)
  with service_follows_chain [OF sample_order_ok sample_node_ok sample_at_top _ _ _ sample_started _ m, of 840000] m
  show ?thesis by (simp add: sample_node_def sample_tables_def h)
qed

lemma bitcoind_height_iff_witness:
  "bitcoind_get_block_height (\<lambda>k. if k < 2 then Inl () else Inr ()) (\<lambda>c m. if m < 5 then Inl () else Inr 840000) 0 =
     Some (840000, Suc 5)"
  by (simp only: bitcoind_height_iff) (intro exI [of _ 2] exI [of _ "()"], simp)

section \<open>Commands\<close>

text \<open>A platform on which a service is told of one new block.\<close>

definition sample_messages :: "(instruction list cached_block list \<times> u64 list) list" where
  "sample_messages = [([\<lparr>cb_block = sample_block, cb_processed = False\<rparr>], [])]"

definition sample_platform :: "(unit, unit, unit, unit, unit, unit, instruction list) platform" where
  "sample_platform =
     \<lparr>pl_create = (\<lambda>path fs. Inr fs), pl_write_all = (\<lambda>path text fs. (None, fs)), pl_read = (\<lambda>fs path. Inr ()),
      pl_parse = (\<lambda>b. Inr
        \<lparr>cf_network = None,
         cf_postgres = \<lparr>pf_database = None, pf_host = None, pf_port = None, pf_username = None, pf_password = None\<rparr>,
         cf_lru_cache_size = Some 10,
         cf_logs = \<lparr>lc_runes_internals = None, lc_chainhook_internals = None\<rparr>\<rparr>),
      pl_overrides = (\<lambda>n. Inr ()), pl_network = (\<lambda>c. SdkMainnet), pl_maintenance = None,
      pl_messages = sample_messages, pl_answer = Some (lit ''Y'')\<rparr>"

text \<open>The scan fails: the node does not have the block.\<close>

abbreviation sample_scan :: command where
  "sample_scan \<equiv> ScanStart [] (Some (dec 840002 @ 58 # dec 840002)) None"

definition sample_commands ::
    "((unit, unit, unit, unit, unit, unit, instruction list) platform \<times> nat \<times> command) list" where
  "sample_commands =
     [(sample_platform, 0, DbDrop 840001 840001 []), (sample_platform, 0, ConfigNew),
      (sample_platform, 0, ServiceStart []), (sample_platform, 0, sample_scan)]"

lemma sample_get_blocks: "get_blocks (sample_node 840000) (Some (dec 840002 @ 58 # dec 840002)) None = Some [840002]"
  using get_blocks_texts(1) [of "sample_node 840000" 840002 840002]
  by (simp add: sample_node_def heights_to_def)

lemma sample_config:
  "\<exists>config. from_file_path (pl_read sample_platform fs) (pl_parse sample_platform) (pl_overrides sample_platform) path =
     Inr config \<and> co_lru_cache_size config = 10"
  by (simp add: sample_platform_def from_file_path_def from_config_file_def unwrap_or_def)

lemma sample_network: "get_bitcoin_network (pl_network sample_platform c) = Bitcoin"
  by (simp add: sample_platform_def)

lemma commands_keep_books_witness:
  "\<exists>w. run_commands sample_env (sample_node 840000) sample_commands ((), sample_tables) = Some w \<and>
     db_books (snd w)"
proof -
  let ?nd = "sample_node 840000"
  let ?w = "((), sample_tables)"
  have drop: "drop_blocks 840001 840001 sample_tables = sample_tables"
    by (simp add: drop_blocks_def heights_to_def roll_back_block_def pg_roll_back_block_def sample_tables_def
        delete_height_def first_rune_def)
  have 1: "handle_command sample_env ?nd sample_platform 0 (DbDrop 840001 840001 []) ?w = Some (Returned ?w)"
    by (simp add: handle_command_def sample_platform_def from_file_path_def from_config_file_def drop_command_def
        drop lit_def)
  have 2: "handle_command sample_env ?nd sample_platform 0 ConfigNew ?w = Some (Returned ?w)"
    by (simp add: handle_command_def config_new_command_def sample_platform_def)
  obtain ic db where i: "index_block sample_env True sample_block (sample_start, sample_tables) =
      Some ((ic, db), [[48, 120, 98]])"
    by (rule sample_index_block)
  have below: "rows_below (unat (bd_height sample_block)) (snd (sample_start, sample_tables))"
    using sample_at_top by (simp add: at_top_def sample_block_def sample_tables_def)
  have height: "db_height db = 840001"
    using indexed_block(3) [OF sample_order_ok sample_indexed below i] by (simp add: sample_block_def)
  have messages: "pl_messages sample_platform = sample_messages" "pl_maintenance sample_platform = None"
    by (simp_all add: sample_platform_def)
  obtain config where config: "from_file_path (pl_read sample_platform ()) (pl_parse sample_platform)
      (pl_overrides sample_platform) path = Inr config" "co_lru_cache_size config = 10" for path
    using sample_config [of "()" "[]"] by (auto simp: sample_platform_def from_file_path_def)
  have run: "run_service sample_env ?nd Bitcoin 10 sample_messages 0 sample_tables = Some (Returned db)"
    by (simp add: run_service_def sample_started sample_messages_def i)
  have 3: "handle_command sample_env ?nd sample_platform 0 (ServiceStart []) ?w = Some (Returned ((), db))"
    by (simp add: handle_command_def config sample_network messages service_command_def unwrap_or_def lit_def run)
  have node: "nd_sorted ?nd [840002] = Some [840002]" "nd_block ?nd 840002 = Inl ()" by (simp_all add: sample_node_def)
  have "scan_blocks sample_env ?nd [840002] 0 s = Some (Failed () s)" for s
    by (simp add: scan_blocks_def scan_bitcoin_def node) (simp add: scan_loop.simps node)
  then obtain q where 4: "handle_command sample_env ?nd sample_platform 0 sample_scan ((), db) = Some q"
    by (cases "index_cache_new sample_env Bitcoin 10 db")
      (simp_all add: handle_command_def config sample_network scan_command_def sample_get_blocks)
  have all: "run_commands sample_env ?nd sample_commands ?w = Some (outcome_state q)"
    by (simp add: sample_commands_def 1 2 3 4)
  have h: "unat (bd_height sample_block) = 840001" by (simp add: sample_block_def)
  have "follows 840000 sample_messages" by (simp add: sample_messages_def h upt_rec)
  then have "command_fits sample_env ?nd sample_platform 0 (ServiceStart []) ?w"
    by (simp add: command_fits_def config sample_network messages sample_started) (simp add: sample_tables_def)
  moreover have "command_fits sample_env ?nd sample_platform 0 sample_scan ((), db)"
    by (simp add: command_fits_def sample_get_blocks height)
  ultimately have fit: "commands_fit sample_env ?nd sample_commands ?w"
    by (simp add: sample_commands_def 1 2 3 4) (simp add: command_fits_def sample_tables_def)
  from commands_keep_books [OF sample_order_ok sample_node_ok _ fit all, of sample_start] sample_at_top all
  show ?thesis by simp
qed

text \<open>Five units received at one height, three at the next, and the first of them dropped.\<close>

definition sample_receipt :: "u64 \<Rightarrow> u128 \<Rightarrow> ledger_entry" where
  "sample_receipt h a =
     \<lparr>le_rune_id = [97], le_block_hash = [], le_block_height = h, le_tx_index = 0, le_event_index = 0,
      le_tx_id = [], le_output = Some 0, le_address = Some [99], le_receiver = None, le_amount = Some a,
      le_operation = OpReceive, le_timestamp = 0\<rparr>"

definition sample_received :: database where
  "sample_received =
     \<lparr>db_runes = [],
      db_supply =
        [\<lparr>su_rune_id = [97], su_block_height = 840001, su_minted = 0, su_total_mints = 0, su_burned = 0,
          su_total_burns = 0, su_total_operations = 1\<rparr>,
         \<lparr>su_rune_id = [97], su_block_height = 840002, su_minted = 0, su_total_mints = 0, su_burned = 0,
          su_total_burns = 0, su_total_operations = 2\<rparr>],
      db_ledger = [sample_receipt 840001 5, sample_receipt 840002 3],
      db_balances =
        [\<lparr>br_rune_id = [97], br_block_height = 840001, br_address = [99], br_balance = 5, br_total_operations = 1\<rparr>,
         \<lparr>br_rune_id = [97], br_block_height = 840002, br_address = [99], br_balance = 8, br_total_operations = 2\<rparr>],
      db_height = 840002\<rparr>"

lemma sample_received_books: "db_books sample_received"
  by (auto simp: db_books_def sample_received_def sample_receipt_def balance_value_def balance_of_def
      supply_value_def supply_of_def latest_def balance_key_def book_defs unwrap_or_def)

lemma drop_below_newer_blocks_witness:
  "balance_value (drop_blocks 840001 840001 sample_received) ([97], [99]) = 8 \<and>
   \<not> db_books (drop_blocks 840001 840001 sample_received)"
proof -
  let ?k = "([97], [99]) :: ustr \<times> ustr"
  let ?r = "\<lparr>br_rune_id = [97], br_block_height = 840002, br_address = [99], br_balance = 8, br_total_operations = 2\<rparr> :: balance_row"
  have r: "?r \<in> set (db_balances sample_received)" "balance_key ?r = ?k" "unat (840001 :: u64) < br_block_height ?r"
    by (simp_all add: sample_received_def balance_key_def)
  have t: "tally credit_of (db_ledger sample_received) ?k = 8" "tally debit_of (db_ledger sample_received) ?k = 0"
    "tally credit_of (dropped_entries 840001 840001 sample_received) ?k = 5"
    "tally debit_of (dropped_entries 840001 840001 sample_received) ?k = 0"
    by (simp_all add: sample_received_def sample_receipt_def dropped_entries_def book_defs unwrap_or_def)
  have "tally credit_of (db_ledger (drop_blocks 840001 840001 sample_received)) ?k = 3"
    "tally debit_of (db_ledger (drop_blocks 840001 840001 sample_received)) ?k = 0"
    using drop_tally [of credit_of 840001 840001 sample_received ?k]
      drop_tally [of debit_of 840001 840001 sample_received ?k] t by simp_all
  with drop_below_newer_blocks [OF sample_received_books r, of 840001] t show ?thesis by simp
qed

end
