(* ===== verification/Spec2Isabelle.thy ===== *)
theory Spec2Isabelle
  imports Mint_Samples Charm Pile Sql_Rows Sync_Samples Service_Samples
begin

text \<open>
  A verification development for runehook, an indexer of Bitcoin runes written in Rust.

  The program. A rune is a token whose etching, mints and transfers are written into Bitcoin
  transactions as \<^emph>\<open>runestones\<close>. The crate \<^verbatim>\<open>crates/ordinals\<close> holds the data and the codec of
  runestones, the names of runes and the numbering of sats. The main crate reads blocks from a
  node, finds out what every runestone does to the balances of its transaction, and keeps a
  Postgres database of runes, ledger entries, supplies and balances per block height
  (\<^verbatim>\<open>src/db\<close>). It also keeps a ledger of transactions that are not in a block yet
  (\<^verbatim>\<open>src/mempool.rs\<close>). The service catches up with the node and then follows its blocks and
  re-organisations (\<^verbatim>\<open>src/service.rs\<close>, \<^verbatim>\<open>src/scan\<close>); a few commands start it, scan blocks or
  drop them (\<^verbatim>\<open>src/cli.rs\<close>).

  How the parts work together. \<open>index_block\<close> decodes each transaction (\<open>decipher\<close>), reads the
  balances of its inputs from a cache or the ledger (\<open>begin_transaction\<close>), lets the transaction
  cache move, mint and burn them (\<open>apply_edict\<close> and its siblings), collects the ledger entries
  as pending rows (\<open>add_ledger_entry\<close>) and writes them at the end of the block (\<open>flush\<close>). A roll
  back deletes the rows of a height. The service calls these two in the order in which the
  chain changes and sends the ids of the block's transactions to the mempool tasks.
\<close>

text \<open>
  Theories and what they model.

  \<^item> \<^bold>\<open>Shared\<close>: \<^verbatim>\<open>Prelude\<close> (machine integers as words, Rust's
  arithmetic, text and hash maps, the lemma collections).

  \<^item> \<^bold>\<open>Codec\<close>, \<^verbatim>\<open>crates/ordinals/src\<close>: \<^verbatim>\<open>Varint\<close> (\<^verbatim>\<open>varint.rs\<close>), \<^verbatim>\<open>Rune_Id\<close> (\<^verbatim>\<open>rune_id.rs\<close>),
  \<^verbatim>\<open>Rune_Name\<close> (\<^verbatim>\<open>rune.rs\<close>), \<^verbatim>\<open>Spaced_Rune\<close> (\<^verbatim>\<open>spaced_rune.rs\<close>), \<^verbatim>\<open>Artifact\<close> (\<^verbatim>\<open>edict.rs\<close>,
  \<^verbatim>\<open>terms.rs\<close>, \<^verbatim>\<open>etching.rs\<close>, \<^verbatim>\<open>flaw.rs\<close>, \<^verbatim>\<open>cenotaph.rs\<close>, \<^verbatim>\<open>artifact.rs\<close>), \<^verbatim>\<open>Tag_Fields\<close>
  (\<^verbatim>\<open>runestone/tag.rs\<close>, \<^verbatim>\<open>flag.rs\<close>), \<^verbatim>\<open>Message\<close> (\<^verbatim>\<open>runestone/message.rs\<close>, payload and integers of
  \<^verbatim>\<open>runestone.rs\<close>), \<^verbatim>\<open>Decipher\<close> and \<^verbatim>\<open>Encipher\<close> (\<^verbatim>\<open>runestone.rs\<close>).
  The abstract view of the tagged fields is the queue of each tag (\<open>values_of\<close>). Facts: both
  round trips of \<open>encipher\<close> and \<open>decipher\<close>, what a deciphered runestone satisfies, when a flaw is
  reported, that neither function panics on transactions that fit a block, and the round trips
  of integers, identifiers and names.

  \<^item> \<^bold>\<open>Sats\<close>: \<^verbatim>\<open>Sat_Numbers\<close> (\<^verbatim>\<open>sat.rs\<close>, \<^verbatim>\<open>epoch.rs\<close>, \<^verbatim>\<open>height.rs\<close>, \<^verbatim>\<open>degree.rs\<close>,
  \<^verbatim>\<open>decimal_sat.rs\<close>, \<^verbatim>\<open>rarity.rs\<close>), \<^verbatim>\<open>Sat_Text\<close> (their notations), \<^verbatim>\<open>Charm\<close> (\<^verbatim>\<open>charm.rs\<close>),
  \<^verbatim>\<open>Pile\<close> (\<^verbatim>\<open>pile.rs\<close>, \<^verbatim>\<open>sat_point.rs\<close>). Facts: sats and positions in blocks are in one to one
  correspondence, every notation is read back, amounts print exactly.

  \<^item> \<^bold>\<open>One transaction\<close>, \<^verbatim>\<open>src/db/cache\<close>: \<^verbatim>\<open>Ledger_Models\<close> (\<^verbatim>\<open>src/db/models\<close>,
  \<^verbatim>\<open>transaction_location.rs\<close>, \<^verbatim>\<open>input_rune_balance.rs\<close>), \<^verbatim>\<open>Balance_Moves\<close> (\<^verbatim>\<open>utils.rs\<close>),
  \<^verbatim>\<open>Transaction_Cache\<close> (\<^verbatim>\<open>transaction_cache.rs\<close>), \<^verbatim>\<open>Ledger_Shape\<close> (the shape of its entries). The
  contract of an operation on the transaction cache is the locale \<open>ledger_operation\<close>: it keeps
  the cache well formed, numbers its entries consecutively, creates no balance but what it
  credits. It is interpreted for every operation, and sequences of operations inherit it.

  \<^item> \<^bold>\<open>Tables\<close>: \<^verbatim>\<open>Versioned_Table\<close> (a table with one row per key and height; locale
  \<open>height_changes\<close>, interpreted for balances and supplies), \<^verbatim>\<open>Database\<close> (\<^verbatim>\<open>src/db/mod.rs\<close>),
  \<^verbatim>\<open>Db_Cache\<close> (\<^verbatim>\<open>db_cache.rs\<close>), \<^verbatim>\<open>Pg_Types\<close> (\<^verbatim>\<open>src/db/types\<close>), \<^verbatim>\<open>Sql_Rows\<close> (parameters of
  insertions and reading of rows). The abstract specification of the tables is one account per
  address and rune (\<open>accounts_of\<close>), that of a flush is posting the pending changes (\<open>post\<close>).

  \<^item> \<^bold>\<open>Blocks\<close>: \<^verbatim>\<open>Index_Cache\<close> (\<^verbatim>\<open>index_cache.rs\<close>), \<^verbatim>\<open>Index\<close> (\<^verbatim>\<open>src/db/index.rs\<close>), \<^verbatim>\<open>Ledger_Books\<close>
  (what the ledger says an account should hold), \<^verbatim>\<open>Index_Steps\<close> (every operation simulated by
  three kinds of steps on rows; locale \<open>block_invariant\<close>), \<^verbatim>\<open>Chain\<close> (reachable states of the
  indexer and the books), \<^verbatim>\<open>Ledger_Reads\<close> (reading entries back), \<^verbatim>\<open>Mint_Limits\<close> and \<^verbatim>\<open>Mint_Cap\<close>
  (the cap on mints across evictions, flushes and restarts).

  \<^item> \<^bold>\<open>Mempool\<close>: \<^verbatim>\<open>Mempool\<close> (the entries of one transaction), \<^verbatim>\<open>Mempool_Books\<close> (conservation and
  comparison with the index), \<^verbatim>\<open>Mempool_Sync\<close> (the tasks, one after the other and interleaved).

  \<^item> \<^bold>\<open>Service\<close>: \<^verbatim>\<open>Service\<close> (\<^verbatim>\<open>src/service.rs\<close>, \<^verbatim>\<open>src/scan/bitcoin.rs\<close>), \<^verbatim>\<open>Service_Facts\<close>,
  \<^verbatim>\<open>Commands\<close> (\<^verbatim>\<open>src/config\<close>, \<^verbatim>\<open>src/bitcoind\<close>, arguments and commands of \<^verbatim>\<open>src/cli.rs\<close>), \<^verbatim>\<open>Entry\<close>
  (the dispatch of commands and sequences of them). The loop over the messages of the observer is
  modelled twice: \<open>sidecar_loop\<close> gives the blocks sent back and the ids sent on, \<open>sidecar_run\<close> the state
  at every exit, and \<open>sidecar_run_loop\<close> shows that they agree.

  \<^item> \<^bold>\<open>Concrete runs\<close>: \<^verbatim>\<open>Chain_Samples\<close>, \<^verbatim>\<open>Mint_Samples\<close>, \<^verbatim>\<open>Mempool_Samples\<close>, \<^verbatim>\<open>Sync_Samples\<close>,
  \<^verbatim>\<open>Service_Samples\<close> apply the properties to a block, a mint, a transfer and a node.
\<close>

text \<open>
  Conventions. Integers are words of their Rust width and wrap, as in the release build of the
  Dockerfile; the columns of the database are unbounded numbers. Strings are lists of Unicode
  scalar values, hash maps are association lists. Errors are the left side of a sum. \<open>None\<close> as the
  result of an operation is a panic or a failed statement, on which the program exits; the
  database transaction of the block is then not committed. Sums of ledger entries are compared
  with balances as long as they stay below \<open>2 ^ 128\<close>, the width of a pending change.

  Loops over data are recursive functions. The loops that wait for the node or the database
  (\<open>scan_loop\<close>, \<open>catch_up\<close>, \<open>retry\<close>) are \<open>partial_function (option)\<close>: there \<open>None\<close> means that the
  loop never ends, and results of the kind that it ends, or never does, are theorems of their
  own. No definition takes fuel.

  Parameters and hypotheses. Script iteration, script building and addresses belong to the
  \<^verbatim>\<open>bitcoin\<close> crate; \<open>script_law\<close> says that iterating over a built script gives what was pushed.
  The \<open>lru\<close> caches are abstract operations; \<open>lru_ok\<close> says that a cache returns what was last put,
  or nothing, as it may evict at any time. The iteration orders of hash maps and the order of
  rows without \<open>ORDER BY\<close> are functions that return permutations (\<open>is_iteration\<close>,
  \<open>flush_order_ok\<close>). The node answers with the block of the height it was asked for and the SDK
  leaves ascending heights as they are (\<open>node_ok\<close>); a chain of messages is one the SDK may send
  (\<open>follows\<close>). The number of parameters a statement may have is a number of the environment
  (65535 in the protocol of Postgres); the statements whose length depends on the input fail above
  it (the inputs of a transaction, the rows and ids of the mempool), the others send at most 500
  rows. The server gives back the numbers it was sent, up to trailing groups of zeros
  (\<open>numbers_kept\<close>). Every property with such a hypothesis has a witness on a concrete instance.
\<close>

text \<open>
  What the theorems show.

  \<^item> The codec loses nothing, in both directions.

  \<^item> No transaction delivers more of a rune than its inputs, premine and mints; every entry is
  complete; edicts divide as specified.

  \<^item> In every state the indexer reaches, also after re-organisations, restarts and whole
  sequences of commands, balances and supply counters at every height are the sums of the
  ledger; rolling back a block restores the tables; no rune is minted above its cap as long as
  the process restarts after a roll back.

  \<^item> The service reaches a tip that stands still and follows any chain of messages afterwards; its
  messages also count in the sequences of commands, up to the block that could not be indexed if
  there was one.

  \<^item> The mempool records every transaction at most once, also when its tasks are interleaved, and
  creates no balance.

  They also show where the program falls short of this: stale caches after a roll back,
  heights that are not reset and balances that stay when blocks are dropped, confirmed
  transactions that stay in the mempool ledger, plain transfers that the mempool shows as burns,
  and a query that fails for a transaction with more inputs than it has parameters for.
\<close>

text \<open>
  Not modelled.

  \<^item> The percentile notation of sats computes with 64 bit floating point numbers, of
  which the library has no model; it is a parameter of the parser of sats.

  \<^item> The text of SQL statements (positions of parameters) and the migrations: the statements are
  functions on lists of rows, the tables of the migrations are their starting point.

  \<^item> Threads, channels and sockets: the loops behind them are modelled as sequences of messages,
  the mempool tasks also interleaved. A panic in the thread that handles the messages ends the run of the
  service; that the process is killed between two roll backs of one message is left out.

  \<^item> The declarations of the command line parser, log output, the serializers (which call the
  printers and parsers modelled here), and the API, a TypeScript program that reads the tables.
\<close>

end
